(* ===== verification/Prelude.thy ===== *)
theory Prelude
  imports Main "HOL-Library.AList" "HOL-Library.Multiset"
begin

text \<open>
  Shared vocabulary of the development.

  \<^item> Go maps. A \<open>map[K]V\<close> is an association list with distinct keys
    (\<open>go_map\<close>), read by \<open>map_of\<close>, written by \<open>AList.update\<close>, deleted from
    by \<open>AList.delete\<close>. Go visits a map in an unspecified order that may differ
    between two \<open>range\<close> statements over the same map. That freedom is data of the
    model: a list of numbers, the code of a permutation, that \<open>shuffle\<close> applies to
    the keys. Every code gives a permutation (\<open>mset_shuffle\<close>) and every permutation has a
    code (\<open>shuffle_complete\<close>), so a theorem for all codes is a theorem for all orders Go
    may choose.
  \<^item> Failures. A run-time panic is a value of \<open>gopanic\<close>, a returned \<open>error\<close>
    is a value of an error type in an option next to the new state.
  \<^item> \<open>bind_sum\<close>: sequencing of steps that may panic.
\<close>

section \<open>Collections of rewrite rules\<close>

named_theorems go_map_simps \<open>lookup, key and well-formedness rules for Go maps\<close>
named_theorems frame_simps \<open>fields that an operation leaves alone\<close>

section \<open>Panics and sequencing\<close>

datatype gopanic =
    CloseOfClosedChannel
  | AssignmentToNilMap
  | IndexOutOfRange
  | NilDereference
  | ZeroReflectValue
  | BadTypeAssertion

fun bind_sum :: "'e + 'a \<Rightarrow> ('a \<Rightarrow> 'e + 'b) \<Rightarrow> 'e + 'b" where
  "bind_sum (Inl e) f = Inl e"
| "bind_sum (Inr a) f = f a"

lemma bind_sum_Inr_iff:
  "bind_sum r f = Inr b \<longleftrightarrow> (\<exists>a. r = Inr a \<and> f a = Inr b)"
  by (cases r) auto

section \<open>Permutation codes\<close>

text \<open>
  \<open>shuffle cs xs\<close> picks the element at position \<open>c mod length xs\<close> for each number
  \<open>c\<close> of the code in turn, and keeps the rest in place when the code runs out.
\<close>

fun shuffle :: "nat list \<Rightarrow> 'a list \<Rightarrow> 'a list" where
  "shuffle [] xs = xs"
| "shuffle (c # cs) xs =
     (case xs of [] \<Rightarrow> []
      | _ \<Rightarrow> let i = c mod length xs in xs ! i # shuffle cs (take i xs @ drop (Suc i) xs))"

lemma mset_remove_nth: "i < length xs \<Longrightarrow> add_mset (xs ! i) (mset (take i xs @ drop (Suc i) xs)) = mset xs"
  by (metis id_take_nth_drop mset.simps(2) mset_append union_mset_add_mset_right)

lemma mset_shuffle [simp]: "mset (shuffle cs xs) = mset xs"
proof (induction cs xs rule: shuffle.induct)
  case (2 c cs xs)
  show ?case
  proof (cases xs)
    case (Cons y ys)
    let ?i = "c mod length xs"
    have "?i < length xs" using Cons by simp
    moreover have "shuffle (c # cs) xs = xs ! ?i # shuffle cs (take ?i xs @ drop (Suc ?i) xs)"
      using Cons by (simp add: Let_def)
    ultimately show ?thesis
      using "2.IH" [OF Cons refl] Cons mset_remove_nth [of ?i xs] by (metis mset.simps(2))
  qed simp
qed simp

lemma set_shuffle [simp]: "set (shuffle cs xs) = set xs"
  using mset_shuffle [of cs xs] by (metis set_mset_mset)

lemma length_shuffle [simp]: "length (shuffle cs xs) = length xs"
  using mset_shuffle [of cs xs] by (metis size_mset)

lemma shuffle_eq_Nil [simp]: "shuffle code xs = [] \<longleftrightarrow> xs = []"
  using length_shuffle [of code xs] by (metis length_0_conv)

lemma distinct_shuffle [simp]: "distinct (shuffle cs xs) \<longleftrightarrow> distinct xs"
  using mset_shuffle [of cs xs] by (metis mset_eq_imp_distinct_iff)

lemma shuffle_Nil [simp]: "shuffle cs [] = []"
  by (cases cs) simp_all

text \<open>Every arrangement of a list is reached by some code.\<close>

lemma shuffle_complete: "mset ys = mset xs \<Longrightarrow> \<exists>cs. shuffle cs xs = ys"
proof (induction ys arbitrary: xs)
  case Nil
  then show ?case by (intro exI [of _ "[]"]) simp
next
  case (Cons y ys)
  then have "y \<in> set xs" by (metis list.set_intros(1) set_mset_mset)
  then obtain i where i: "i < length xs" "xs ! i = y" by (meson in_set_conv_nth)
  let ?r = "take i xs @ drop (Suc i) xs"
  have "mset ys = mset ?r"
    using Cons.prems mset_remove_nth [OF i(1)] i(2) by (metis add_mset_add_mset_same_iff mset.simps(2))
  from Cons.IH [OF this] obtain cs where "shuffle cs ?r = ys" by blast
  moreover have "shuffle (i # cs) xs = y # shuffle cs ?r"
    using i by (cases xs) (simp_all add: Let_def)
  ultimately show ?case by (intro exI [of _ "i # cs"]) simp
qed

section \<open>Go maps\<close>

type_synonym ('k, 'v) gomap = "('k \<times> 'v) list"

definition go_map :: "('k, 'v) gomap \<Rightarrow> bool" where
  "go_map m \<longleftrightarrow> distinct (map fst m)"

text \<open>The keys of a map in the order one \<open>range\<close> statement visits them.\<close>

definition range_keys :: "nat list \<Rightarrow> ('k, 'v) gomap \<Rightarrow> 'k list" where
  "range_keys cs m = shuffle cs (map fst m)"

lemma go_map_Nil [simp, go_map_simps]: "go_map []"
  by (simp add: go_map_def)

lemma go_map_single [simp, go_map_simps]: "go_map [p]"
  by (simp add: go_map_def)

lemma go_map_update [simp, go_map_simps]: "go_map m \<Longrightarrow> go_map (AList.update k v m)"
  by (simp add: go_map_def distinct_update)

lemma go_map_delete [simp, go_map_simps]: "go_map m \<Longrightarrow> go_map (AList.delete k m)"
  by (simp add: go_map_def distinct_delete)

lemma gomap_update [simp, go_map_simps]: "map_of (AList.update k v m) = (map_of m)(k \<mapsto> v)"
  by (simp add: update_conv')

lemma gomap_delete [simp, go_map_simps]: "map_of (AList.delete k m) = (map_of m)(k := None)"
  by (simp add: delete_conv')

lemma set_range_keys [simp, go_map_simps]: "set (range_keys cs m) = dom (map_of m)"
  by (simp add: range_keys_def dom_map_of_conv_image_fst)

lemma distinct_range_keys [simp, go_map_simps]: "go_map m \<Longrightarrow> distinct (range_keys cs m)"
  by (simp add: range_keys_def go_map_def)

lemma length_range_keys [simp, go_map_simps]: "length (range_keys cs m) = length m"
  by (simp add: range_keys_def)

lemma go_map_ConsD: "go_map (p # m) \<Longrightarrow> go_map m \<and> map_of m (fst p) = None"
  by (auto simp: go_map_def map_of_eq_None_iff)

lemma map_of_Some_in_set: "go_map m \<Longrightarrow> map_of m k = Some v \<longleftrightarrow> (k, v) \<in> set m"
  by (simp add: go_map_def)

text \<open>Reading an absent key of a map gives the zero value of its element type.\<close>

definition lookup_zero :: "'v \<Rightarrow> ('k, 'v) gomap \<Rightarrow> 'k \<Rightarrow> 'v" where
  "lookup_zero z m k = (case map_of m k of Some v \<Rightarrow> v | None \<Rightarrow> z)"

lemma lookup_zero_update [simp]:
  "lookup_zero z (AList.update k v m) k' = (if k' = k then v else lookup_zero z m k')"
  by (simp add: lookup_zero_def)

section \<open>Lists\<close>

lemma set_take_drop_disjoint: "distinct xs \<Longrightarrow> set (take n xs) \<inter> set (drop n xs) = {}"
  by (metis append_take_drop_id distinct_append)

lemma length_removeAll_distinct: "distinct xs \<Longrightarrow> x \<in> set xs \<Longrightarrow> length (removeAll x xs) = length xs - 1"
  by (metis distinct_remove1_removeAll length_remove1)

section \<open>Interleaved steps\<close>

text \<open>
  The contract of a step relation with an invariant, and of one that comes to an end: a component whose
  goroutines interleave interprets it with its own steps.
\<close>

locale guarded_steps =
  fixes step :: "'s \<Rightarrow> 's \<Rightarrow> bool" and inv :: "'s \<Rightarrow> bool"
  assumes step_inv: "inv s \<Longrightarrow> step s s' \<Longrightarrow> inv s'"
begin

lemma steps_inv: "step\<^sup>*\<^sup>* s s' \<Longrightarrow> inv s \<Longrightarrow> inv s'"
  by (induction rule: rtranclp_induct) (auto intro: step_inv)

end

locale ending_steps = guarded_steps +
  fixes size_of :: "'s \<Rightarrow> nat" and ended :: "'s \<Rightarrow> bool"
  assumes step_smaller: "step s s' \<Longrightarrow> size_of s' < size_of s"
    and progress: "inv s \<Longrightarrow> \<not> ended s \<Longrightarrow> \<exists>s'. step s s'"
begin

lemma terminates: "wfP step\<inverse>\<inverse>"
  by (rule wfp_if_convertible_to_nat [of _ size_of]) (simp add: step_smaller)

lemma reaches_end: "inv s \<Longrightarrow> \<exists>s'. step\<^sup>*\<^sup>* s s' \<and> ended s'"
proof (induction s rule: measure_induct_rule [of size_of])
  case (less s)
  show ?case
  proof (cases "ended s")
    case False
    then obtain s1 where s1: "step s s1" using progress [OF less.prems] by blast
    obtain s' where "step\<^sup>*\<^sup>* s1 s'" "ended s'" using less.IH [OF step_smaller [OF s1] step_inv [OF less.prems s1]] by blast
    then show ?thesis using converse_rtranclp_into_rtranclp [of step, OF s1] by blast
  qed blast
qed

end

text \<open>Steps that may panic, but under the invariant only in the ways that are named; those that do not are guarded steps.\<close>

locale panicking_steps =
  fixes act :: "'s \<Rightarrow> 'p + 's \<Rightarrow> bool" and inv :: "'s \<Rightarrow> bool" and may_panic :: "'p \<Rightarrow> bool"
  assumes act_inv: "inv s \<Longrightarrow> act s r \<Longrightarrow> (\<exists>p. r = Inl p \<and> may_panic p) \<or> (\<exists>s'. r = Inr s' \<and> inv s')"
begin

lemma no_panic: "inv s \<Longrightarrow> \<not> may_panic p \<Longrightarrow> \<not> act s (Inl p)"
  using act_inv by blast

end

sublocale panicking_steps < calm: guarded_steps "\<lambda>s s'. act s (Inr s')" inv
  by unfold_locales (use act_inv in blast)

end
