(* ===== verification/GoStrings.thy ===== *)
theory GoStrings
  imports Prelude "HOL-Library.Sublist" "HOL-Library.Char_ord"
begin

text \<open>
  The part of Go's \<open>strings\<close> and \<open>strconv\<close> packages that the modelled code
  calls. A Go string is a sequence of bytes: a HOL \<open>string\<close>. The round trip
  \<open>Join sep (Split sep s) = s\<close> and the shape of the pieces are proved here once, for the
  parsers of the discovery service and the sensor names of the senders.
\<close>

section \<open>Searching\<close>

definition HasPrefix :: "string \<Rightarrow> string \<Rightarrow> bool" where
  "HasPrefix s p \<longleftrightarrow> prefix p s"

definition HasSuffix :: "string \<Rightarrow> string \<Rightarrow> bool" where
  "HasSuffix s p \<longleftrightarrow> suffix p s"

definition TrimSuffix :: "string \<Rightarrow> string \<Rightarrow> string" where
  "TrimSuffix s p = (if HasSuffix s p then take (length s - length p) s else s)"

definition TrimRight :: "string \<Rightarrow> string \<Rightarrow> string" where
  "TrimRight s cutset = rev (dropWhile (\<lambda>c. c \<in> set cutset) (rev s))"

text \<open>\<open>strings.Index\<close>: the position of the first occurrence, \<open>None\<close> for \<open>-1\<close>.\<close>

fun Index :: "string \<Rightarrow> string \<Rightarrow> nat option" where
  "Index [] sub = (if sub = [] then Some 0 else None)"
| "Index (c # cs) sub = (if prefix sub (c # cs) then Some 0 else map_option Suc (Index cs sub))"

definition Contains :: "string \<Rightarrow> string \<Rightarrow> bool" where
  "Contains s sub \<longleftrightarrow> Index s sub \<noteq> None"

text \<open>\<open>strings.IndexFunc\<close>: the first position whose character satisfies the predicate.\<close>

fun IndexFunc :: "string \<Rightarrow> (char \<Rightarrow> bool) \<Rightarrow> nat option" where
  "IndexFunc [] p = None"
| "IndexFunc (c # cs) p = (if p c then Some 0 else map_option Suc (IndexFunc cs p))"

text \<open>\<open>strings.LastIndex\<close> of a one-character string.\<close>

definition LastIndexByte :: "string \<Rightarrow> char \<Rightarrow> nat option" where
  "LastIndexByte s c = map_option (\<lambda>i. length s - Suc i) (IndexFunc (rev s) (\<lambda>d. d = c))"

lemma Index_Some_parts:
  "Index s sub = Some i \<Longrightarrow> s = take i s @ sub @ drop (i + length sub) s"
proof (induction s arbitrary: i)
  case (Cons c cs)
  show ?case
  proof (cases "prefix sub (c # cs)")
    case True
    then show ?thesis using Cons.prems by (auto simp: prefix_def)
  next
    case False
    then obtain j where j: "Index cs sub = Some j" "i = Suc j" using Cons.prems by auto
    show ?thesis using Cons.IH [OF j(1)] j(2) by simp
  qed
qed (auto split: if_splits)

lemma Index_Some_bound: "Index s sub = Some i \<Longrightarrow> i + length sub \<le> length s"
proof (induction s arbitrary: i)
  case (Cons c cs)
  then show ?case by (auto split: if_splits dest: prefix_length_le)
qed (auto split: if_splits)

lemma Index_None_iff: "Index s sub = None \<longleftrightarrow> \<not> sublist sub s"
  by (induction s) (auto simp: sublist_Cons_right)

lemma IndexFunc_Some:
  "IndexFunc s p = Some i \<Longrightarrow> i < length s \<and> p (s ! i) \<and> (\<forall>j<i. \<not> p (s ! j))"
proof (induction s arbitrary: i)
  case (Cons c cs)
  show ?case
  proof (cases "p c")
    case False
    then obtain k where k: "IndexFunc cs p = Some k" "i = Suc k" using Cons.prems by auto
    show ?thesis using Cons.IH [OF k(1)] k(2) False by (auto simp: less_Suc_eq_0_disj)
  qed (use Cons.prems in auto)
qed simp

lemma IndexFunc_None: "IndexFunc s p = None \<longleftrightarrow> (\<forall>c\<in>set s. \<not> p c)"
  by (induction s) auto

lemma IndexFunc_append: "\<forall>c\<in>set a. \<not> p c \<Longrightarrow> p d \<Longrightarrow> IndexFunc (a @ d # b) p = Some (length a)"
  by (induction a) auto

lemma LastIndexByte_append: "c \<notin> set b \<Longrightarrow> LastIndexByte (a @ c # b) c = Some (length a)"
proof -
  assume "c \<notin> set b"
  then have "IndexFunc (rev b @ c # rev a) (\<lambda>d. d = c) = Some (length b)"
    using IndexFunc_append [of "rev b" "\<lambda>d. d = c" c "rev a"] by fastforce
  then show ?thesis by (simp add: LastIndexByte_def)
qed

lemma LastIndexByte_None: "LastIndexByte s c = None \<longleftrightarrow> c \<notin> set s"
  by (auto simp: LastIndexByte_def IndexFunc_None)

section \<open>Splitting and joining\<close>

text \<open>
  \<open>strings.Split\<close>. An empty separator splits after every character (the code modelled
  here never passes one on non-ASCII text).
\<close>

function Split :: "string \<Rightarrow> string \<Rightarrow> string list" where
  "Split s sep =
     (if sep = [] then map (\<lambda>c. [c]) s
      else case Index s sep of
        None \<Rightarrow> [s]
      | Some i \<Rightarrow> take i s # Split (drop (i + length sep) s) sep)"
  by pat_completeness auto
termination
proof (relation "measure (\<lambda>(s, sep). length s)", goal_cases)
  case (2 s sep i)
  then show ?case using Index_Some_bound [OF 2(2)] by (cases sep) auto
qed simp

declare Split.simps [simp del]

fun Join :: "string list \<Rightarrow> string \<Rightarrow> string" where
  "Join [] sep = []"
| "Join [x] sep = x"
| "Join (x # xs) sep = x @ sep @ Join xs sep"

lemma Join_Cons: "xs \<noteq> [] \<Longrightarrow> Join (x # xs) sep = x @ sep @ Join xs sep"
  by (cases xs) auto

lemma Split_nonempty: "sep \<noteq> [] \<Longrightarrow> Split s sep \<noteq> []"
  by (subst Split.simps) (auto split: option.splits)

lemma Join_Split: "sep \<noteq> [] \<Longrightarrow> Join (Split s sep) sep = s"
proof (induction s sep rule: Split.induct)
  case (1 s sep)
  show ?case
  proof (cases "Index s sep")
    case None
    then show ?thesis using 1 by (subst Split.simps) simp
  next
    case (Some i)
    then have "Join (Split (drop (i + length sep) s) sep) sep = drop (i + length sep) s"
      using 1 by blast
    then show ?thesis
      using Some "1.prems" Index_Some_parts [OF Some]
      by (subst Split.simps) (simp add: Join_Cons Split_nonempty)
  qed
qed

text \<open>The pieces of joined fields that do not hold the one-character separator are the fields.\<close>

lemma Index_char_notin: "c \<notin> set s \<Longrightarrow> Index s [c] = None"
  by (induction s) auto

lemma Index_char_append: "c \<notin> set a \<Longrightarrow> Index (a @ c # s) [c] = Some (length a)"
  by (induction a) auto

lemma Split_char_notin: "c \<notin> set s \<Longrightarrow> Split s [c] = [s]"
  by (subst Split.simps) (simp add: Index_char_notin)

lemma Split_char_append: "c \<notin> set a \<Longrightarrow> Split (a @ c # s) [c] = a # Split s [c]"
  by (subst Split.simps) (simp add: Index_char_append)

lemma Split_Join:
  "xs \<noteq> [] \<Longrightarrow> \<forall>x\<in>set xs. c \<notin> set x \<Longrightarrow> Split (Join xs [c]) [c] = xs"
proof (induction xs)
  case (Cons x xs)
  then show ?case by (cases xs) (simp_all add: Split_char_notin Split_char_append)
qed simp

lemma last_Join: "xs \<noteq> [] \<Longrightarrow> last xs \<noteq> [] \<Longrightarrow> Join xs sep \<noteq> [] \<and> last (Join xs sep) = last (last xs)"
proof (induction xs)
  case (Cons x xs)
  then show ?case by (cases xs) auto
qed simp

text \<open>\<open>strings.SplitN(s, sep, 2)\<close>: cut at the first separator only.\<close>

definition SplitN2 :: "string \<Rightarrow> string \<Rightarrow> string list" where
  "SplitN2 s sep =
     (case Index s sep of None \<Rightarrow> [s] | Some i \<Rightarrow> [take i s, drop (i + length sep) s])"

text \<open>\<open>strings.Replace(s, old, new, -1)\<close> for a non-empty \<open>old\<close>.\<close>

definition ReplaceAll :: "string \<Rightarrow> string \<Rightarrow> string \<Rightarrow> string" where
  "ReplaceAll s old new = Join (Split s old) new"

text \<open>\<open>TrimSpace\<close> on ASCII.\<close>

definition is_space :: "char \<Rightarrow> bool" where
  "is_space c \<longleftrightarrow> c \<in> {CHR '' '', CHR 0x09, CHR 0x0A, CHR 0x0B, CHR 0x0C, CHR 0x0D}"

definition TrimSpace :: "string \<Rightarrow> string" where
  "TrimSpace s = rev (dropWhile is_space (rev (dropWhile is_space s)))"

section \<open>Numbers and letters\<close>

text \<open>\<open>strconv.Itoa\<close> and \<open>strconv.FormatInt(_, 10)\<close>.\<close>

definition digit :: "nat \<Rightarrow> char" where
  "digit d = char_of (48 + d)"

fun utoa :: "nat \<Rightarrow> string" where
  "utoa n = (if n < 10 then [digit n] else utoa (n div 10) @ [digit (n mod 10)])"

declare utoa.simps [simp del]

definition Itoa :: "int \<Rightarrow> string" where
  "Itoa i = (if i < 0 then CHR ''-'' # utoa (nat (- i)) else utoa (nat i))"

text \<open>Reading decimal digits back, to state that no two numbers print alike.\<close>

definition undigits :: "string \<Rightarrow> nat" where
  "undigits s = foldl (\<lambda>n c. 10 * n + (of_char c - 48)) 0 s"

lemma undigits_utoa [simp]: "undigits (utoa n) = n"
proof (induction n rule: utoa.induct)
  case (1 n)
  have d: "of_char (digit k) - (48::nat) = k" if "k < 10" for k
    using that by (simp add: digit_def take_bit_eq_mod)
  show ?case
  proof (cases "n < 10")
    case True
    then show ?thesis by (subst utoa.simps) (simp add: undigits_def d)
  next
    case False
    then have "undigits (utoa (n div 10)) = n div 10" using 1 by blast
    then show ?thesis using False
      by (subst utoa.simps) (simp add: undigits_def d)
  qed
qed

lemma utoa_inject [simp]: "utoa m = utoa n \<longleftrightarrow> m = n"
  by (metis undigits_utoa)

text \<open>\<open>strings.ToLower\<close> and \<open>strings.ToUpper\<close> on ASCII.\<close>

definition lower_char :: "char \<Rightarrow> char" where
  "lower_char c = (if CHR ''A'' \<le> c \<and> c \<le> CHR ''Z'' then char_of (of_char c + (32::nat)) else c)"

definition ToLower :: "string \<Rightarrow> string" where
  "ToLower s = map lower_char s"

end
