(* ===== verification/FSMStore.thy ===== *)
theory FSMStore
  imports GoStrings
begin

text \<open>
  \<open>combainer/fsm.go\<close>: \<open>FSMStore\<close>, the replicated table of dispatched configs, a map
  from hosts to maps from config names to stop channels. Every method holds the store's
  mutex for its whole body, so each is one step here.

  A channel is a number; \<open>next_ch\<close> is the next one \<open>make(chan struct{})\<close> returns and
  \<open>closed_chs\<close> the ones already closed. Closing a closed channel panics in Go and is
  \<open>Inl CloseOfClosedChannel\<close> here. A \<open>nil\<close> channel is \<open>None\<close>.
  The invariant \<open>store_inv\<close> says that every channel in the table is non-nil, open and used in
  one place only; with it no operation can panic, and the effect of each operation on the set
  of assignments and on the set of live channels is stated as an equation.
\<close>

record FSMStore =
  store :: "(string, (string, nat option) gomap) gomap"
  next_ch :: nat
  closed_chs :: "nat set"

section \<open>Channels\<close>

definition make_chan :: "FSMStore \<Rightarrow> FSMStore \<times> nat" where
  "make_chan s = (s\<lparr>next_ch := Suc (next_ch s)\<rparr>, next_ch s)"

definition close_chan :: "nat \<Rightarrow> FSMStore \<Rightarrow> gopanic + FSMStore" where
  "close_chan ch s =
     (if ch \<in> closed_chs s then Inl CloseOfClosedChannel
      else Inr (s\<lparr>closed_chs := insert ch (closed_chs s)\<rparr>))"

section \<open>The operations\<close>

definition NewFSMStore :: FSMStore where
  "NewFSMStore = \<lparr>store = [], next_ch = 0, closed_chs = {}\<rparr>"

text \<open>\<open>keys\<close>: the names in one map, in the order its \<open>range\<close> visits them.\<close>

definition keys :: "nat list \<Rightarrow> (string, nat option) gomap \<Rightarrow> string list" where
  "keys ord m = range_keys ord m"

definition FSMStore_List :: "nat list \<Rightarrow> string \<Rightarrow> FSMStore \<Rightarrow> string list" where
  "FSMStore_List ord host s =
     (case map_of (store s) host of Some hostConfigs \<Rightarrow> keys ord hostConfigs | None \<Rightarrow> [])"

text \<open>\<open>s.store[host][config] = ch\<close>; assigning through an absent (nil) inner map panics.\<close>

definition set_cell :: "string \<Rightarrow> string \<Rightarrow> nat option \<Rightarrow> FSMStore \<Rightarrow> gopanic + FSMStore" where
  "set_cell host config ch s =
     (case map_of (store s) host of
        None \<Rightarrow> Inl AssignmentToNilMap
      | Some hc \<Rightarrow> Inr (s\<lparr>store := AList.update host (AList.update config ch hc) (store s)\<rparr>))"

definition FSMStore_Put :: "string \<Rightarrow> string \<Rightarrow> FSMStore \<Rightarrow> gopanic + FSMStore \<times> nat" where
  "FSMStore_Put host config s =
     bind_sum
       (case map_of (store s) host of
          None \<Rightarrow> Inr (s\<lparr>store := AList.update host [] (store s)\<rparr>)
        | Some hc \<Rightarrow>
            (case lookup_zero None hc config of
               Some oldStopCh \<Rightarrow> close_chan oldStopCh s
             | None \<Rightarrow> Inr s))
       (\<lambda>s. let (s, newStopCh) = make_chan s in
          bind_sum (set_cell host config (Some newStopCh) s) (\<lambda>s. Inr (s, newStopCh)))"

definition FSMStore_Remove :: "string \<Rightarrow> string \<Rightarrow> FSMStore \<Rightarrow> gopanic + FSMStore" where
  "FSMStore_Remove host config s =
     (case map_of (store s) host of
        None \<Rightarrow> Inr s
      | Some hostConfigs \<Rightarrow>
          (case map_of hostConfigs config of
             None \<Rightarrow> Inr s
           | Some stopCh \<Rightarrow>
               bind_sum (case stopCh of Some ch \<Rightarrow> close_chan ch s | None \<Rightarrow> Inr s)
                 (\<lambda>s. Inr (s\<lparr>store := AList.update host (AList.delete config hostConfigs) (store s)\<rparr>))))"

text \<open>\<open>Dump\<close>: one order for each inner map (\<open>ord k\<close>).\<close>

definition FSMStore_Dump :: "(string \<Rightarrow> nat list) \<Rightarrow> FSMStore \<Rightarrow> (string, string list) gomap" where
  "FSMStore_Dump ord s = map (\<lambda>(k, hc). (k, keys (ord k) hc)) (store s)"

text \<open>
  \<open>clean\<close>: close every channel, delete every config, delete every host. \<open>clean_host\<close> is the
  inner loop over the configs of host \<open>k\<close>, \<open>clean_hosts\<close> the outer one.
\<close>

fun clean_host :: "string list \<Rightarrow> string \<Rightarrow> FSMStore \<Rightarrow> gopanic + FSMStore" where
  "clean_host [] k s = Inr s"
| "clean_host (cfg # cfgs) k s =
     (let hc = lookup_zero [] (store s) k in
      bind_sum (case lookup_zero None hc cfg of Some ch \<Rightarrow> close_chan ch s | None \<Rightarrow> Inr s)
        (\<lambda>s. clean_host cfgs k (s\<lparr>store := AList.update k (AList.delete cfg hc) (store s)\<rparr>)))"

fun clean_hosts :: "(string \<Rightarrow> nat list) \<Rightarrow> string list \<Rightarrow> FSMStore \<Rightarrow> gopanic + FSMStore" where
  "clean_hosts ord [] s = Inr s"
| "clean_hosts ord (k # ks) s =
     bind_sum (clean_host (keys (ord k) (lookup_zero [] (store s) k)) k s)
       (\<lambda>s. clean_hosts ord ks (s\<lparr>store := AList.delete k (store s)\<rparr>))"

definition FSMStore_clean :: "nat list \<Rightarrow> (string \<Rightarrow> nat list) \<Rightarrow> FSMStore \<Rightarrow> gopanic + FSMStore" where
  "FSMStore_clean hord ord s = clean_hosts ord (range_keys hord (store s)) s"

definition FSMStore_DistributionStatistic :: "nat list \<Rightarrow> FSMStore \<Rightarrow> (string \<times> string) list" where
  "FSMStore_DistributionStatistic hord s =
     map (\<lambda>k. (k, Itoa (int (length (lookup_zero [] (store s) k))))) (range_keys hord (store s))"

text \<open>\<open>Replace\<close>: clean, then a fresh channel for every cell of \<open>newStore\<close>.\<close>

fun replace_host :: "string list \<Rightarrow> string \<Rightarrow> FSMStore \<Rightarrow> gopanic + FSMStore" where
  "replace_host [] k s = Inr s"
| "replace_host (cfg # cfgs) k s =
     (let s1 = (case map_of (store s) k of
                  None \<Rightarrow> s\<lparr>store := AList.update k [] (store s)\<rparr> | Some _ \<Rightarrow> s);
          (s2, ch) = make_chan s1
      in bind_sum (set_cell k cfg (Some ch) s2) (replace_host cfgs k))"

fun replace_hosts :: "(string \<times> string list) list \<Rightarrow> FSMStore \<Rightarrow> gopanic + FSMStore" where
  "replace_hosts [] s = Inr s"
| "replace_hosts ((k, cfgs) # ks) s = bind_sum (replace_host cfgs k s) (replace_hosts ks)"

definition FSMStore_Replace :: "nat list \<Rightarrow> (string \<Rightarrow> nat list) \<Rightarrow>
    (string, (string, nat option) gomap) gomap \<Rightarrow> FSMStore \<Rightarrow> gopanic + FSMStore" where
  "FSMStore_Replace hord ord newStore s =
     bind_sum (FSMStore_clean hord ord s)
       (replace_hosts (map (\<lambda>k. (k, keys (ord k) (lookup_zero [] newStore k)))
          (range_keys hord newStore)))"

section \<open>Observations\<close>

text \<open>
  \<open>cell s h c\<close> is the content of \<open>s.store[h][c]\<close>, if present; \<open>assigned\<close> the set of
  assignments; \<open>live\<close> the channels the table holds.
\<close>

definition cell :: "FSMStore \<Rightarrow> string \<Rightarrow> string \<Rightarrow> nat option option" where
  "cell s h c = (case map_of (store s) h of None \<Rightarrow> None | Some hc \<Rightarrow> map_of hc c)"

definition assigned :: "FSMStore \<Rightarrow> (string \<times> string) set" where
  "assigned s = {(h, c). cell s h c \<noteq> None}"

definition live :: "FSMStore \<Rightarrow> (string \<times> string \<times> nat) set" where
  "live s = {(h, c, ch). cell s h c = Some (Some ch)}"

text \<open>The maps of the table are maps; its channels are non-nil, open, and used once.\<close>

definition maps_ok :: "FSMStore \<Rightarrow> bool" where
  "maps_ok s \<longleftrightarrow> go_map (store s) \<and> (\<forall>h hc. map_of (store s) h = Some hc \<longrightarrow> go_map hc)"

definition cells_ok :: "(string \<Rightarrow> string \<Rightarrow> nat option option) \<Rightarrow> nat \<Rightarrow> nat set \<Rightarrow> bool" where
  "cells_ok f nx cl \<longleftrightarrow>
     (\<forall>h c. f h c \<noteq> Some None) \<and>
     (\<forall>h c ch. f h c = Some (Some ch) \<longrightarrow> ch < nx \<and> ch \<notin> cl \<and>
        (\<forall>h' c'. f h' c' = Some (Some ch) \<longrightarrow> h' = h \<and> c' = c)) \<and>
     (\<forall>ch\<in>cl. ch < nx)"

definition store_inv :: "FSMStore \<Rightarrow> bool" where
  "store_inv s \<longleftrightarrow> maps_ok s \<and> cells_ok (cell s) (next_ch s) (closed_chs s)"

lemma maps_okD: "maps_ok s \<Longrightarrow> go_map (store s)" "maps_ok s \<Longrightarrow> map_of (store s) h = Some hc \<Longrightarrow> go_map hc"
  by (auto simp: maps_ok_def)

lemma store_invD:
  assumes "store_inv s"
  shows "maps_ok s"
    and "cell s h c \<noteq> Some None"
    and "cell s h c = Some (Some ch) \<Longrightarrow> ch < next_ch s"
    and "cell s h c = Some (Some ch) \<Longrightarrow> ch \<notin> closed_chs s"
    and "cell s h c = Some (Some ch) \<Longrightarrow> cell s h' c' = Some (Some ch) \<Longrightarrow> h' = h \<and> c' = c"
    and "ch \<in> closed_chs s \<Longrightarrow> ch < next_ch s"
  using assms unfolding store_inv_def cells_ok_def by blast+

lemma cell_exhaust:
  assumes "store_inv s"
  obtains (free) "cell s h c = None" | (used) ch where "cell s h c = Some (Some ch)"
  using store_invD(2) [OF assms, of h c] by (cases "cell s h c") auto

lemma mem_assigned [simp]: "(h, c) \<in> assigned s \<longleftrightarrow> cell s h c \<noteq> None"
  by (simp add: assigned_def)

lemma mem_live [simp]: "(h, c, ch) \<in> live s \<longleftrightarrow> cell s h c = Some (Some ch)"
  by (simp add: live_def)

lemma cells_ok_put:
  assumes ok: "cells_ok f nx cl"
    and cl': "cl' = cl \<union> {ch. f h c = Some (Some ch)}"
  shows "cells_ok (f(h := (f h)(c \<mapsto> Some nx))) (Suc nx) cl'"
proof -
  have new: "f h' c' \<noteq> Some (Some nx)" for h' c'
    using ok unfolding cells_ok_def by blast
  have "ch \<in> cl' \<Longrightarrow> ch < nx" for ch
    using ok cl' unfolding cells_ok_def by blast
  then show ?thesis
    using ok new cl' unfolding cells_ok_def by (auto simp: less_Suc_eq)
qed

lemma cells_ok_remove:
  assumes "cells_ok f nx cl"
    and cl': "cl' = cl \<union> {ch. f h c = Some (Some ch)}"
  shows "cells_ok (f(h := (f h)(c := None))) nx cl'"
  using assms unfolding cells_ok_def by auto

section \<open>Effect of each operation\<close>

subsection \<open>List and Dump\<close>

lemma set_FSMStore_List [simp]: "set (FSMStore_List ord h s) = {c. (h, c) \<in> assigned s}"
proof (cases "map_of (store s) h")
  case (Some hc)
  then have "set (FSMStore_List ord h s) = dom (map_of hc)"
    by (simp add: FSMStore_List_def keys_def)
  then show ?thesis using Some by (simp add: cell_def dom_def)
qed (simp add: FSMStore_List_def cell_def)

lemma distinct_FSMStore_List: "maps_ok s \<Longrightarrow> distinct (FSMStore_List ord h s)"
  by (auto simp: FSMStore_List_def keys_def dest: maps_okD split: option.splits)

lemma map_of_Dump:
  "map_of (FSMStore_Dump ord s) h = map_option (keys (ord h)) (map_of (store s) h)"
proof -
  have "map_of (map (\<lambda>(k, hc). (k, keys (ord k) hc)) m) h = map_option (keys (ord h)) (map_of m h)" for m
    by (induction m) auto
  then show ?thesis by (simp add: FSMStore_Dump_def)
qed

lemma go_map_Dump: "maps_ok s \<Longrightarrow> go_map (FSMStore_Dump ord s)"
  by (auto simp: FSMStore_Dump_def maps_ok_def go_map_def case_prod_unfold comp_def)

subsection \<open>Put\<close>

text \<open>
  \<open>Put\<close> always succeeds, returns a channel never used before, closes the channel the cell
  held and touches no other cell.
\<close>

lemma Put_effect:
  assumes inv: "store_inv s"
  obtains s' where "FSMStore_Put h c s = Inr (s', next_ch s)"
    and "cell s' = (cell s)(h := (cell s h)(c \<mapsto> Some (next_ch s)))"
    and "next_ch s' = Suc (next_ch s)"
    and "closed_chs s' = closed_chs s \<union> {ch. cell s h c = Some (Some ch)}"
    and "maps_ok s'"
proof (cases "map_of (store s) h")
  case None
  let ?s' = "s\<lparr>store := AList.update h (AList.update c (Some (next_ch s)) []) (AList.update h [] (store s)),
               next_ch := Suc (next_ch s)\<rparr>"
  have "FSMStore_Put h c s = Inr (?s', next_ch s)"
    using None by (simp add: FSMStore_Put_def make_chan_def set_cell_def)
  moreover have "cell ?s' = (cell s)(h := (cell s h)(c \<mapsto> Some (next_ch s)))"
    using None by (auto simp: cell_def fun_eq_iff)
  moreover have "maps_ok ?s'"
    using store_invD(1) [OF inv] by (auto simp: maps_ok_def)
  moreover have "{ch. cell s h c = Some (Some ch)} = {}" using None by (simp add: cell_def)
  ultimately show ?thesis using that by simp
next
  case (Some hc)
  let ?cl = "closed_chs s \<union> {ch. cell s h c = Some (Some ch)}"
  let ?s' = "s\<lparr>store := AList.update h (AList.update c (Some (next_ch s)) hc) (store s),
               next_ch := Suc (next_ch s), closed_chs := ?cl\<rparr>"
  have hc: "cell s h c = map_of hc c" using Some by (simp add: cell_def)
  have "FSMStore_Put h c s = Inr (?s', next_ch s)"
    using inv
  proof (cases rule: cell_exhaust [of s h c])
    case free
    then show ?thesis
      using Some hc by (simp add: FSMStore_Put_def make_chan_def set_cell_def lookup_zero_def)
  next
    case (used ch)
    then have "ch \<notin> closed_chs s" using store_invD(4) [OF inv] by blast
    moreover have "map_of hc c = Some (Some ch)" using used hc by simp
    ultimately show ?thesis
      using Some used
      by (simp add: FSMStore_Put_def make_chan_def set_cell_def lookup_zero_def close_chan_def)
  qed
  moreover have "cell ?s' = (cell s)(h := (cell s h)(c \<mapsto> Some (next_ch s)))"
    using Some by (auto simp: cell_def fun_eq_iff)
  moreover have "maps_ok ?s'"
    using store_invD(1) [OF inv] Some by (auto simp: maps_ok_def)
  ultimately show ?thesis using that by simp
qed

lemma Put_inv:
  assumes "store_inv s" and "FSMStore_Put h c s = Inr (s', ch)"
  shows "store_inv s'"
proof -
  obtain s1 where s1: "FSMStore_Put h c s = Inr (s1, next_ch s)"
    "cell s1 = (cell s)(h := (cell s h)(c \<mapsto> Some (next_ch s)))" "next_ch s1 = Suc (next_ch s)"
    "closed_chs s1 = closed_chs s \<union> {ch. cell s h c = Some (Some ch)}" "maps_ok s1"
    by (rule Put_effect [OF assms(1)])
  then have "s' = s1" using assms(2) by simp
  with s1 cells_ok_put [of "cell s" "next_ch s" "closed_chs s" "closed_chs s1" h c] assms(1)
  show ?thesis by (simp add: store_inv_def)
qed

subsection \<open>Remove\<close>

lemma Remove_effect:
  assumes inv: "store_inv s"
  obtains s' where "FSMStore_Remove h c s = Inr s'"
    and "cell s' = (cell s)(h := (cell s h)(c := None))"
    and "next_ch s' = next_ch s"
    and "closed_chs s' = closed_chs s \<union> {ch. cell s h c = Some (Some ch)}"
    and "maps_ok s'"
  using inv
proof (cases rule: cell_exhaust [of s h c])
  case free
  then have "FSMStore_Remove h c s = Inr s"
    by (auto simp: FSMStore_Remove_def cell_def split: option.splits)
  with that [of s] store_invD(1) [OF inv] free show ?thesis by (simp add: fun_upd_idem)
next
  case (used ch)
  then obtain hc where hc: "map_of (store s) h = Some hc" "map_of hc c = Some (Some ch)"
    by (auto simp: cell_def split: option.splits)
  have "ch \<notin> closed_chs s" using store_invD(4) [OF inv] used by blast
  then have "FSMStore_Remove h c s = Inr (s\<lparr>closed_chs := insert ch (closed_chs s),
      store := AList.update h (AList.delete c hc) (store s)\<rparr>)"
    using hc by (simp add: FSMStore_Remove_def close_chan_def)
  with that show ?thesis
    using hc used store_invD(1) [OF inv] by (auto simp: cell_def fun_eq_iff maps_ok_def)
qed

lemma Remove_inv:
  assumes "store_inv s" and "FSMStore_Remove h c s = Inr s'"
  shows "store_inv s'"
proof -
  obtain s1 where s1: "FSMStore_Remove h c s = Inr s1"
    "cell s1 = (cell s)(h := (cell s h)(c := None))" "next_ch s1 = next_ch s"
    "closed_chs s1 = closed_chs s \<union> {ch. cell s h c = Some (Some ch)}" "maps_ok s1"
    by (rule Remove_effect [OF assms(1)])
  then have "s' = s1" using assms(2) by simp
  with s1 cells_ok_remove [of "cell s" "next_ch s" "closed_chs s" "closed_chs s1" h c] assms(1)
  show ?thesis by (simp add: store_inv_def)
qed

text \<open>The hosts the table knows about: \<open>Put\<close> may add one, \<open>Remove\<close> never drops one.\<close>

lemma Remove_hosts: "FSMStore_Remove h c s = Inr s' \<Longrightarrow> dom (map_of (store s')) = dom (map_of (store s))"
  by (auto simp: FSMStore_Remove_def bind_sum_Inr_iff close_chan_def split: option.splits if_splits)

subsection \<open>clean\<close>

text \<open>One round of the inner loop of \<open>clean\<close> does what \<open>Remove\<close> does.\<close>

lemma clean_host_Cons_Remove:
  assumes "cell s k cfg \<noteq> None"
  shows "clean_host (cfg # cfgs) k s = bind_sum (FSMStore_Remove k cfg s) (clean_host cfgs k)"
proof -
  obtain hc v where hc: "map_of (store s) k = Some hc" and v: "map_of hc cfg = Some v"
    using assms by (auto simp: cell_def split: option.splits)
  show ?thesis
    by (simp add: FSMStore_Remove_def hc v lookup_zero_def Let_def close_chan_def split: option.split)
qed

lemma clean_host_effect:
  assumes "store_inv s" and "distinct cfgs" and "\<forall>c\<in>set cfgs. cell s k c \<noteq> None"
  shows "\<exists>s'. clean_host cfgs k s = Inr s' \<and> store_inv s' \<and> next_ch s' = next_ch s \<and>
    cell s' = (cell s)(k := (\<lambda>c. if c \<in> set cfgs then None else cell s k c)) \<and>
    closed_chs s' = closed_chs s \<union> {ch. \<exists>c\<in>set cfgs. cell s k c = Some (Some ch)} \<and>
    dom (map_of (store s')) = dom (map_of (store s))"
  using assms
proof (induction cfgs arbitrary: s)
  case (Cons c cfgs)
  obtain s1 where s1: "FSMStore_Remove k c s = Inr s1"
    "cell s1 = (cell s)(k := (cell s k)(c := None))" "next_ch s1 = next_ch s"
    "closed_chs s1 = closed_chs s \<union> {ch. cell s k c = Some (Some ch)}" "maps_ok s1"
    by (rule Remove_effect [OF Cons.prems(1)])
  have "store_inv s1" using Remove_inv Cons.prems(1) s1(1) .
  moreover have "\<forall>c'\<in>set cfgs. cell s1 k c' \<noteq> None"
    using Cons.prems(2,3) s1(2) by auto
  moreover have "distinct cfgs" using Cons.prems(2) by simp
  ultimately obtain s' where s': "clean_host cfgs k s1 = Inr s'" "store_inv s'" "next_ch s' = next_ch s1"
    "cell s' = (cell s1)(k := (\<lambda>c. if c \<in> set cfgs then None else cell s1 k c))"
    "closed_chs s' = closed_chs s1 \<union> {ch. \<exists>c\<in>set cfgs. cell s1 k c = Some (Some ch)}"
    "dom (map_of (store s')) = dom (map_of (store s1))"
    using Cons.IH [of s1] by blast
  have "clean_host (c # cfgs) k s = Inr s'"
    using clean_host_Cons_Remove [of s k c cfgs] Cons.prems(3) s1(1) s'(1) by simp
  moreover have "cell s' = (cell s)(k := (\<lambda>c'. if c' \<in> set (c # cfgs) then None else cell s k c'))"
    using s'(4) s1(2) by (simp add: fun_eq_iff)
  moreover have "c' \<in> set cfgs \<Longrightarrow> cell s1 k c' = cell s k c'" for c'
    using s1(2) Cons.prems(2) by auto
  then have "closed_chs s' = closed_chs s \<union> {ch. \<exists>c'\<in>set (c # cfgs). cell s k c' = Some (Some ch)}"
    using s'(5) s1(4) by auto
  moreover have "dom (map_of (store s')) = dom (map_of (store s))"
    using s'(6) Remove_hosts [OF s1(1)] by simp
  ultimately show ?case using s'(2,3) s1(3) by (intro exI [of _ s']) simp
qed auto

lemma delete_empty_host:
  assumes "store_inv s" and "\<And>c. cell s k c = None"
  shows "store_inv (s\<lparr>store := AList.delete k (store s)\<rparr>)"
    and "cell (s\<lparr>store := AList.delete k (store s)\<rparr>) = cell s"
proof -
  show c: "cell (s\<lparr>store := AList.delete k (store s)\<rparr>) = cell s"
  proof (intro ext)
    fix h c'
    show "cell (s\<lparr>store := AList.delete k (store s)\<rparr>) h c' = cell s h c'"
      using assms(2) [of c'] by (cases "h = k") (simp_all add: cell_def)
  qed
  have "maps_ok (s\<lparr>store := AList.delete k (store s)\<rparr>)"
    using store_invD(1) [OF assms(1)] by (auto simp: maps_ok_def)
  then show "store_inv (s\<lparr>store := AList.delete k (store s)\<rparr>)"
    using assms(1) c by (simp add: store_inv_def)
qed

lemma clean_hosts_effect:
  assumes "store_inv s" and "distinct ks" and "set ks = dom (map_of (store s))"
  shows "\<exists>s'. clean_hosts ord ks s = Inr s' \<and> store s' = [] \<and> store_inv s' \<and>
    next_ch s' = next_ch s \<and>
    closed_chs s' = closed_chs s \<union> {ch. \<exists>h c. cell s h c = Some (Some ch)}"
  using assms
proof (induction ks arbitrary: s)
  case Nil
  then have "store s = []" by (cases "store s") auto
  with Nil show ?case by (auto simp: cell_def)
next
  case (Cons k ks)
  let ?cfgs = "keys (ord k) (lookup_zero [] (store s) k)"
  obtain hc where hc: "map_of (store s) k = Some hc" using Cons.prems(3) by auto
  have cfgs: "set ?cfgs = {c. cell s k c \<noteq> None}" and "distinct ?cfgs"
    using hc maps_okD(2) [OF store_invD(1) [OF Cons.prems(1)] hc]
    by (auto simp: keys_def lookup_zero_def cell_def dom_def)
  with clean_host_effect [OF Cons.prems(1), of ?cfgs k] obtain s1 where
    s1: "clean_host ?cfgs k s = Inr s1" "store_inv s1" "next_ch s1 = next_ch s"
      "cell s1 = (cell s)(k := (\<lambda>c. if c \<in> set ?cfgs then None else cell s k c))"
      "closed_chs s1 = closed_chs s \<union> {ch. \<exists>c\<in>set ?cfgs. cell s k c = Some (Some ch)}"
      "dom (map_of (store s1)) = dom (map_of (store s))"
    by auto
  have k0: "cell s1 k c = None" for c using s1(4) cfgs by auto
  let ?s2 = "s1\<lparr>store := AList.delete k (store s1)\<rparr>"
  have s2: "store_inv ?s2" "cell ?s2 = cell s1" using delete_empty_host [OF s1(2) k0] by auto
  have "set ks = dom (map_of (store ?s2))" using Cons.prems(2,3) s1(6) by auto
  moreover have "distinct ks" using Cons.prems(2) by simp
  ultimately obtain s' where s': "clean_hosts ord ks ?s2 = Inr s'" "store s' = []" "store_inv s'"
    "next_ch s' = next_ch ?s2"
    "closed_chs s' = closed_chs ?s2 \<union> {ch. \<exists>h c. cell ?s2 h c = Some (Some ch)}"
    using Cons.IH [OF s2(1)] by blast
  have "clean_hosts ord (k # ks) s = Inr s'" using s1(1) s'(1) by simp
  moreover have "closed_chs s' = closed_chs s \<union> {ch. \<exists>h c. cell s h c = Some (Some ch)}"
  proof -
    have 1: "cell s1 h c = Some (Some ch) \<longleftrightarrow> h \<noteq> k \<and> cell s h c = Some (Some ch)" for h c ch
      using s1(4) k0 [of c] by (cases "h = k") simp_all
    have 2: "c \<in> set ?cfgs \<and> cell s k c = Some (Some ch) \<longleftrightarrow> cell s k c = Some (Some ch)" for c ch
      using cfgs by auto
    have "closed_chs s' = closed_chs s \<union> {ch. \<exists>c. cell s k c = Some (Some ch)} \<union>
        {ch. \<exists>h c. h \<noteq> k \<and> cell s h c = Some (Some ch)}"
      using s'(5) s1(5) by (simp add: s2(2) 1 2 Bex_def)
    moreover have "(\<exists>h c. cell s h c = Some (Some ch)) \<longleftrightarrow>
        (\<exists>c. cell s k c = Some (Some ch)) \<or> (\<exists>h c. h \<noteq> k \<and> cell s h c = Some (Some ch))" for ch
      by metis
    ultimately show ?thesis by (simp add: Un_assoc Collect_disj_eq)
  qed
  ultimately show ?case using s'(2,3,4) s1(3) by (intro exI [of _ s']) simp
qed

lemma clean_effect:
  assumes "store_inv s"
  obtains s' where "FSMStore_clean hord ord s = Inr s'" and "store s' = []" and "store_inv s'"
    and "next_ch s' = next_ch s"
    and "closed_chs s' = closed_chs s \<union> {ch. \<exists>h c. cell s h c = Some (Some ch)}"
  using clean_hosts_effect [OF assms, of "range_keys hord (store s)" ord]
    store_invD(1) [OF assms] maps_okD(1) that
  by (auto simp: FSMStore_clean_def)

subsection \<open>The effect on assignments\<close>

lemma Put_assigned:
  assumes "store_inv s"
  shows "\<exists>s'. FSMStore_Put h c s = Inr (s', next_ch s) \<and> store_inv s' \<and>
    assigned s' = insert (h, c) (assigned s)"
proof -
  obtain s' where s': "FSMStore_Put h c s = Inr (s', next_ch s)"
    "cell s' = (cell s)(h := (cell s h)(c \<mapsto> Some (next_ch s)))"
    by (rule Put_effect [OF assms])
  with Put_inv [OF assms s'(1)] show ?thesis by (auto simp: assigned_def split: if_splits)
qed

lemma Remove_assigned:
  assumes "store_inv s"
  shows "\<exists>s'. FSMStore_Remove h c s = Inr s' \<and> store_inv s' \<and> assigned s' = assigned s - {(h, c)}"
proof -
  obtain s' where s': "FSMStore_Remove h c s = Inr s'" "cell s' = (cell s)(h := (cell s h)(c := None))"
    by (rule Remove_effect [OF assms])
  with Remove_inv [OF assms s'(1)] show ?thesis by (auto simp: assigned_def split: if_splits)
qed

lemma NewFSMStore_inv: "store_inv NewFSMStore"
  by (simp add: store_inv_def NewFSMStore_def maps_ok_def cells_ok_def cell_def)

lemma NewFSMStore_assigned [simp]: "assigned NewFSMStore = {}"
  by (simp add: NewFSMStore_def assigned_def cell_def)

subsection \<open>Replace\<close>

text \<open>On a free cell one round of \<open>Replace\<close>'s loop is a \<open>Put\<close>.\<close>

lemma replace_host_Cons_Put:
  assumes "cell s k cfg = None"
  shows "replace_host (cfg # cfgs) k s = bind_sum (FSMStore_Put k cfg s) (\<lambda>(s, ch). replace_host cfgs k s)"
  using assms
  by (auto simp: FSMStore_Put_def make_chan_def set_cell_def cell_def lookup_zero_def split: option.splits)

lemma replace_host_assigned:
  assumes "store_inv s" and "distinct cfgs" and "\<forall>c\<in>set cfgs. (k, c) \<notin> assigned s"
  shows "\<exists>s'. replace_host cfgs k s = Inr s' \<and> store_inv s' \<and> assigned s' = assigned s \<union> {k} \<times> set cfgs"
  using assms
proof (induction cfgs arbitrary: s)
  case (Cons c cfgs)
  obtain s1 where s1: "FSMStore_Put k c s = Inr (s1, next_ch s)" "store_inv s1"
    "assigned s1 = insert (k, c) (assigned s)"
    using Put_assigned [OF Cons.prems(1)] by blast
  have "distinct cfgs" "\<forall>c'\<in>set cfgs. (k, c') \<notin> assigned s1"
    using Cons.prems(2,3) by (auto simp only: s1(3) insert_iff prod.inject set_simps distinct.simps)
  then obtain s' where s': "replace_host cfgs k s1 = Inr s'" "store_inv s'"
    "assigned s' = assigned s1 \<union> {k} \<times> set cfgs"
    using Cons.IH [OF s1(2)] by blast
  have "replace_host (c # cfgs) k s = Inr s'"
    using replace_host_Cons_Put [of s k c cfgs] Cons.prems(3) s1(1) s'(1) by simp
  moreover have "assigned s' = assigned s \<union> {k} \<times> set (c # cfgs)"
    unfolding s'(3) s1(3) by auto
  ultimately show ?case using s'(2) by blast
qed simp

lemma replace_hosts_assigned:
  assumes "store_inv s" and "distinct (map fst kcs)"
    and "\<forall>(k, cfgs)\<in>set kcs. distinct cfgs \<and> (\<forall>c. (k, c) \<notin> assigned s)"
  shows "\<exists>s'. replace_hosts kcs s = Inr s' \<and> store_inv s' \<and>
    assigned s' = assigned s \<union> {(k, c). \<exists>cfgs. (k, cfgs) \<in> set kcs \<and> c \<in> set cfgs}"
  using assms
proof (induction kcs arbitrary: s)
  case (Cons kc kcs)
  obtain k cfgs where kc: "kc = (k, cfgs)" by fastforce
  obtain s1 where s1: "replace_host cfgs k s = Inr s1" "store_inv s1"
    "assigned s1 = assigned s \<union> {k} \<times> set cfgs"
    using replace_host_assigned [OF Cons.prems(1), of cfgs k] Cons.prems(3) kc by auto
  have "\<forall>(k', cfgs')\<in>set kcs. distinct cfgs' \<and> (\<forall>c. (k', c) \<notin> assigned s1)"
    using Cons.prems(2,3) kc unfolding s1(3) by (force simp: image_iff)
  then obtain s' where "replace_hosts kcs s1 = Inr s'" "store_inv s'"
    "assigned s' = assigned s1 \<union> {(k, c). \<exists>cfgs. (k, cfgs) \<in> set kcs \<and> c \<in> set cfgs}"
    using Cons.IH [OF s1(2)] Cons.prems(2) by auto
  with s1 kc show ?case by auto
qed simp

lemma Replace_assigned:
  assumes "store_inv s" and "go_map new" and "\<forall>k hc. map_of new k = Some hc \<longrightarrow> go_map hc"
  shows "\<exists>s'. FSMStore_Replace hord ord new s = Inr s' \<and> store_inv s' \<and>
    assigned s' = {(k, c). \<exists>hc. map_of new k = Some hc \<and> map_of hc c \<noteq> None}"
proof -
  let ?kcs = "map (\<lambda>k. (k, keys (ord k) (lookup_zero [] new k))) (range_keys hord new)"
  obtain s1 where s1: "FSMStore_clean hord ord s = Inr s1" "store s1 = []" "store_inv s1"
    by (rule clean_effect [OF assms(1)])
  have e: "assigned s1 = {}" using s1(2) by (simp add: assigned_def cell_def)
  have "distinct (map fst ?kcs)" using assms(2) by (simp add: comp_def)
  moreover have "\<forall>(k, cfgs)\<in>set ?kcs. distinct cfgs \<and> (\<forall>c. (k, c) \<notin> assigned s1)"
    unfolding e using assms(3) by (auto simp: keys_def lookup_zero_def)
  ultimately obtain s' where s': "replace_hosts ?kcs s1 = Inr s'" "store_inv s'"
    "assigned s' = assigned s1 \<union> {(k, c). \<exists>cfgs. (k, cfgs) \<in> set ?kcs \<and> c \<in> set cfgs}"
    using replace_hosts_assigned [OF s1(3), of ?kcs] by blast
  have "(\<exists>cfgs. (k, cfgs) \<in> set ?kcs \<and> c \<in> set cfgs) \<longleftrightarrow>
      (\<exists>hc. map_of new k = Some hc \<and> map_of hc c \<noteq> None)" for k c
    by (auto simp: keys_def lookup_zero_def image_iff Bex_def dom_def)
  then have "assigned s' = {(k, c). \<exists>hc. map_of new k = Some hc \<and> map_of hc c \<noteq> None}"
    unfolding s'(3) e by simp
  with s' s1(1) show ?thesis by (auto simp: FSMStore_Replace_def)
qed

section \<open>The interface of the store\<close>

text \<open>
  What the clients of the store (the FSM and, through it, the scheduler) rely on: the list of
  a host is the set of its assignments without repetition, \<open>Put\<close> and \<open>Remove\<close> return
  without panic and add or delete exactly one assignment.
\<close>

locale config_store =
  fixes inv :: "'s \<Rightarrow> bool"
    and asg :: "'s \<Rightarrow> (string \<times> string) set"
    and list :: "nat list \<Rightarrow> string \<Rightarrow> 's \<Rightarrow> string list"
    and put :: "string \<Rightarrow> string \<Rightarrow> 's \<Rightarrow> gopanic + 's \<times> nat"
    and remove :: "string \<Rightarrow> string \<Rightarrow> 's \<Rightarrow> gopanic + 's"
  assumes list_set: "set (list ord h s) = {c. (h, c) \<in> asg s}"
    and list_distinct: "inv s \<Longrightarrow> distinct (list ord h s)"
    and put_ok: "inv s \<Longrightarrow> \<exists>s' ch. put h c s = Inr (s', ch) \<and> inv s' \<and> asg s' = insert (h, c) (asg s)"
    and remove_ok: "inv s \<Longrightarrow> \<exists>s'. remove h c s = Inr s' \<and> inv s' \<and> asg s' = asg s - {(h, c)}"
begin

lemma list_length: "inv s \<Longrightarrow> length (list ord h s) = card {c. (h, c) \<in> asg s}"
  using list_set list_distinct distinct_card by metis

lemma put_then_listed: "inv s \<Longrightarrow> put h c s = Inr (s', ch) \<Longrightarrow> c \<in> set (list ord h s')"
  using put_ok [of s h c] by (auto simp: list_set)

lemma remove_then_unlisted: "inv s \<Longrightarrow> remove h c s = Inr s' \<Longrightarrow> c \<notin> set (list ord h s')"
  using remove_ok [of s h c] by (auto simp: list_set)

lemma put_other_hosts:
  "inv s \<Longrightarrow> put h c s = Inr (s', ch) \<Longrightarrow> h' \<noteq> h \<Longrightarrow> set (list ord h' s') = set (list ord' h' s)"
  using put_ok [of s h c] by (auto simp: list_set)

end

interpretation fsm_store: config_store store_inv assigned FSMStore_List FSMStore_Put FSMStore_Remove
proof unfold_locales
  show "store_inv s \<Longrightarrow> distinct (FSMStore_List ord h s)" for ord h s
    by (rule distinct_FSMStore_List [OF store_invD(1)])
  show "store_inv s \<Longrightarrow> \<exists>s' ch. FSMStore_Put h c s = Inr (s', ch) \<and> store_inv s' \<and>
      assigned s' = insert (h, c) (assigned s)" for s h c
    using Put_assigned by blast
qed (simp, rule Remove_assigned)

end
