(* ===== verification/GoJson.thy ===== *)
theory GoJson
  imports GoStrings
begin

text \<open>
  JSON at the level of values: what \<open>encoding/json\<close> reads from a byte string is either
  nothing (the bytes are not JSON) or one \<open>json\<close> value. Decoding into a Go type follows
  the package: object members are visited in order, a later duplicate wins, \<open>null\<close> leaves
  the target unchanged, an unknown member is skipped, and a member of the wrong kind makes the
  decoder return an error after it has gone through the rest of the object.
\<close>

datatype json =
    JNull
  | JBool bool
  | JNum string
  | JStr string
  | JArr "json list"
  | JObj "(string \<times> json) list"

datatype json_error = SyntaxError | UnmarshalTypeError

text \<open>
  A struct member is matched by its name, ASCII letter case aside (an exact match is preferred;
  the structs decoded here have no two members that differ in case only).
\<close>

definition json_key_matches :: "string \<Rightarrow> string \<Rightarrow> bool" where
  "json_key_matches name key \<longleftrightarrow> ToLower name = ToLower key"

text \<open>Decoding a list of strings, and a map from strings to lists of strings.\<close>

fun decode_string :: "json \<Rightarrow> json_error + string" where
  "decode_string (JStr s) = Inr s"
| "decode_string JNull = Inr []"
| "decode_string _ = Inl UnmarshalTypeError"

fun decode_all :: "('a \<Rightarrow> 'e + 'b) \<Rightarrow> 'a list \<Rightarrow> 'e + 'b list" where
  "decode_all f [] = Inr []"
| "decode_all f (x # xs) =
     (case f x of Inl e \<Rightarrow> Inl e
      | Inr y \<Rightarrow> (case decode_all f xs of Inl e \<Rightarrow> Inl e | Inr ys \<Rightarrow> Inr (y # ys)))"

fun decode_strings :: "json \<Rightarrow> json_error + string list" where
  "decode_strings (JArr xs) = decode_all decode_string xs"
| "decode_strings JNull = Inr []"
| "decode_strings _ = Inl UnmarshalTypeError"

fun decode_members :: "(json \<Rightarrow> json_error + 'v) \<Rightarrow> (string \<times> json) list \<Rightarrow>
    (string, 'v) gomap \<Rightarrow> json_error + (string, 'v) gomap" where
  "decode_members f [] m = Inr m"
| "decode_members f ((k, v) # kvs) m =
     (case f v of Inl e \<Rightarrow> Inl e | Inr x \<Rightarrow> decode_members f kvs (AList.update k x m))"

definition decode_map :: "(json \<Rightarrow> json_error + 'v) \<Rightarrow> json \<Rightarrow> json_error + (string, 'v) gomap" where
  "decode_map f j =
     (case j of JObj kvs \<Rightarrow> decode_members f kvs []
      | JNull \<Rightarrow> Inr []
      | _ \<Rightarrow> Inl UnmarshalTypeError)"

definition encode_strings :: "string list \<Rightarrow> json" where
  "encode_strings xs = JArr (map JStr xs)"

definition encode_map :: "('v \<Rightarrow> json) \<Rightarrow> (string, 'v) gomap \<Rightarrow> json" where
  "encode_map f m = JObj (map (\<lambda>(k, v). (k, f v)) m)"

lemma decode_all_JStr [simp]: "decode_all decode_string (map JStr xs) = Inr xs"
  by (induction xs) auto

lemma decode_encode_strings [simp]: "decode_strings (encode_strings xs) = Inr xs"
  by (simp add: encode_strings_def)

lemma update_new_key: "k \<notin> fst ` set m \<Longrightarrow> AList.update k v m = m @ [(k, v)]"
  by (induction m) auto

lemma decode_members_encode:
  assumes "\<And>v. f (g v) = Inr v"
  shows "distinct (map fst (acc @ m)) \<Longrightarrow>
    decode_members f (map (\<lambda>(k, v). (k, g v)) m) acc = Inr (acc @ m)"
proof (induction m arbitrary: acc)
  case (Cons kv m)
  obtain k v where kv: "kv = (k, v)" by fastforce
  then have "k \<notin> fst ` set acc" using Cons.prems by auto
  then show ?case using Cons.IH [of "acc @ [kv]"] Cons.prems kv assms by (simp add: update_new_key)
qed simp

text \<open>Encoding a map and decoding it again gives the map back.\<close>

lemma decode_encode_map:
  "go_map m \<Longrightarrow> (\<And>v. f (g v) = Inr v) \<Longrightarrow> decode_map f (encode_map g m) = Inr m"
  using decode_members_encode [of f g "[]" m]
  by (simp add: decode_map_def encode_map_def go_map_def)

lemma decode_members_go_map:
  "go_map m \<Longrightarrow> decode_members f kvs m = Inr m' \<Longrightarrow> go_map m'"
  by (induction f kvs m rule: decode_members.induct) (auto split: sum.splits)

lemma decode_map_go_map: "decode_map f j = Inr m \<Longrightarrow> go_map m"
  by (auto simp: decode_map_def split: json.splits dest: decode_members_go_map [rotated])

end
