(* ===== verification/FSM.thy ===== *)
theory FSM
  imports FSMStore GoJson "HOL-Library.List_Lexorder"
begin

text \<open>
  \<open>combainer/fsm.go\<close>: the replicated state machine. A committed raft log entry carries
  the JSON of an \<open>FSMCommand\<close>; \<open>FSM_Apply\<close> decodes it and changes the store, starting a
  \<open>handleTask\<close> goroutine for a config assigned to this node. \<open>FSM_Snapshot\<close> and
  \<open>FSM_Restore\<close> carry the table over to another node.

  The state of one replica is the name of the node, its store, and the list of the
  \<open>handleTask\<close> goroutines it has started, each with the stop channel it watches. A task whose
  channel is not closed is running. The lemmas show that no command can panic, that a replica
  runs exactly one task for every config assigned to it (\<open>fsm_inv\<close>), and that the table
  refines a plain set of assignments (\<open>spec_apply\<close>).
\<close>

section \<open>Commands\<close>

definition cmdAssignConfig :: string where "cmdAssignConfig = ''AssignConfig''"
definition cmdRemoveConfig :: string where "cmdRemoveConfig = ''RemoveConfig''"

record FSMCommand =
  cmd_Type :: string
  cmd_Host :: string
  cmd_Config :: string

definition zero_command :: FSMCommand where
  "zero_command = \<lparr>cmd_Type = [], cmd_Host = [], cmd_Config = []\<rparr>"

text \<open>\<open>json.Marshal\<close> and \<open>json.Unmarshal\<close> of the struct, by its field tags.\<close>

definition marshal_command :: "FSMCommand \<Rightarrow> json" where
  "marshal_command cmd =
     JObj [(''type'', JStr (cmd_Type cmd)), (''host'', JStr (cmd_Host cmd)),
           (''config'', JStr (cmd_Config cmd))]"

definition set_member :: "string \<Rightarrow> string \<Rightarrow> FSMCommand \<Rightarrow> FSMCommand" where
  "set_member key s cmd =
     (if json_key_matches ''type'' key then cmd\<lparr>cmd_Type := s\<rparr>
      else if json_key_matches ''host'' key then cmd\<lparr>cmd_Host := s\<rparr>
      else if json_key_matches ''config'' key then cmd\<lparr>cmd_Config := s\<rparr>
      else cmd)"

definition known_member :: "string \<Rightarrow> bool" where
  "known_member key \<longleftrightarrow> json_key_matches ''type'' key \<or> json_key_matches ''host'' key \<or>
     json_key_matches ''config'' key"

fun unmarshal_members :: "(string \<times> json) list \<Rightarrow> FSMCommand \<Rightarrow> json_error + FSMCommand" where
  "unmarshal_members [] cmd = Inr cmd"
| "unmarshal_members ((k, v) # kvs) cmd =
     (if \<not> known_member k then unmarshal_members kvs cmd
      else case v of
        JStr s \<Rightarrow> unmarshal_members kvs (set_member k s cmd)
      | JNull \<Rightarrow> unmarshal_members kvs cmd
      | _ \<Rightarrow> Inl UnmarshalTypeError)"

definition unmarshal_command :: "json option \<Rightarrow> json_error + FSMCommand" where
  "unmarshal_command d =
     (case d of
        None \<Rightarrow> Inl SyntaxError
      | Some (JObj kvs) \<Rightarrow> unmarshal_members kvs zero_command
      | Some JNull \<Rightarrow> Inr zero_command
      | Some _ \<Rightarrow> Inl UnmarshalTypeError)"

section \<open>The replica\<close>

record FSM =
  Name :: string
  fstore :: FSMStore
  tasks :: "(string \<times> nat) list"

definition new_fsm :: "string \<Rightarrow> FSM" where
  "new_fsm name = \<lparr>Name = name, fstore = NewFSMStore, tasks = []\<rparr>"

text \<open>
  \<open>Apply\<close>. A command that does not decode is logged and ignored, as is one of an unknown
  type. \<open>Inl p\<close> is the outcome in which the deferred \<open>recover\<close> catches the panic \<open>p\<close>; the
  store's mutex would then stay locked. \<open>fsm_reachable_apply\<close> shows it does not happen.
\<close>

definition put_and_start :: "string \<Rightarrow> string \<Rightarrow> FSM \<Rightarrow> gopanic + FSM" where
  "put_and_start host config c =
     bind_sum (FSMStore_Put host config (fstore c)) (\<lambda>(s, stopCh).
       Inr (c\<lparr>fstore := s,
              tasks := (if host = Name c then tasks c @ [(config, stopCh)] else tasks c)\<rparr>))"

definition FSM_Apply :: "json option \<Rightarrow> FSM \<Rightarrow> gopanic + FSM" where
  "FSM_Apply data c =
     (case unmarshal_command data of
        Inl err \<Rightarrow> Inr c
      | Inr cmd \<Rightarrow>
          if cmd_Type cmd = cmdAssignConfig then put_and_start (cmd_Host cmd) (cmd_Config cmd) c
          else if cmd_Type cmd = cmdRemoveConfig then
            bind_sum (FSMStore_Remove (cmd_Host cmd) (cmd_Config cmd) (fstore c))
              (\<lambda>s. Inr (c\<lparr>fstore := s\<rparr>))
          else Inr c)"

text \<open>
  \<open>Snapshot\<close>: the dump of the store as a JSON object; \<open>json.Marshal\<close> writes the members of a
  map in ascending order of their keys.
\<close>

definition FSM_Snapshot :: "(string \<Rightarrow> nat list) \<Rightarrow> FSM \<Rightarrow> json" where
  "FSM_Snapshot ord c = encode_map encode_strings (sort_key fst (FSMStore_Dump ord (fstore c)))"

text \<open>\<open>Persist\<close>: the calls it makes on the snapshot sink, and its result.\<close>

datatype sink_call = SinkWrite json | SinkCancel | SinkClose

definition FSMSnapshot_Persist :: "(json \<Rightarrow> 'e option) \<Rightarrow> json \<Rightarrow> sink_call list \<times> 'e option" where
  "FSMSnapshot_Persist write data =
     (case write data of
        Some err \<Rightarrow> ([SinkWrite data, SinkCancel], Some err)
      | None \<Rightarrow> ([SinkWrite data, SinkClose], None))"

text \<open>
  \<open>Restore\<close>: decode the snapshot, empty the store, put every assignment back. \<open>hord\<close> is the
  order in which the decoded map is visited.
\<close>

fun restore_configs :: "string \<Rightarrow> string list \<Rightarrow> FSM \<Rightarrow> gopanic + FSM" where
  "restore_configs host [] c = Inr c"
| "restore_configs host (config # configs) c =
     bind_sum (put_and_start host config c) (restore_configs host configs)"

fun restore_hosts :: "(string, string list) gomap \<Rightarrow> string list \<Rightarrow> FSM \<Rightarrow> gopanic + FSM" where
  "restore_hosts m [] c = Inr c"
| "restore_hosts m (host # hosts) c =
     bind_sum (restore_configs host (lookup_zero [] m host) c) (restore_hosts m hosts)"

definition FSM_Restore :: "nat list \<Rightarrow> (string \<Rightarrow> nat list) \<Rightarrow> nat list \<Rightarrow> json option \<Rightarrow> FSM \<Rightarrow>
    gopanic + FSM \<times> json_error option" where
  "FSM_Restore cord ord hord rc c =
     (case (case rc of None \<Rightarrow> Inl SyntaxError | Some j \<Rightarrow> decode_map decode_strings j) of
        Inl err \<Rightarrow> Inr (c, Some err)
      | Inr newStore \<Rightarrow>
          bind_sum (FSMStore_clean cord ord (fstore c)) (\<lambda>s.
          bind_sum (restore_hosts newStore (range_keys hord newStore) (c\<lparr>fstore := s\<rparr>)) (\<lambda>c.
            Inr (c, None))))"

section \<open>Invariant\<close>

text \<open>
  The running tasks of a replica are those whose stop channel is open. They are exactly the
  configs assigned to this node, each with the channel the store keeps for it.
\<close>

definition running :: "FSM \<Rightarrow> (string \<times> nat) set" where
  "running c = {(cfg, ch). (cfg, ch) \<in> set (tasks c) \<and> ch \<notin> closed_chs (fstore c)}"

definition fsm_inv :: "FSM \<Rightarrow> bool" where
  "fsm_inv c \<longleftrightarrow> store_inv (fstore c) \<and> distinct (tasks c) \<and>
     (\<forall>(cfg, ch)\<in>set (tasks c). ch < next_ch (fstore c)) \<and>
     running c = {(cfg, ch). cell (fstore c) (Name c) cfg = Some (Some ch)}"

lemma fsm_invD:
  assumes "fsm_inv c"
  shows "store_inv (fstore c)"
    and "distinct (tasks c)"
    and "(cfg, ch) \<in> set (tasks c) \<Longrightarrow> ch < next_ch (fstore c)"
    and "(cfg, ch) \<in> set (tasks c) \<and> ch \<notin> closed_chs (fstore c) \<longleftrightarrow>
         cell (fstore c) (Name c) cfg = Some (Some ch)"
proof -
  show "(cfg, ch) \<in> set (tasks c) \<and> ch \<notin> closed_chs (fstore c) \<longleftrightarrow>
         cell (fstore c) (Name c) cfg = Some (Some ch)"
    using assms unfolding fsm_inv_def running_def set_eq_iff by fastforce
qed (use assms in \<open>auto simp: fsm_inv_def\<close>)

lemma new_fsm_inv: "fsm_inv (new_fsm name)"
  using NewFSMStore_inv
  by (simp add: fsm_inv_def new_fsm_def running_def) (simp add: NewFSMStore_def cell_def)

text \<open>Putting a config: the old task of the cell is stopped, a new one is started for it.\<close>

lemma put_and_start_inv:
  assumes inv: "fsm_inv c"
  shows "\<exists>c'. put_and_start h cfg c = Inr c' \<and> fsm_inv c' \<and> Name c' = Name c \<and>
    assigned (fstore c') = insert (h, cfg) (assigned (fstore c))"
proof -
  note si = fsm_invD(1) [OF inv]
  obtain s' where s': "FSMStore_Put h cfg (fstore c) = Inr (s', next_ch (fstore c))"
    "cell s' = (cell (fstore c))(h := (cell (fstore c) h)(cfg \<mapsto> Some (next_ch (fstore c))))"
    "next_ch s' = Suc (next_ch (fstore c))"
    "closed_chs s' = closed_chs (fstore c) \<union> {ch. cell (fstore c) h cfg = Some (Some ch)}"
    by (rule Put_effect [OF si])
  let ?ch = "next_ch (fstore c)"
  let ?c' = "c\<lparr>fstore := s', tasks := (if h = Name c then tasks c @ [(cfg, ?ch)] else tasks c)\<rparr>"
  have "put_and_start h cfg c = Inr ?c'" using s'(1) by (simp add: put_and_start_def)
  moreover have new: "(k, ?ch) \<notin> set (tasks c)" "?ch \<notin> closed_chs (fstore c)"
      "cell (fstore c) h' k \<noteq> Some (Some ?ch)" for h' k
    using fsm_invD(3) [OF inv] store_invD(3,6) [OF si] by blast+
  have "running ?c' = {(k, ch). cell s' (Name c) k = Some (Some ch)}"
  proof (intro set_eqI, clarify)
    fix k ch
    have old: "(k, ch) \<in> set (tasks c) \<and> ch \<notin> closed_chs (fstore c) \<longleftrightarrow>
        cell (fstore c) (Name c) k = Some (Some ch)"
      by (rule fsm_invD(4) [OF inv])
    have uniq: "cell (fstore c) h cfg = Some (Some ch) \<Longrightarrow>
        cell (fstore c) (Name c) k = Some (Some ch) \<Longrightarrow> Name c = h \<and> k = cfg"
      using store_invD(5) [OF si] by blast
    show "(k, ch) \<in> running ?c' \<longleftrightarrow> (k, ch) \<in> {(k, ch). cell s' (Name c) k = Some (Some ch)}"
      using old uniq new(1) [of k] new(2) new(3) [of h cfg] s'(2,4)
      by (auto simp: running_def split: if_splits)
  qed
  then have "fsm_inv ?c'"
    using fsm_invD(2) [OF inv] fsm_invD(3) [OF inv] new(1) [of cfg] Put_inv [OF si s'(1)] s'(3)
    by (auto simp: fsm_inv_def less_Suc_eq)
  moreover have "assigned s' = insert (h, cfg) (assigned (fstore c))"
    using s'(1) fsm_store.put_ok [OF si, of h cfg] by auto
  ultimately show ?thesis by auto
qed

lemma remove_inv:
  assumes inv: "fsm_inv c"
  shows "\<exists>s'. FSMStore_Remove h cfg (fstore c) = Inr s' \<and> fsm_inv (c\<lparr>fstore := s'\<rparr>) \<and>
    assigned s' = assigned (fstore c) - {(h, cfg)}"
proof -
  note si = fsm_invD(1) [OF inv]
  obtain s' where s': "FSMStore_Remove h cfg (fstore c) = Inr s'"
    "cell s' = (cell (fstore c))(h := (cell (fstore c) h)(cfg := None))"
    "next_ch s' = next_ch (fstore c)"
    "closed_chs s' = closed_chs (fstore c) \<union> {ch. cell (fstore c) h cfg = Some (Some ch)}"
    by (rule Remove_effect [OF si])
  let ?c' = "c\<lparr>fstore := s'\<rparr>"
  have "running ?c' = {(k, ch). cell s' (Name c) k = Some (Some ch)}"
  proof (intro set_eqI, clarify)
    fix k ch
    show "(k, ch) \<in> running ?c' \<longleftrightarrow> (k, ch) \<in> {(k, ch). cell s' (Name c) k = Some (Some ch)}"
      using fsm_invD(4) [OF inv, of k ch] store_invD(5) [OF si, of h cfg ch "Name c" k] s'(2,4)
      by (auto simp: running_def split: if_splits)
  qed
  then have "fsm_inv ?c'"
    using fsm_invD(2,3) [OF inv] Remove_inv [OF si s'(1)] s'(3) by (auto simp: fsm_inv_def)
  moreover have "assigned s' = assigned (fstore c) - {(h, cfg)}"
    using s'(1) fsm_store.remove_ok [OF si, of h cfg] by auto
  ultimately show ?thesis using s'(1) by blast
qed

section \<open>The abstract state machine\<close>

text \<open>
  What a replica promises: it is a set of assignments; an assign command adds one, a remove
  command deletes one, anything else changes nothing.
\<close>

definition spec_apply :: "json option \<Rightarrow> (string \<times> string) set \<Rightarrow> (string \<times> string) set" where
  "spec_apply data A =
     (case unmarshal_command data of
        Inl err \<Rightarrow> A
      | Inr cmd \<Rightarrow>
          if cmd_Type cmd = cmdAssignConfig then insert (cmd_Host cmd, cmd_Config cmd) A
          else if cmd_Type cmd = cmdRemoveConfig then A - {(cmd_Host cmd, cmd_Config cmd)}
          else A)"

lemma FSM_Apply_ok:
  assumes "fsm_inv c"
  shows "\<exists>c'. FSM_Apply data c = Inr c' \<and> fsm_inv c' \<and> Name c' = Name c \<and>
    assigned (fstore c') = spec_apply data (assigned (fstore c))"
proof (cases "unmarshal_command data")
  case (Inl e)
  then show ?thesis using assms by (simp add: FSM_Apply_def spec_apply_def)
next
  case (Inr cmd)
  show ?thesis
    using put_and_start_inv [OF assms, of "cmd_Host cmd" "cmd_Config cmd"]
      remove_inv [OF assms, of "cmd_Host cmd" "cmd_Config cmd"] assms Inr
    by (auto simp: FSM_Apply_def spec_apply_def)
qed

lemma restore_configs_ok:
  assumes "fsm_inv c"
  shows "\<exists>c'. restore_configs h cfgs c = Inr c' \<and> fsm_inv c' \<and> Name c' = Name c \<and>
    assigned (fstore c') = assigned (fstore c) \<union> {h} \<times> set cfgs"
  using assms
proof (induction cfgs arbitrary: c)
  case (Cons cfg cfgs)
  obtain c1 where c1: "put_and_start h cfg c = Inr c1" "fsm_inv c1" "Name c1 = Name c"
    "assigned (fstore c1) = insert (h, cfg) (assigned (fstore c))"
    using put_and_start_inv [OF Cons.prems] by blast
  obtain c' where c': "restore_configs h cfgs c1 = Inr c'" "fsm_inv c'" "Name c' = Name c1"
    "assigned (fstore c') = assigned (fstore c1) \<union> {h} \<times> set cfgs"
    using Cons.IH [OF c1(2)] by blast
  have "assigned (fstore c') = assigned (fstore c) \<union> {h} \<times> set (cfg # cfgs)"
    unfolding c'(4) c1(4) by auto
  then show ?case using c' c1 by auto
qed simp

lemma restore_hosts_ok:
  assumes "fsm_inv c"
  shows "\<exists>c'. restore_hosts m hs c = Inr c' \<and> fsm_inv c' \<and> Name c' = Name c \<and>
    assigned (fstore c') = assigned (fstore c) \<union> {(h, cfg). h \<in> set hs \<and> cfg \<in> set (lookup_zero [] m h)}"
  using assms
proof (induction hs arbitrary: c)
  case (Cons h hs)
  obtain c1 where c1: "restore_configs h (lookup_zero [] m h) c = Inr c1" "fsm_inv c1" "Name c1 = Name c"
    "assigned (fstore c1) = assigned (fstore c) \<union> {h} \<times> set (lookup_zero [] m h)"
    using restore_configs_ok [OF Cons.prems] by blast
  obtain c' where c': "restore_hosts m hs c1 = Inr c'" "fsm_inv c'" "Name c' = Name c1"
    "assigned (fstore c') = assigned (fstore c1) \<union> {(h, cfg). h \<in> set hs \<and> cfg \<in> set (lookup_zero [] m h)}"
    using Cons.IH [OF c1(2)] by blast
  have "assigned (fstore c') = assigned (fstore c) \<union>
      {(k, cfg). k \<in> set (h # hs) \<and> cfg \<in> set (lookup_zero [] m k)}"
    unfolding c'(4) c1(4) by auto
  then show ?case using c' c1 by auto
qed simp

text \<open>Emptying the store stops every running task of the replica.\<close>

lemma clean_inv:
  assumes inv: "fsm_inv c" and "FSMStore_clean hord ord (fstore c) = Inr s"
  shows "fsm_inv (c\<lparr>fstore := s\<rparr>) \<and> assigned s = {} \<and> running (c\<lparr>fstore := s\<rparr>) = {}"
proof -
  note si = fsm_invD(1) [OF inv]
  obtain s' where s': "FSMStore_clean hord ord (fstore c) = Inr s'" "store s' = []" "store_inv s'"
    "next_ch s' = next_ch (fstore c)"
    "closed_chs s' = closed_chs (fstore c) \<union> {ch. \<exists>h cfg. cell (fstore c) h cfg = Some (Some ch)}"
    by (rule clean_effect [OF si])
  have eq: "s = s'" using s'(1) assms(2) by simp
  have e: "cell s h cfg = None" for h cfg using s'(2) eq by (simp add: cell_def)
  have r: "running (c\<lparr>fstore := s\<rparr>) = {}"
    using fsm_invD(4) [OF inv] s'(5) eq by (fastforce simp: running_def)
  then show ?thesis
    using fsm_invD(2,3) [OF inv] s'(3,4) eq e by (auto simp: fsm_inv_def assigned_def)
qed

text \<open>
  A restore either reports a decoding error and leaves the replica alone, or replaces its
  assignments by those of the snapshot.
\<close>

lemma FSM_Restore_ok:
  assumes inv: "fsm_inv c" and dec: "decode_map decode_strings j = Inr m"
  shows "\<exists>c'. FSM_Restore cord ord hord (Some j) c = Inr (c', None) \<and> fsm_inv c' \<and> Name c' = Name c \<and>
    assigned (fstore c') = {(h, cfg). cfg \<in> set (lookup_zero [] m h)}"
proof -
  obtain s where s: "FSMStore_clean cord ord (fstore c) = Inr s"
    by (rule clean_effect [OF fsm_invD(1) [OF inv]])
  note cl = clean_inv [OF inv s]
  let ?c = "c\<lparr>fstore := s\<rparr>"
  obtain c' where c': "restore_hosts m (range_keys hord m) ?c = Inr c'" "fsm_inv c'" "Name c' = Name ?c"
    "assigned (fstore c') = assigned (fstore ?c) \<union>
       {(h, cfg). h \<in> set (range_keys hord m) \<and> cfg \<in> set (lookup_zero [] m h)}"
    using restore_hosts_ok [of ?c m] cl by blast
  have "assigned (fstore c') = {(h, cfg). cfg \<in> set (lookup_zero [] m h)}"
  proof -
    have "cfg \<in> set (lookup_zero [] m h) \<Longrightarrow> h \<in> dom (map_of m)" for h cfg
      by (cases "map_of m h") (auto simp: lookup_zero_def)
    then show ?thesis unfolding c'(4) using cl by auto
  qed
  then show ?thesis using c' dec s by (simp add: FSM_Restore_def)
qed

lemma FSM_Restore_error:
  assumes "(case rc of None \<Rightarrow> Inl SyntaxError | Some j \<Rightarrow> decode_map decode_strings j) = Inl e"
  shows "FSM_Restore cord ord hord rc c = Inr (c, Some e)"
  using assms by (simp add: FSM_Restore_def)

section \<open>Runs of a replica\<close>

text \<open>The raft library drives a replica by applying log entries and restoring snapshots.\<close>

inductive fsm_reachable :: "string \<Rightarrow> FSM \<Rightarrow> bool" for name where
  start: "fsm_reachable name (new_fsm name)"
| apply_log: "fsm_reachable name c \<Longrightarrow> FSM_Apply data c = Inr c' \<Longrightarrow> fsm_reachable name c'"
| restore: "fsm_reachable name c \<Longrightarrow> FSM_Restore cord ord hord rc c = Inr (c', err) \<Longrightarrow>
    fsm_reachable name c'"

lemma FSM_Restore_inv:
  assumes "fsm_inv c" and "FSM_Restore cord ord hord rc c = Inr (c', err)"
  shows "fsm_inv c' \<and> Name c' = Name c"
proof (cases "case rc of None \<Rightarrow> Inl SyntaxError | Some j \<Rightarrow> decode_map decode_strings j")
  case (Inl e)
  then show ?thesis using FSM_Restore_error [OF Inl] assms by simp
next
  case (Inr m)
  then obtain j where "rc = Some j" "decode_map decode_strings j = Inr m" by (cases rc) auto
  then show ?thesis using FSM_Restore_ok [OF assms(1), of j m cord ord hord] assms(2) by auto
qed

lemma fsm_reachable_inv: "fsm_reachable name c \<Longrightarrow> fsm_inv c \<and> Name c = name"
proof (induction rule: fsm_reachable.induct)
  case start
  then show ?case using new_fsm_inv by (simp add: new_fsm_def)
next
  case (apply_log c data c')
  then show ?case using FSM_Apply_ok [of c data] by auto
next
  case (restore c cord ord hord rc c' err)
  then show ?case using FSM_Restore_inv by metis
qed

text \<open>A log applied from the start, entry by entry.\<close>

fun apply_log :: "json option list \<Rightarrow> FSM \<Rightarrow> gopanic + FSM" where
  "apply_log [] c = Inr c"
| "apply_log (d # ds) c = bind_sum (FSM_Apply d c) (apply_log ds)"

lemma apply_log_ok:
  assumes "fsm_inv c"
  shows "\<exists>c'. apply_log ds c = Inr c' \<and> fsm_inv c' \<and> Name c' = Name c \<and>
    assigned (fstore c') = fold spec_apply ds (assigned (fstore c))"
  using assms
proof (induction ds arbitrary: c)
  case (Cons d ds)
  obtain c1 where c1: "FSM_Apply d c = Inr c1" "fsm_inv c1" "Name c1 = Name c"
    "assigned (fstore c1) = spec_apply d (assigned (fstore c))"
    using FSM_Apply_ok [OF Cons.prems] by blast
  then show ?case using Cons.IH [OF c1(2)] by auto
qed simp

lemma unmarshal_marshal_command: "unmarshal_command (Some (marshal_command cmd)) = Inr cmd"
  by (simp add: unmarshal_command_def marshal_command_def known_member_def set_member_def
      json_key_matches_def ToLower_def lower_char_def zero_command_def)

lemma decode_snapshot:
  assumes "maps_ok (fstore c)"
  shows "decode_map decode_strings (FSM_Snapshot ord c) = Inr (sort_key fst (FSMStore_Dump ord (fstore c)))"
proof -
  have "distinct (map fst (sort_key fst (FSMStore_Dump ord (fstore c))))"
    using go_map_Dump [OF assms, of ord] mset_sort [of fst "FSMStore_Dump ord (fstore c)"]
    unfolding go_map_def by (metis mset_eq_imp_distinct_iff mset_map)
  then show ?thesis
    unfolding FSM_Snapshot_def by (intro decode_encode_map) (simp_all add: go_map_def)
qed

lemma map_of_sort_key:
  assumes "go_map m"
  shows "map_of (sort_key f m) = map_of m"
proof (rule map_of_eqI)
  have d: "go_map (sort_key f m)"
    using assms mset_sort [of f m] unfolding go_map_def by (metis mset_eq_imp_distinct_iff mset_map)
  show "\<forall>k\<in>set (map fst (sort_key f m)). map_of (sort_key f m) k = map_of m k"
  proof
    fix k assume "k \<in> set (map fst (sort_key f m))"
    then obtain v where v: "(k, v) \<in> set m" by auto
    then show "map_of (sort_key f m) k = map_of m k"
      using map_of_Some_in_set [OF d, of k v] map_of_Some_in_set [OF assms, of k v] by simp
  qed
qed simp

text \<open>A stopped task stays stopped: closed channels are never reopened.\<close>

lemma put_and_start_closed:
  "put_and_start h cfg c = Inr c' \<Longrightarrow> closed_chs (fstore c) \<subseteq> closed_chs (fstore c')"
  by (auto simp: put_and_start_def FSMStore_Put_def make_chan_def set_cell_def close_chan_def
      bind_sum_Inr_iff Let_def split: option.splits if_splits)

lemma restore_configs_closed:
  "restore_configs h cfgs c = Inr c' \<Longrightarrow> closed_chs (fstore c) \<subseteq> closed_chs (fstore c')"
proof (induction cfgs arbitrary: c)
  case (Cons cfg cfgs)
  then obtain c1 where "put_and_start h cfg c = Inr c1" "restore_configs h cfgs c1 = Inr c'"
    by (auto simp: bind_sum_Inr_iff)
  then show ?case using put_and_start_closed [of h cfg c c1] Cons.IH [of c1] by blast
qed simp

lemma restore_hosts_closed:
  "restore_hosts m hs c = Inr c' \<Longrightarrow> closed_chs (fstore c) \<subseteq> closed_chs (fstore c')"
proof (induction hs arbitrary: c)
  case (Cons h hs)
  then obtain c1 where "restore_configs h (lookup_zero [] m h) c = Inr c1" "restore_hosts m hs c1 = Inr c'"
    by (auto simp: bind_sum_Inr_iff)
  then show ?case using restore_configs_closed [of h _ c c1] Cons.IH [of c1] by blast
qed simp

lemma FSM_Restore_stops:
  assumes inv: "fsm_inv c" and "FSM_Restore cord ord hord rc c = Inr (c', None)"
    and "(cfg, ch) \<in> running c"
  shows "ch \<in> closed_chs (fstore c')"
proof -
  obtain m s where s: "FSMStore_clean cord ord (fstore c) = Inr s"
    and r: "restore_hosts m (range_keys hord m) (c\<lparr>fstore := s\<rparr>) = Inr c'"
    using assms(2) by (auto simp: FSM_Restore_def bind_sum_Inr_iff split: sum.splits)
  have "(cfg, ch) \<notin> running (c\<lparr>fstore := s\<rparr>)" using clean_inv [OF inv s] by simp
  then have "ch \<in> closed_chs s" using assms(3) by (simp add: running_def)
  then show ?thesis using restore_hosts_closed [OF r] by auto
qed

section \<open>Properties\<close>

lemma reachable_example:
  "fsm_reachable ''n1'' \<lparr>Name = ''n1'',
     fstore = \<lparr>store = [(''n1'', [(''c'', Some 0)])], next_ch = 1, closed_chs = {}\<rparr>,
     tasks = [(''c'', 0)]\<rparr>"
proof -
  let ?d = "Some (marshal_command \<lparr>cmd_Type = cmdAssignConfig, cmd_Host = ''n1'', cmd_Config = ''c''\<rparr>)"
  have "FSM_Apply ?d (new_fsm ''n1'') = Inr \<lparr>Name = ''n1'',
     fstore = \<lparr>store = [(''n1'', [(''c'', Some 0)])], next_ch = 1, closed_chs = {}\<rparr>,
     tasks = [(''c'', 0)]\<rparr>"
    unfolding FSM_Apply_def unmarshal_marshal_command
    by (simp add: put_and_start_def new_fsm_def NewFSMStore_def FSMStore_Put_def
        make_chan_def set_cell_def)
  then show ?thesis by (rule fsm_reachable.apply_log [OF fsm_reachable.start])
qed

text \<open>
  C3. Applying any log entry to a reachable replica returns: the deferred \<open>recover\<close> of
  \<open>Apply\<close> never has a panic to catch (so the mutex of the store is always released), and a
  restore, which has no \<open>recover\<close>, never crashes the process, whatever bytes it reads and in
  whatever order Go visits the maps.
\<close>

theorem fsm_never_panics:
  assumes "fsm_reachable name c"
  shows "(\<exists>c'. FSM_Apply data c = Inr c') \<and> (\<exists>r. FSM_Restore cord ord hord rc c = Inr r)"
proof -
  have inv: "fsm_inv c" using fsm_reachable_inv [OF assms] by simp
  show ?thesis
  proof (cases "case rc of None \<Rightarrow> Inl SyntaxError | Some j \<Rightarrow> decode_map decode_strings j")
    case (Inl e)
    then show ?thesis using FSM_Apply_ok [OF inv, of data] FSM_Restore_error [OF Inl] by blast
  next
    case (Inr m)
    then obtain j where "rc = Some j" "decode_map decode_strings j = Inr m" by (cases rc) auto
    then show ?thesis
      using FSM_Apply_ok [OF inv, of data] FSM_Restore_ok [OF inv, of j m cord ord hord] by blast
  qed
qed

theorem fsm_never_panics_witness:
  "\<exists>r. FSM_Restore [] (\<lambda>_. []) [] (Some (JObj [(''n1'', JArr [JStr ''c'', JStr ''c''])]))
     \<lparr>Name = ''n1'', fstore = \<lparr>store = [(''n1'', [(''c'', Some 0)])], next_ch = 1, closed_chs = {}\<rparr>,
      tasks = [(''c'', 0)]\<rparr> = Inr r"
  using fsm_never_panics [OF reachable_example] by blast

lemma running_assigned:
  assumes inv: "fsm_inv c"
  shows "fst ` running c = {cfg. (Name c, cfg) \<in> assigned (fstore c)}"
proof -
  have "(\<exists>ch. cell (fstore c) (Name c) cfg = Some (Some ch)) \<longleftrightarrow> cell (fstore c) (Name c) cfg \<noteq> None" for cfg
    using fsm_invD(1) [OF inv] by (cases rule: cell_exhaust [of "fstore c" "Name c" cfg]) auto
  moreover have "running c = {(cfg, ch). cell (fstore c) (Name c) cfg = Some (Some ch)}"
    using inv by (simp add: fsm_inv_def)
  ultimately show ?thesis by (auto simp: image_iff)
qed

lemma running_inj:
  assumes "fsm_inv c"
  shows "inj_on fst (running c)"
proof -
  have "running c = {(cfg, ch). cell (fstore c) (Name c) cfg = Some (Some ch)}" using assms by (simp add: fsm_inv_def)
  then show ?thesis by (auto simp: inj_on_def)
qed

text \<open>
  C4. In every reachable state of a replica the running \<open>handleTask\<close> goroutines are exactly
  the configs the table assigns to this node, each watching the channel the table holds for it:
  a config assigned to the node has one running task, never two, and a config released or moved
  away has none.
\<close>

theorem running_tasks_match_table:
  assumes "fsm_reachable name c"
  shows "running c = {(cfg, ch). cell (fstore c) name cfg = Some (Some ch)} \<and>
    fst ` running c = {cfg. (name, cfg) \<in> assigned (fstore c)} \<and>
    inj_on fst (running c) \<and> distinct (tasks c)"
proof -
  have inv: "fsm_inv c" and n: "Name c = name" using fsm_reachable_inv [OF assms] by auto
  have r: "running c = {(cfg, ch). cell (fstore c) name cfg = Some (Some ch)}"
    using inv n by (simp add: fsm_inv_def)
  have "fst ` running c = {cfg. (name, cfg) \<in> assigned (fstore c)}" using running_assigned [OF inv] n by simp
  moreover have "inj_on fst (running c)" by (rule running_inj [OF inv])
  ultimately show ?thesis using r fsm_invD(2) [OF inv] by blast
qed

theorem running_tasks_match_table_witness:
  "running \<lparr>Name = ''n1'', fstore = \<lparr>store = [(''n1'', [(''c'', Some 0)])], next_ch = 1, closed_chs = {}\<rparr>,
      tasks = [(''c'', 0)]\<rparr> = {(''c'', 0)}"
proof -
  note w = running_tasks_match_table [OF reachable_example, THEN conjunct1]
  show ?thesis unfolding w by (auto simp: cell_def split: if_splits)
qed

text \<open>
  C5. A replica refines a set of assignments: applying a whole log to a fresh replica returns,
  and leaves it with the assignments the abstract machine computes from the log. Two replicas that
  applied the same log therefore hold the same table, whatever their names, channels and map
  orders.
\<close>

theorem log_refines_assignments:
  "\<exists>c. apply_log ds (new_fsm name) = Inr c \<and> assigned (fstore c) = fold spec_apply ds {}"
  using apply_log_ok [OF new_fsm_inv, of ds name] by (auto simp: new_fsm_def)

lemma snapshot_assigned:
  assumes inv: "fsm_inv c" "fsm_inv d"
  shows "\<exists>d'. FSM_Restore cord ord hord (Some (FSM_Snapshot sord c)) d = Inr (d', None) \<and>
    assigned (fstore d') = assigned (fstore c)"
proof -
  note mk = store_invD(1) [OF fsm_invD(1) [OF inv(1)]]
  let ?m = "sort_key fst (FSMStore_Dump sord (fstore c))"
  obtain d' where d': "FSM_Restore cord ord hord (Some (FSM_Snapshot sord c)) d = Inr (d', None)"
    "assigned (fstore d') = {(h, cfg). cfg \<in> set (lookup_zero [] ?m h)}"
    using FSM_Restore_ok [OF inv(2) decode_snapshot [OF mk]] by blast
  have "cfg \<in> set (lookup_zero [] ?m h) \<longleftrightarrow> (h, cfg) \<in> assigned (fstore c)" for h cfg
    by (cases "map_of (store (fstore c)) h")
      (auto simp: lookup_zero_def map_of_sort_key [OF go_map_Dump [OF mk]] map_of_Dump cell_def keys_def)
  then have "assigned (fstore d') = assigned (fstore c)" unfolding d'(2) by auto
  then show ?thesis using d'(1) by blast
qed

text \<open>
  C6. Restoring the snapshot of one replica on another makes the second one hold exactly the
  assignments of the first, stops every task the second one was running before, and starts exactly one new
  task for each config these assignments give to its own node.
\<close>

theorem snapshot_restore_roundtrip:
  assumes "fsm_reachable name c" and "fsm_reachable name' d"
  shows "\<exists>d'. FSM_Restore cord ord hord (Some (FSM_Snapshot sord c)) d = Inr (d', None) \<and>
    assigned (fstore d') = assigned (fstore c) \<and>
    (\<forall>(cfg, ch)\<in>running d. ch \<in> closed_chs (fstore d')) \<and>
    fst ` running d' = {cfg. (name', cfg) \<in> assigned (fstore c)} \<and> inj_on fst (running d') \<and>
    running d' \<inter> running d = {}"
proof -
  have inv: "fsm_inv c" "fsm_inv d" and n: "Name d = name'" using assms fsm_reachable_inv by blast+
  obtain d' where d': "FSM_Restore cord ord hord (Some (FSM_Snapshot sord c)) d = Inr (d', None)"
    "assigned (fstore d') = assigned (fstore c)"
    using snapshot_assigned [OF inv] by blast
  have i: "fsm_inv d'" "Name d' = name'" using FSM_Restore_inv [OF inv(2) d'(1)] n by simp_all
  have old: "\<forall>(cfg, ch)\<in>running d. ch \<in> closed_chs (fstore d')"
    using FSM_Restore_stops [OF inv(2) d'(1)] by blast
  then have "running d' \<inter> running d = {}" by (auto simp: running_def)
  then show ?thesis
    using d' old running_assigned [OF i(1)] running_inj [OF i(1)] i(2) by auto
qed

theorem snapshot_restore_roundtrip_witness:
  "\<exists>d'. FSM_Restore [] (\<lambda>_. []) [] (Some (FSM_Snapshot (\<lambda>_. []) \<lparr>Name = ''n1'',
      fstore = \<lparr>store = [(''n1'', [(''c'', Some 0)])], next_ch = 1, closed_chs = {}\<rparr>,
      tasks = [(''c'', 0)]\<rparr>)) (new_fsm ''n1'') = Inr (d', None) \<and>
    cell (fstore d') ''n1'' ''c'' \<noteq> None \<and> ''c'' \<in> fst ` running d'"
proof -
  let ?c = "\<lparr>Name = ''n1'', fstore = \<lparr>store = [(''n1'', [(''c'', Some 0)])], next_ch = 1, closed_chs = {}\<rparr>,
    tasks = [(''c'', 0)]\<rparr>"
  have "(''n1'', ''c'') \<in> assigned (fstore ?c)" by (simp add: cell_def)
  then show ?thesis
    using snapshot_restore_roundtrip [OF reachable_example fsm_reachable.start [of "''n1''"],
      of "[]" "\<lambda>_. []" "[]" "\<lambda>_. []"] by (metis (lifting) mem_Collect_eq mem_assigned)
qed

text \<open>
  A command survives its journey through the raft log: what \<open>Apply\<close> decodes from the
  JSON that \<open>raftApply\<close> marshals is the command itself, so an assign command adds its
  assignment to the table and a remove command deletes it.
\<close>

lemma command_roundtrip:
  "unmarshal_command (Some (marshal_command cmd)) = Inr cmd \<and>
   spec_apply (Some (marshal_command \<lparr>cmd_Type = cmdAssignConfig, cmd_Host = h, cmd_Config = cfg\<rparr>)) A =
     insert (h, cfg) A \<and>
   spec_apply (Some (marshal_command \<lparr>cmd_Type = cmdRemoveConfig, cmd_Host = h, cmd_Config = cfg\<rparr>)) A =
     A - {(h, cfg)}"
  by (simp add: unmarshal_marshal_command spec_apply_def cmdAssignConfig_def cmdRemoveConfig_def)

end
