(* ===== verification/Cluster.thy ===== *)
theory Cluster
  imports FSM GoStrings "HOL-Library.Word"
begin

text \<open>
  \<open>combainer/cluster.go\<close>: one node of the cluster. Its state joins the replica of \<open>FSM\<close>,
  the members serf reports, the raft instance and the queue of members the leader has to
  reconcile.

  The libraries serf and raft are not part of the repository. The members are a component of the
  state, in the order \<open>serf.Members\<close> returns them. The raft instance is a value of type
  \<open>'r\<close> and its methods are the fields of \<open>raft_api\<close>: a method gets the instance and returns
  it updated. What the code relies on is stated as hypotheses where a lemma needs it.
\<close>

section \<open>Data\<close>

datatype MemberStatus = StatusNone | StatusAlive | StatusLeaving | StatusLeft | StatusFailed | statusReap

record Member =
  m_Name :: string
  m_Addr :: string
  m_Status :: MemberStatus

datatype EventType = EventMemberJoin | EventMemberLeave | EventMemberFailed | EventMemberUpdate
  | EventMemberReap | EventUser | EventQuery

record MemberEvent =
  me_Type :: EventType
  me_Members :: "Member list"

record Server =
  srv_ID :: string
  srv_Address :: string

text \<open>\<open>BootstrapExpect\<close> is a \<open>uint\<close>; \<open>RaftUpdateInterval\<close> is in nanoseconds.\<close>

record ClusterConfig =
  BindAddr :: string
  RaftPort :: int
  BootstrapExpect :: "64 word"
  StartAsLeader :: bool
  RaftUpdateInterval :: int

record RaftConfig =
  rc_StartAsLeader :: bool
  rc_LocalID :: string

text \<open>
  The outcome of \<open>raft.Apply(...).Error()\<close>: the entry was committed and applied to the local
  replica, it was refused, or there was an error although the entry was committed and applied.
\<close>

datatype 'e raft_outcome = Committed | Refused 'e | CommittedButError 'e

record ('r, 'e) raft_api =
  raft_Apply :: "json \<Rightarrow> 'r \<Rightarrow> 'r \<times> 'e raft_outcome"
  raft_GetConfiguration :: "'r \<Rightarrow> 'e + Server list"
  raft_AddVoter :: "string \<Rightarrow> string \<Rightarrow> 'r \<Rightarrow> 'r \<times> 'e option"
  raft_RemoveServer :: "string \<Rightarrow> 'r \<Rightarrow> 'r \<times> 'e option"
  raft_Barrier :: "'r \<Rightarrow> 'r \<times> 'e option"
  raft_IsLeader :: "'r \<Rightarrow> bool"
  raft_BootstrapCluster :: "RaftConfig \<Rightarrow> Server list \<Rightarrow> 'e option"
  raft_NewRaft :: "RaftConfig \<Rightarrow> Server list \<Rightarrow> 'e + 'r"

record 'r Cluster =
  cfsm :: FSM
  cserf :: "Member list option"
  craft :: "'r option"
  craftConfig :: "RaftConfig option"
  creconcileCh :: "Member list"
  cconfig :: ClusterConfig

definition reconcileCap :: nat where "reconcileCap = 32"
definition raftPort :: int where "raftPort = 9001"
definition Second :: int where "Second = 1000000000"

definition c_Name :: "'r Cluster \<Rightarrow> string" where
  "c_Name c = Name (cfsm c)"

section \<open>Configuration\<close>

definition validateConfig :: "ClusterConfig \<Rightarrow> ClusterConfig" where
  "validateConfig cfg =
     (let cfg = (if BindAddr cfg = [] then cfg\<lparr>BindAddr := ''::''\<rparr> else cfg);
          cfg = (if RaftPort cfg = 0 then cfg\<lparr>RaftPort := raftPort\<rparr> else cfg);
          cfg = (if BootstrapExpect cfg = 0 then cfg\<lparr>BootstrapExpect := 1\<rparr> else cfg)
      in if RaftUpdateInterval cfg < 5 * Second then cfg\<lparr>RaftUpdateInterval := 5 * Second\<rparr> else cfg)"

definition valid_config :: "ClusterConfig \<Rightarrow> bool" where
  "valid_config cfg \<longleftrightarrow> BindAddr cfg \<noteq> [] \<and> RaftPort cfg \<noteq> 0 \<and> BootstrapExpect cfg \<noteq> 0 \<and>
     5 * Second \<le> RaftUpdateInterval cfg"

section \<open>Start of a node\<close>

text \<open>
  \<open>NewCluster\<close>: what the resolver, serf and the raft transport answer are arguments. It returns
  a pointer and an error; \<open>errors.Wrapf(nil, ...)\<close> is nil. A serf that cannot be created ends
  the process (\<open>log.Fatalf\<close>).
\<close>

record IP =
  ip_text :: string
  ip_IsGlobalUnicast :: bool
  ip_To4 :: bool

datatype 'e new_error = LookupIPFailed 'e | AdvertiseAddrNotSet | TransportFailed 'e

datatype ('e, 'c) started = FatalExit 'e | Returned 'c "'e new_error option"

definition advertise_ip :: "IP list \<Rightarrow> string" where
  "advertise_ip ips = (case List.find (\<lambda>ip. ip_IsGlobalUnicast ip \<and> \<not> ip_To4 ip) ips of
     None \<Rightarrow> [] | Some ip \<Rightarrow> ip_text ip)"

definition new_cluster :: "string \<Rightarrow> Member list \<Rightarrow> ClusterConfig \<Rightarrow> 'r Cluster" where
  "new_cluster name members cfg =
     \<lparr>cfsm = new_fsm name, cserf = Some members, craft = None, craftConfig = None,
      creconcileCh = [], cconfig = cfg\<rparr>"

definition NewCluster :: "string \<Rightarrow> 'e + IP list \<Rightarrow> 'e + Member list \<Rightarrow> 'e option \<Rightarrow> ClusterConfig \<Rightarrow>
    ('e, 'r Cluster option) started" where
  "NewCluster name lookup serf_Create transport cfg =
     (let cfg = validateConfig cfg in
      case lookup of
        Inl err \<Rightarrow> Returned None (Some (LookupIPFailed err))
      | Inr ips \<Rightarrow>
          if ips = [] then Returned None None
          else if advertise_ip ips = [] then Returned None (Some AdvertiseAddrNotSet)
          else (case serf_Create of
            Inl err \<Rightarrow> FatalExit err
          | Inr members \<Rightarrow> (case transport of
              Some err \<Rightarrow> Returned None (Some (TransportFailed err))
            | None \<Rightarrow> Returned (Some (new_cluster name members cfg)) None)))"

section \<open>Members\<close>

definition AliveMembers :: "'r Cluster \<Rightarrow> Member list" where
  "AliveMembers c = (case cserf c of
     None \<Rightarrow> []
   | Some all \<Rightarrow> filter (\<lambda>m. m_Status m = StatusAlive) all)"

definition Hosts :: "'r Cluster \<Rightarrow> string list" where
  "Hosts c = map m_Name (AliveMembers c)"

text \<open>\<open>NilRaft\<close> stands for the nil dereference of a node whose raft does not exist yet.\<close>

datatype 'e cluster_error = NilRaft | NotConfigured | RaftError 'e
  | CommandFailed FSMCommand "'e cluster_error"

definition Peers :: "('r, 'e) raft_api \<Rightarrow> 'r Cluster \<Rightarrow> 'e cluster_error + string list" where
  "Peers api c = (case craft c of
     None \<Rightarrow> Inl NotConfigured
   | Some r \<Rightarrow> (case raft_GetConfiguration api r of
       Inl err \<Rightarrow> Inl (RaftError err)
     | Inr servers \<Rightarrow>
         (let aliveHosts = set (map m_Name (AliveMembers c)) in
          Inr (map srv_ID (filter (\<lambda>server. srv_ID server \<in> aliveHosts) servers)))))"

definition IsLeader :: "('r, 'e) raft_api \<Rightarrow> 'r Cluster \<Rightarrow> bool" where
  "IsLeader api c = (case craft c of None \<Rightarrow> False | Some r \<Rightarrow> raft_IsLeader api r)"

text \<open>
  \<open>net.JoinHostPort\<close>, also what \<open>TCPAddr.String\<close> prints. Addresses of members are the
  texts of their IPs.
\<close>

definition JoinHostPort :: "string \<Rightarrow> string \<Rightarrow> string" where
  "JoinHostPort host port =
     (if CHR '':'' \<in> set host \<or> CHR ''%'' \<in> set host then ''['' @ host @ '']:'' @ port
      else host @ '':'' @ port)"

definition member_addr :: "'r Cluster \<Rightarrow> Member \<Rightarrow> string" where
  "member_addr c m = JoinHostPort (m_Addr m) (Itoa (RaftPort (cconfig c)))"

section \<open>Bootstrap\<close>

text \<open>
  \<open>setupRaft\<close> runs once (\<open>sync.Once\<close>): a configuration that is already there stays. The
  stores and the transport it also creates belong to the library.
\<close>

definition setupRaft :: "string \<Rightarrow> 'r Cluster \<Rightarrow> 'r Cluster" where
  "setupRaft hostname c =
     c\<lparr>craftConfig := Some \<lparr>rc_StartAsLeader = StartAsLeader (cconfig c), rc_LocalID = hostname\<rparr>\<rparr>"

definition once_setupRaft :: "string \<Rightarrow> 'r Cluster \<Rightarrow> 'r Cluster" where
  "once_setupRaft hostname c = (case craftConfig c of None \<Rightarrow> setupRaft hostname c | Some _ \<Rightarrow> c)"

definition bootstrap_servers :: "'r Cluster \<Rightarrow> Server list" where
  "bootstrap_servers c = map (\<lambda>m. \<lparr>srv_ID = m_Name m, srv_Address = member_addr c m\<rparr>) (AliveMembers c)"

definition maybeBootstrap :: "('r, 'e) raft_api \<Rightarrow> string \<Rightarrow> 'r Cluster \<Rightarrow> 'r Cluster \<times> 'e option" where
  "maybeBootstrap api hostname c =
     (if int (length (AliveMembers c)) < sint (BootstrapExpect (cconfig c)) then (c, None)
      else
        let c = once_setupRaft hostname c;
            conf = the (craftConfig c);
            servers = bootstrap_servers c
        in case raft_BootstrapCluster api conf servers of
             Some err \<Rightarrow> (c, Some err)
           | None \<Rightarrow> (case raft_NewRaft api conf servers of
               Inl err \<Rightarrow> (c, Some err)
             | Inr r \<Rightarrow> (c\<lparr>craft := Some r, cconfig := (cconfig c)\<lparr>BootstrapExpect := 0\<rparr>\<rparr>, None)))"

section \<open>Serf events\<close>

fun nodeJoin :: "('r, 'e) raft_api \<Rightarrow> string \<Rightarrow> Member list \<Rightarrow> 'r Cluster \<Rightarrow> 'r Cluster" where
  "nodeJoin api hostname [] c = c"
| "nodeJoin api hostname (m # ms) c =
     nodeJoin api hostname ms
       (if BootstrapExpect (cconfig c) \<noteq> 0 then fst (maybeBootstrap api hostname c) else c)"

text \<open>The send on \<open>reconcileCh\<close> does not block: a member that does not fit is dropped.\<close>

fun enqueue_members :: "bool \<Rightarrow> Member list \<Rightarrow> Member list \<Rightarrow> Member list" where
  "enqueue_members isReap [] q = q"
| "enqueue_members isReap (m # ms) q =
     (let m = (if isReap then m\<lparr>m_Status := statusReap\<rparr> else m) in
      enqueue_members isReap ms (if length q < reconcileCap then q @ [m] else q))"

definition localMemberEvent :: "('r, 'e) raft_api \<Rightarrow> MemberEvent \<Rightarrow> 'r Cluster \<Rightarrow> 'r Cluster" where
  "localMemberEvent api me c =
     (if \<not> IsLeader api c then c
      else c\<lparr>creconcileCh := enqueue_members (me_Type me = EventMemberReap) (me_Members me) (creconcileCh c)\<rparr>)"

text \<open>One round of the loop of \<open>EventHandler\<close>.\<close>

definition EventHandler :: "('r, 'e) raft_api \<Rightarrow> string \<Rightarrow> MemberEvent \<Rightarrow> 'r Cluster \<Rightarrow> 'r Cluster" where
  "EventHandler api hostname e c =
     (case me_Type e of
        EventMemberJoin \<Rightarrow> localMemberEvent api e (nodeJoin api hostname (me_Members e) c)
      | EventMemberLeave \<Rightarrow> localMemberEvent api e c
      | EventMemberFailed \<Rightarrow> localMemberEvent api e c
      | EventMemberReap \<Rightarrow> localMemberEvent api e c
      | EventMemberUpdate \<Rightarrow> c
      | EventUser \<Rightarrow> c
      | EventQuery \<Rightarrow> c)"

section \<open>Lemmas\<close>

lemma Hosts_distinct:
  "\<forall>all. cserf c = Some all \<longrightarrow> distinct (map m_Name all) \<Longrightarrow> distinct (Hosts c)"
  by (auto simp: Hosts_def AliveMembers_def distinct_map split: option.splits intro: inj_on_subset)

lemma Peers_alive: "Peers api c = Inr ps \<Longrightarrow> set ps \<subseteq> set (Hosts c)"
  by (auto simp: Peers_def Hosts_def Let_def split: option.splits sum.splits)

lemma Peers_distinct:
  assumes "Peers api c = Inr ps" and "craft c = Some r" and "raft_GetConfiguration api r = Inr servers"
    and "distinct (map srv_ID servers)"
  shows "distinct ps"
  using assms by (auto simp: Peers_def distinct_map Let_def intro: inj_on_subset)

lemma enqueue_members_take:
  "length q \<le> reconcileCap \<Longrightarrow> enqueue_members isReap ms q =
    take reconcileCap (q @ map (\<lambda>m. if isReap then m\<lparr>m_Status := statusReap\<rparr> else m) ms)"
proof (induction ms arbitrary: q)
  case (Cons m ms)
  show ?case
  proof (cases "length q < reconcileCap")
    case True
    then have "reconcileCap - length q = Suc (reconcileCap - Suc (length q))" by simp
    then show ?thesis using Cons True by (simp add: Let_def)
  qed (use Cons in \<open>simp add: Let_def\<close>)
qed simp

lemma cluster_fsm_frame [frame_simps]:
  "cfsm (fst (maybeBootstrap api hostname c)) = cfsm c"
  "cfsm (localMemberEvent api e c) = cfsm c"
  by (auto simp: maybeBootstrap_def once_setupRaft_def setupRaft_def localMemberEvent_def Let_def
      split: option.splits sum.splits)

lemma nodeJoin_fsm [frame_simps]: "cfsm (nodeJoin api hostname ms c) = cfsm c"
  by (induction api hostname ms c rule: nodeJoin.induct) (auto simp: frame_simps)

lemma EventHandler_fsm [frame_simps]: "cfsm (EventHandler api hostname e c) = cfsm c"
  by (auto simp: EventHandler_def frame_simps split: EventType.splits)

text \<open>Once a raft instance exists no event replaces it.\<close>

definition boot_inv :: "'r Cluster \<Rightarrow> bool" where
  "boot_inv c \<longleftrightarrow> (craft c \<noteq> None \<longrightarrow> BootstrapExpect (cconfig c) = 0 \<and> craftConfig c \<noteq> None)"

lemma maybeBootstrap_boot_inv: "boot_inv c \<Longrightarrow> boot_inv (fst (maybeBootstrap api hostname c))"
  by (auto simp: boot_inv_def maybeBootstrap_def once_setupRaft_def setupRaft_def Let_def
      split: option.splits sum.splits)

lemma nodeJoin_boot:
  assumes "boot_inv c"
  shows "boot_inv (nodeJoin api hostname ms c) \<and>
    (\<forall>r. craft c = Some r \<longrightarrow> craft (nodeJoin api hostname ms c) = Some r)"
  using assms
proof (induction ms arbitrary: c)
  case (Cons m ms)
  show ?case
  proof (cases "BootstrapExpect (cconfig c) = 0")
    case True
    then show ?thesis using Cons by simp
  next
    case False
    then have "craft c = None" using Cons.prems by (auto simp: boot_inv_def)
    then show ?thesis
      using Cons.IH [OF maybeBootstrap_boot_inv [OF Cons.prems, of api hostname]] False by simp
  qed
qed simp

end
