(* ===== verification/Scheduler.thy ===== *)
theory Scheduler
  imports FSMStore
begin

text \<open>
  \<open>combainer/scheduler.go\<close>: how the leader spreads the parsing configs over the alive hosts.
  \<open>distributeTasks\<close> releases what dead hosts hold, counts what each alive host holds, releases
  duplicates and configs that no longer exist, and calls \<open>runBalancer\<close>, which moves configs from
  overloaded hosts and hands out the free ones.

  In the source \<open>assignConfig\<close> and \<open>releaseConfig\<close> are variables of function type; here
  they are arguments, as are the methods of the store the scheduler reads. What they promise is
  the locale \<open>cluster_ops\<close>; its laws are discharged for the raft-backed functions in the
  theory \<open>Leader\<close>. Go's map orders and the order in which \<open>sort.Sort\<close> leaves hosts of
  equal load are the permutation codes of the record \<open>orders\<close>.
\<close>

section \<open>Data\<close>

record balance =
  hosts :: "string list"
  quantity :: "string \<Rightarrow> int"
  average :: int
  permissibleNumber :: int

text \<open>\<open>Less\<close> compares loads; \<open>sort.Sort\<close> leaves a permutation sorted by it.\<close>

definition balance_Less :: "balance \<Rightarrow> nat \<Rightarrow> nat \<Rightarrow> bool" where
  "balance_Less b i j \<longleftrightarrow> quantity b (hosts b ! i) < quantity b (hosts b ! j)"

definition sort_balance :: "nat list \<Rightarrow> balance \<Rightarrow> balance" where
  "sort_balance code b = b\<lparr>hosts := sort_key (quantity b) (shuffle code (hosts b))\<rparr>"

definition go_min :: "int \<Rightarrow> int \<Rightarrow> int" where
  "go_min a b = (if a < b then a else b)"

record orders =
  ord_stat :: "nat list"
  ord_dead :: "nat \<Rightarrow> nat list"
  ord_live :: "nat \<Rightarrow> nat list"
  ord_sort :: "nat list"
  ord_over :: "nat \<Rightarrow> nat list"
  ord_free :: "nat \<Rightarrow> nat list"

fun markDeadNodes :: "string list \<Rightarrow> (string \<times> string) list \<Rightarrow> string list \<times> (string \<times> string) list" where
  "markDeadNodes alive [] = ([], [])"
| "markDeadNodes alive ((h, n) # stats) =
     (let (deadNodes, stats') = markDeadNodes alive stats in
      if h \<in> set alive then (deadNodes, (h, n) # stats')
      else (h # deadNodes, (h @ '' (dead)'', n) # stats'))"

section \<open>The balancer\<close>

text \<open>The variables of \<open>runBalancer\<close>; \<open>bs_free\<close> holds the keys of \<open>configSet\<close>.\<close>

record 's bstate =
  bs_s :: 's
  bs_idx :: int
  bs_over :: string
  bs_q :: "string \<Rightarrow> int"
  bs_free :: "string list"

definition set_insert :: "string \<Rightarrow> string list \<Rightarrow> string list" where
  "set_insert x xs = (if x \<in> set xs then xs else xs @ [x])"

text \<open>The loop that releases up to \<open>toRelease\<close> configs of the overloaded host.\<close>

fun release_some :: "('s \<Rightarrow> string \<Rightarrow> string \<Rightarrow> 's \<times> 'e option) \<Rightarrow> string \<Rightarrow> int \<Rightarrow> string list \<Rightarrow>
    's bstate \<Rightarrow> 's bstate \<times> 'e option" where
  "release_some rel h toRelease [] b = (b, None)"
| "release_some rel h toRelease (cfg # cfgs) b =
     (if toRelease - 1 < 0 then (b, None)
      else case rel (bs_s b) h cfg of
        (s, Some err) \<Rightarrow> (b\<lparr>bs_s := s\<rparr>, Some err)
      | (s, None) \<Rightarrow>
          release_some rel h (toRelease - 1) cfgs
            (b\<lparr>bs_s := s, bs_free := set_insert cfg (bs_free b),
               bs_q := (bs_q b)(h := bs_q b h - 1)\<rparr>))"

text \<open>The loop that collects \<open>configsToAssign\<close>: at least one config if there is one.\<close>

fun pick_configs :: "int \<Rightarrow> string list \<Rightarrow> string list" where
  "pick_configs toAdd [] = []"
| "pick_configs toAdd (cfg # cfgs) =
     cfg # (if toAdd - 1 \<le> 0 then [] else pick_configs (toAdd - 1) cfgs)"

fun assign_some :: "('s \<Rightarrow> string \<Rightarrow> string \<Rightarrow> 's \<times> 'e option) \<Rightarrow> string \<Rightarrow> string list \<Rightarrow>
    's bstate \<Rightarrow> 's bstate \<times> 'e option" where
  "assign_some asn h [] b = (b, None)"
| "assign_some asn h (cfg # cfgs) b =
     (case asn (bs_s b) h cfg of
        (s, Some err) \<Rightarrow> (b\<lparr>bs_s := s\<rparr>, Some err)
      | (s, None) \<Rightarrow>
          assign_some asn h cfgs (b\<lparr>bs_s := s, bs_free := removeAll cfg (bs_free b)\<rparr>))"

text \<open>
  One round of the loop of \<open>runBalancer\<close>, for \<open>host\<close>: \<open>plan_round\<close> computes the
  overloaded host to look at and how much this host wants, \<open>balance_host\<close> acts on it.
\<close>

definition plan_round :: "balance \<Rightarrow> string \<Rightarrow> 's bstate \<Rightarrow> 's bstate \<times> int \<times> int" where
  "plan_round st host b =
     (let wantage = average st - bs_q b host;
          setLen = int (length (bs_free b));
          wantage = (if wantage = 0 \<and> setLen > 0 then setLen div int (length (hosts st)) else wantage);
          b = (if bs_q b (bs_over b) - permissibleNumber st \<le> 0 \<and> bs_idx b > 0
               then b\<lparr>bs_over := hosts st ! nat (bs_idx b), bs_idx := bs_idx b - 1\<rparr> else b);
          overload = bs_q b (bs_over b) - average st;
          wantage = (if wantage = 0 \<and> overload > 1 then 1 else wantage)
      in (b, wantage, go_min overload wantage))"

definition balance_host :: "('s \<Rightarrow> string \<Rightarrow> string \<Rightarrow> 's \<times> 'e option) \<Rightarrow>
    ('s \<Rightarrow> string \<Rightarrow> string \<Rightarrow> 's \<times> 'e option) \<Rightarrow> (nat list \<Rightarrow> string \<Rightarrow> 's \<Rightarrow> string list) \<Rightarrow>
    balance \<Rightarrow> nat list \<Rightarrow> nat list \<Rightarrow> string \<Rightarrow> 's bstate \<Rightarrow> 's bstate \<times> 'e option" where
  "balance_host asn rel list st oover ofree host b =
     (let (b, wantage, toRelease) = plan_round st host b in
      case (if toRelease > 0
            then release_some rel (bs_over b) toRelease (list oover (bs_over b) (bs_s b)) b
            else (b, None)) of
        (b, Some err) \<Rightarrow> (b, Some err)
      | (b, None) \<Rightarrow>
          let toAdd = go_min (int (length (bs_free b))) wantage in
          assign_some asn host (pick_configs toAdd (shuffle ofree (bs_free b))) b)"

fun balance_hosts :: "('s \<Rightarrow> string \<Rightarrow> string \<Rightarrow> 's \<times> 'e option) \<Rightarrow>
    ('s \<Rightarrow> string \<Rightarrow> string \<Rightarrow> 's \<times> 'e option) \<Rightarrow> (nat list \<Rightarrow> string \<Rightarrow> 's \<Rightarrow> string list) \<Rightarrow>
    balance \<Rightarrow> orders \<Rightarrow> nat \<Rightarrow> string list \<Rightarrow> 's bstate \<Rightarrow> 's bstate \<times> 'e option" where
  "balance_hosts asn rel list st ord i [] b = (b, None)"
| "balance_hosts asn rel list st ord i (host # hs) b =
     (case balance_host asn rel list st (ord_over ord i) (ord_free ord i) host b of
        (b, Some err) \<Rightarrow> (b, Some err)
      | (b, None) \<Rightarrow> balance_hosts asn rel list st ord (Suc i) hs b)"

text \<open>\<open>runBalancer\<close> is only called with a non-empty list of hosts.\<close>

definition runBalancer :: "('s \<Rightarrow> string \<Rightarrow> string \<Rightarrow> 's \<times> 'e option) \<Rightarrow>
    ('s \<Rightarrow> string \<Rightarrow> string \<Rightarrow> 's \<times> 'e option) \<Rightarrow> (nat list \<Rightarrow> string \<Rightarrow> 's \<Rightarrow> string list) \<Rightarrow>
    orders \<Rightarrow> balance \<Rightarrow> string list \<Rightarrow> 's \<Rightarrow> 's bstate \<times> 'e option" where
  "runBalancer asn rel list ord st configSet s =
     (let overloadedIndex = int (length (hosts st)) - 1 in
      balance_hosts asn rel list st ord 0 (hosts st)
        \<lparr>bs_s = s, bs_idx = overloadedIndex, bs_over = hosts st ! nat overloadedIndex,
         bs_q = quantity st, bs_free = configSet\<rparr>)"

section \<open>The distribution of tasks\<close>

fun release_all :: "('s \<Rightarrow> string \<Rightarrow> string \<Rightarrow> 's \<times> 'e option) \<Rightarrow> string \<Rightarrow> string list \<Rightarrow> 's \<Rightarrow>
    's \<times> 'e option" where
  "release_all rel h [] s = (s, None)"
| "release_all rel h (cfg # cfgs) s =
     (case rel s h cfg of
        (s, Some err) \<Rightarrow> (s, Some err)
      | (s, None) \<Rightarrow> release_all rel h cfgs s)"

fun release_dead :: "('s \<Rightarrow> string \<Rightarrow> string \<Rightarrow> 's \<times> 'e option) \<Rightarrow>
    (nat list \<Rightarrow> string \<Rightarrow> 's \<Rightarrow> string list) \<Rightarrow> (nat \<Rightarrow> nat list) \<Rightarrow> nat \<Rightarrow> string list \<Rightarrow> 's \<Rightarrow>
    's \<times> 'e option" where
  "release_dead rel list ord i [] s = (s, None)"
| "release_dead rel list ord i (host # hs) s =
     (case release_all rel host (list (ord i) host s) s of
        (s, Some err) \<Rightarrow> (s, Some err)
      | (s, None) \<Rightarrow> release_dead rel list ord (Suc i) hs s)"

text \<open>
  Counting the configs of one host: a config that is still free is counted and taken out of the
  free set, any other is released.
\<close>

fun count_host :: "('s \<Rightarrow> string \<Rightarrow> string \<Rightarrow> 's \<times> 'e option) \<Rightarrow> string \<Rightarrow> string list \<Rightarrow>
    's \<times> (string \<Rightarrow> int) \<times> string list \<Rightarrow> ('s \<times> (string \<Rightarrow> int) \<times> string list) \<times> 'e option" where
  "count_host rel h [] (s, q, free) = ((s, q, free), None)"
| "count_host rel h (cfg # cfgs) (s, q, free) =
     (if cfg \<in> set free then count_host rel h cfgs (s, q(h := q h + 1), removeAll cfg free)
      else case rel s h cfg of
        (s, Some err) \<Rightarrow> ((s, q, free), Some err)
      | (s, None) \<Rightarrow> count_host rel h cfgs (s, q, free))"

fun count_hosts :: "('s \<Rightarrow> string \<Rightarrow> string \<Rightarrow> 's \<times> 'e option) \<Rightarrow>
    (nat list \<Rightarrow> string \<Rightarrow> 's \<Rightarrow> string list) \<Rightarrow> (nat \<Rightarrow> nat list) \<Rightarrow> nat \<Rightarrow> string list \<Rightarrow>
    's \<times> (string \<Rightarrow> int) \<times> string list \<Rightarrow> ('s \<times> (string \<Rightarrow> int) \<times> string list) \<times> 'e option" where
  "count_hosts rel list ord i [] t = (t, None)"
| "count_hosts rel list ord i (host # hs) t =
     (case count_host rel host (list (ord i) host (fst t)) t of
        (t, Some err) \<Rightarrow> (t, Some err)
      | (t, None) \<Rightarrow> count_hosts rel list ord (Suc i) hs t)"

datatype ('r, 'e) sched_error = ListConfigsFailed 'r | ReleaseError 'e | BalancerError 'e

text \<open>
  \<open>distributeTasks\<close>: \<open>configs\<close> is the result of \<open>repository.ListParsingConfigs\<close>, \<open>stat\<close>
  the store's \<open>DistributionStatistic\<close>. (The statistics computed once more at the end are only
  logged.)
\<close>

definition distributeTasks :: "('s \<Rightarrow> string \<Rightarrow> string \<Rightarrow> 's \<times> 'e option) \<Rightarrow>
    ('s \<Rightarrow> string \<Rightarrow> string \<Rightarrow> 's \<times> 'e option) \<Rightarrow> (nat list \<Rightarrow> string \<Rightarrow> 's \<Rightarrow> string list) \<Rightarrow>
    (nat list \<Rightarrow> 's \<Rightarrow> (string \<times> string) list) \<Rightarrow> orders \<Rightarrow> 'r + string list \<Rightarrow> string list \<Rightarrow> 's \<Rightarrow>
    's \<times> ('r, 'e) sched_error option" where
  "distributeTasks asn rel list stat ord configs hs s =
     (if hs = [] then (s, None)
      else case configs of
        Inl err \<Rightarrow> (s, Some (ListConfigsFailed err))
      | Inr cfgs \<Rightarrow>
         (let configSet = remdups cfgs;
              (deadNodes, oldStat) = markDeadNodes hs (stat (ord_stat ord) s) in
          case release_dead rel list (ord_dead ord) 0 deadNodes s of
            (s, Some err) \<Rightarrow> (s, Some (ReleaseError err))
          | (s, None) \<Rightarrow>
             (let n = int (length cfgs); k = int (length hs) in
              case count_hosts rel list (ord_live ord) 0 hs (s, \<lambda>_. 0, configSet) of
                ((s, q, free), Some err) \<Rightarrow> (s, Some (ReleaseError err))
              | ((s, q, free), None) \<Rightarrow>
                 (let state = \<lparr>hosts = hs, quantity = q, average = n div k,
                        permissibleNumber = (if n mod k > 0 then n div k + 1 else n div k)\<rparr> in
                  case runBalancer asn rel list ord (sort_balance (ord_sort ord) state) free s of
                    (b, Some err) \<Rightarrow> (bs_s b, Some (BalancerError err))
                  | (b, None) \<Rightarrow> (bs_s b, None)))))"

section \<open>Partitions of the configs\<close>

text \<open>
  \<open>owned H A\<close> are the configs that hosts of \<open>H\<close> hold in the table \<open>A\<close>;
  \<open>one_host H A\<close> says that no config is held by two of them; \<open>partition_ok\<close> that the
  configs \<open>C\<close> are split between the hosts of \<open>H\<close> and the free set, and that the rest of
  the table is \<open>E\<close>, which holds none of them; \<open>placed_ok\<close> what remains true even after an error.
\<close>

definition owned :: "string set \<Rightarrow> (string \<times> string) set \<Rightarrow> string set" where
  "owned H A = {c. \<exists>h\<in>H. (h, c) \<in> A}"

definition one_host :: "string set \<Rightarrow> (string \<times> string) set \<Rightarrow> bool" where
  "one_host H A \<longleftrightarrow> (\<forall>c. \<forall>h\<in>H. \<forall>h'\<in>H. (h, c) \<in> A \<and> (h', c) \<in> A \<longrightarrow> h = h')"

definition outside :: "string set \<Rightarrow> (string \<times> string) set \<Rightarrow> (string \<times> string) set" where
  "outside H A = {(h, c). (h, c) \<in> A \<and> h \<notin> H}"

definition partition_ok :: "string set \<Rightarrow> string set \<Rightarrow> (string \<times> string) set \<Rightarrow> string list \<Rightarrow>
    (string \<times> string) set \<Rightarrow> bool" where
  "partition_ok H C E free A \<longleftrightarrow> distinct free \<and> one_host H A \<and> owned H A \<union> set free = C \<and>
     owned H A \<inter> set free = {} \<and> outside H A = E \<and> snd ` E \<inter> C = {}"

definition placed_ok :: "string set \<Rightarrow> string set \<Rightarrow> (string \<times> string) set \<Rightarrow> (string \<times> string) set \<Rightarrow> bool" where
  "placed_ok H C E A \<longleftrightarrow> one_host H A \<and> owned H A \<subseteq> C \<and> outside H A = E"

lemma partition_placed: "partition_ok H C E free A \<Longrightarrow> placed_ok H C E A"
  by (auto simp: partition_ok_def placed_ok_def)

lemma placed_everywhere: "placed_ok H C {} A \<Longrightarrow> one_host UNIV A \<and> A \<subseteq> H \<times> C"
proof -
  assume p: "placed_ok H C {} A"
  have H: "h \<in> H \<and> c \<in> C" if "(h, c) \<in> A" for h c
    using p that unfolding placed_ok_def outside_def owned_def by blast
  have "one_host H A" using p by (simp add: placed_ok_def)
  then show ?thesis using H unfolding one_host_def by fast
qed

lemma partition_release:
  assumes "partition_ok H C E free A" and "h \<in> H" and "(h, c) \<in> A"
  shows "partition_ok H C E (set_insert c free) (A - {(h, c)})"
proof -
  have "owned H (A - {(h, c)}) = owned H A - {c}"
    using assms unfolding partition_ok_def one_host_def owned_def by blast
  then show ?thesis
    using assms unfolding partition_ok_def one_host_def set_insert_def outside_def
    by (auto simp: owned_def)
qed

lemma partition_assign:
  assumes "partition_ok H C E free A" and "h \<in> H" and "c \<in> set free"
  shows "partition_ok H C E (removeAll c free) (insert (h, c) A)"
proof -
  have "owned H (insert (h, c) A) = insert c (owned H A)"
    using assms(2) by (auto simp: owned_def)
  moreover have "one_host H (insert (h, c) A)"
    using assms unfolding partition_ok_def one_host_def owned_def by blast
  moreover have "outside H (insert (h, c) A) = outside H A"
    using assms(2) by (auto simp: outside_def)
  ultimately show ?thesis using assms unfolding partition_ok_def by (auto simp: distinct_removeAll)
qed

text \<open>A config of the free set is held by no host at all.\<close>

lemma partition_free:
  assumes "partition_ok H C E free A" and "c \<in> set free"
  shows "c \<notin> snd ` A"
proof
  assume "c \<in> snd ` A"
  then obtain h where hc: "(h, c) \<in> A" by auto
  have "c \<in> C" using assms by (auto simp: partition_ok_def)
  moreover have "h \<in> H \<Longrightarrow> c \<in> owned H A" "h \<notin> H \<Longrightarrow> (h, c) \<in> outside H A"
    using hc by (auto simp: owned_def outside_def)
  ultimately show False using assms unfolding partition_ok_def by force
qed

lemma set_set_insert [simp]: "set (set_insert x xs) = insert x (set xs)"
  by (auto simp: set_insert_def)

lemma set_pick_configs: "set (pick_configs n cfgs) \<subseteq> set cfgs"
  by (induction n cfgs rule: pick_configs.induct) auto

lemma distinct_pick_configs: "distinct cfgs \<Longrightarrow> distinct (pick_configs n cfgs)"
  by (induction n cfgs rule: pick_configs.induct) (use set_pick_configs in fastforce)+

lemma length_pick_configs:
  "length (pick_configs n cfgs) = (if cfgs = [] then 0 else min (length cfgs) (nat (max 1 n)))"
proof (induction n cfgs rule: pick_configs.induct)
  case (2 n cfg cfgs)
  then show ?case by (cases cfgs) auto
qed simp

lemma length_pick_min:
  assumes "cfgs \<noteq> []"
  shows "int (length (pick_configs (go_min (int (length cfgs)) w) cfgs)) = max 1 (min (int (length cfgs)) w)"
proof -
  have "1 \<le> int (length cfgs)" using assms by (cases cfgs) simp_all
  moreover have "0 \<le> max 1 w" by simp
  ultimately show ?thesis using assms by (simp add: length_pick_configs go_min_def)
qed

text \<open>Every order that \<open>sort.Sort\<close> may leave the hosts in is the result of some code.\<close>

lemma sort_balance_complete:
  assumes "mset hs = mset (hosts b)" and "sorted (map (quantity b) hs)"
  shows "\<exists>code. hosts (sort_balance code b) = hs"
proof -
  obtain code where "shuffle code (hosts b) = hs" using shuffle_complete [OF assms(1)] by blast
  then have "hosts (sort_balance code b) = hs"
    using assms(2) by (simp add: sort_balance_def sort_key_id_if_sorted)
  then show ?thesis by blast
qed

lemma sort_balance_hosts:
  "mset (hosts (sort_balance code b)) = mset (hosts b)"
  "sorted (map (quantity b) (hosts (sort_balance code b)))"
  "quantity (sort_balance code b) = quantity b" "average (sort_balance code b) = average b"
  "permissibleNumber (sort_balance code b) = permissibleNumber b"
  by (simp_all add: sort_balance_def)

text \<open>\<open>markDeadNodes\<close>: the dead ones are the hosts of the table that are not alive.\<close>

lemma markDeadNodes_dead: "set (fst (markDeadNodes alive stats)) = fst ` set stats - set alive"
proof (induction alive stats rule: markDeadNodes.induct)
  case (2 alive h n stats)
  then show ?case by (cases "markDeadNodes alive stats") auto
qed simp

lemma markDeadNodes_counts: "map snd (snd (markDeadNodes alive stats)) = map snd stats"
  by (induction alive stats rule: markDeadNodes.induct) (auto split: prod.splits)

section \<open>The scheduler on any store\<close>

text \<open>
  The contract between the scheduler and the cluster: \<open>asn\<close> and \<open>rel\<close> change exactly one
  assignment when they return no error, and at most that one when they return an error (the
  command may or may not have been committed by then). The scheduler assigns only configs that no
  host holds at that moment, so the invariant has to survive only such an assignment.
\<close>

locale cluster_ops =
  fixes inv :: "'s \<Rightarrow> bool"
    and asg :: "'s \<Rightarrow> (string \<times> string) set"
    and list :: "nat list \<Rightarrow> string \<Rightarrow> 's \<Rightarrow> string list"
    and stat :: "nat list \<Rightarrow> 's \<Rightarrow> (string \<times> string) list"
    and asn :: "'s \<Rightarrow> string \<Rightarrow> string \<Rightarrow> 's \<times> 'e option"
    and rel :: "'s \<Rightarrow> string \<Rightarrow> string \<Rightarrow> 's \<times> 'e option"
  assumes set_list: "inv s \<Longrightarrow> set (list ord h s) = {c. (h, c) \<in> asg s}"
    and distinct_list: "inv s \<Longrightarrow> distinct (list ord h s)"
    and stat_hosts: "inv s \<Longrightarrow> fst ` asg s \<subseteq> fst ` set (stat ord s)"
    and asn_inv: "inv s \<Longrightarrow> c \<notin> snd ` asg s \<Longrightarrow> asn s h c = (s', r) \<Longrightarrow> inv s'"
    and asn_ok: "inv s \<Longrightarrow> asn s h c = (s', None) \<Longrightarrow> asg s' = insert (h, c) (asg s)"
    and asn_err: "inv s \<Longrightarrow> asn s h c = (s', Some e) \<Longrightarrow>
      asg s' = asg s \<or> asg s' = insert (h, c) (asg s)"
    and rel_inv: "inv s \<Longrightarrow> rel s h c = (s', r) \<Longrightarrow> inv s'"
    and rel_ok: "inv s \<Longrightarrow> rel s h c = (s', None) \<Longrightarrow> asg s' = asg s - {(h, c)}"
    and rel_err: "inv s \<Longrightarrow> rel s h c = (s', Some e) \<Longrightarrow>
      asg s' = asg s \<or> asg s' = asg s - {(h, c)}"
begin

subsection \<open>Releasing\<close>

lemma release_all_ok:
  assumes "inv s" and "release_all rel h cfgs s = (s', e)"
  shows "inv s' \<and> asg s' \<subseteq> asg s \<and> asg s - {h} \<times> set cfgs \<subseteq> asg s' \<and>
    (e = None \<longrightarrow> asg s' = asg s - {h} \<times> set cfgs)"
  using assms
proof (induction cfgs arbitrary: s)
  case (Cons c cfgs)
  obtain s1 e1 where r: "rel s h c = (s1, e1)" by (cases "rel s h c")
  note i1 = rel_inv [OF Cons.prems(1) r]
  show ?case
  proof (cases e1)
    case None
    then have a1: "asg s1 = asg s - {(h, c)}" using rel_ok Cons.prems(1) r by blast
    have "release_all rel h cfgs s1 = (s', e)" using Cons.prems(2) r None by simp
    note ih = Cons.IH [OF i1 this]
    then show ?thesis unfolding a1 by auto
  next
    case (Some err)
    then have "s' = s1" and "e = Some err" using Cons.prems(2) r by simp_all
    then show ?thesis using rel_err [OF Cons.prems(1), of h c s1 err] i1 r Some by auto
  qed
qed auto

lemma release_dead_ok:
  assumes "inv s" and "release_dead rel list ord i hs s = (s', e)"
  shows "inv s' \<and> asg s' \<subseteq> asg s \<and> asg s - set hs \<times> UNIV \<subseteq> asg s' \<and>
    (e = None \<longrightarrow> asg s' = asg s - set hs \<times> UNIV)"
  using assms
proof (induction hs arbitrary: s i)
  case (Cons h hs)
  obtain s1 e1 where r: "release_all rel h (list (ord i) h s) s = (s1, e1)" by fastforce
  note r1 = release_all_ok [OF Cons.prems(1) r]
  show ?case
  proof (cases e1)
    case None
    then have "asg s1 = asg s - {h} \<times> set (list (ord i) h s)" using r1 by blast
    then have a1: "asg s1 = asg s - {h} \<times> UNIV" unfolding set_list [OF Cons.prems(1)] by blast
    have "release_dead rel list ord (Suc i) hs s1 = (s', e)" using Cons.prems(2) r None by simp
    note ih = Cons.IH [OF conjunct1 [OF r1] this]
    then show ?thesis unfolding a1 by auto
  next
    case (Some err)
    then have "s' = s1" and "e = Some err" using Cons.prems(2) r by simp_all
    moreover have "asg s - set (h # hs) \<times> UNIV \<subseteq> asg s - {h} \<times> set (list (ord i) h s)" by auto
    ultimately show ?thesis using r1 by blast
  qed
qed auto

subsection \<open>Counting\<close>

definition load :: "'s \<Rightarrow> string \<Rightarrow> nat" where
  "load s x = card {c. (x, c) \<in> asg s}"

lemma finite_held: "inv s \<Longrightarrow> finite {c. (x, c) \<in> asg s}"
  using set_list [of s "[]" x] by (metis List.finite_set)

text \<open>
  \<open>T\<close> are the assignments the loops have not looked at yet: without them the table and the
  free set partition the configs, and the counts are exact.
\<close>

lemma count_host_ok:
  assumes "inv s" and "h \<in> H" and "distinct cfgs" and "{h} \<times> set cfgs \<subseteq> asg s"
    and "({h} \<times> set cfgs) \<inter> R = {}" and "finite H"
    and "partition_ok H C E free (asg s - (R \<union> {h} \<times> set cfgs))"
    and "\<And>x. x \<in> H \<Longrightarrow> q x = int (card {c. (x, c) \<in> asg s - (R \<union> {h} \<times> set cfgs)})"
    and "count_host rel h cfgs (s, q, free) = ((s', q', free'), None)"
  shows "inv s' \<and> asg s' \<subseteq> asg s \<and> asg s - {h} \<times> set cfgs \<subseteq> asg s' \<and>
    partition_ok H C E free' (asg s' - R) \<and>
    (\<forall>x\<in>H. q' x = int (card {c. (x, c) \<in> asg s' - R}))"
  using assms
proof (induction cfgs arbitrary: s q free)
  case Nil
  then show ?case by auto
next
  case (Cons c cfgs)
  let ?B = "asg s - (R \<union> {h} \<times> set (c # cfgs))"
  have hc: "(h, c) \<in> asg s" "(h, c) \<notin> R" "c \<notin> set cfgs" using Cons.prems(3-5) by auto
  show ?case
  proof (cases "c \<in> set free")
    case True
    have B: "asg s - (R \<union> {h} \<times> set cfgs) = insert (h, c) ?B" using hc by auto
    have p: "partition_ok H C E (removeAll c free) (asg s - (R \<union> {h} \<times> set cfgs))"
      unfolding B by (rule partition_assign [OF Cons.prems(7,2) True])
    have fin: "finite {c. (x, c) \<in> ?B}" for x
      by (rule finite_subset [OF _ finite_held [OF Cons.prems(1), of x]]) auto
    have "{d. (h, d) \<in> insert (h, c) ?B} = insert c {d. (h, d) \<in> ?B}" by auto
    then have "card {d. (h, d) \<in> insert (h, c) ?B} = Suc (card {d. (h, d) \<in> ?B})"
      using card_insert_disjoint [OF fin, of c h] by simp
    moreover have "{d. (x, d) \<in> insert (h, c) ?B} = {d. (x, d) \<in> ?B}" if "x \<noteq> h" for x
      using that by auto
    ultimately have q: "(q(h := q h + 1)) x = int (card {d. (x, d) \<in> asg s - (R \<union> {h} \<times> set cfgs)})"
      if "x \<in> H" for x
      using Cons.prems(8) [OF that] unfolding B by (cases "x = h") (simp_all only: fun_upd_apply if_True
        if_False simp_thms of_nat_Suc add.commute)
    have r: "count_host rel h cfgs (s, q(h := q h + 1), removeAll c free) = ((s', q', free'), None)"
      using Cons.prems(9) True by simp
    have "inv s' \<and> asg s' \<subseteq> asg s \<and> asg s - {h} \<times> set cfgs \<subseteq> asg s' \<and>
      partition_ok H C E free' (asg s' - R) \<and>
      (\<forall>x\<in>H. q' x = int (card {c. (x, c) \<in> asg s' - R}))"
      by (rule Cons.IH [OF Cons.prems(1,2) _ _ _ Cons.prems(6) p q r]) (use Cons.prems(3-5) in auto)
    then show ?thesis by auto
  next
    case False
    then obtain s1 where r1: "rel s h c = (s1, None)" and
      r: "count_host rel h cfgs (s1, q, free) = ((s', q', free'), None)"
      using Cons.prems(9) by (auto split: prod.splits option.splits)
    note i1 = rel_inv [OF Cons.prems(1) r1]
    note a1 = rel_ok [OF Cons.prems(1) r1]
    have B: "asg s1 - (R \<union> {h} \<times> set cfgs) = ?B" using a1 by auto
    have p: "partition_ok H C E free (asg s1 - (R \<union> {h} \<times> set cfgs))"
      unfolding B by (rule Cons.prems(7))
    have q: "q x = int (card {c. (x, c) \<in> asg s1 - (R \<union> {h} \<times> set cfgs)})" if "x \<in> H" for x
      unfolding B by (rule Cons.prems(8) [OF that])
    have "inv s' \<and> asg s' \<subseteq> asg s1 \<and> asg s1 - {h} \<times> set cfgs \<subseteq> asg s' \<and>
      partition_ok H C E free' (asg s' - R) \<and>
      (\<forall>x\<in>H. q' x = int (card {c. (x, c) \<in> asg s' - R}))"
      by (rule Cons.IH [OF i1 Cons.prems(2) _ _ _ Cons.prems(6) p q r])
        (use Cons.prems(3-5) a1 hc in auto)
    then show ?thesis unfolding a1 by auto
  qed
qed

lemma count_hosts_ok:
  assumes "inv s" and "set hs \<subseteq> H" and "distinct hs" and "finite H"
    and "partition_ok H C E free (asg s - set hs \<times> UNIV)"
    and "\<And>x. x \<in> H \<Longrightarrow> q x = int (card {c. (x, c) \<in> asg s - set hs \<times> UNIV})"
    and "count_hosts rel list ord i hs (s, q, free) = ((s', q', free'), None)"
  shows "inv s' \<and> asg s' \<subseteq> asg s \<and> partition_ok H C E free' (asg s') \<and>
    (\<forall>x\<in>H. q' x = int (load s' x))"
  using assms
proof (induction hs arbitrary: s q free i)
  case Nil
  then show ?case by (auto simp: load_def)
next
  case (Cons h hs)
  let ?cs = "list (ord i) h s" and ?R = "set hs \<times> UNIV"
  obtain s1 q1 free1 where r1: "count_host rel h ?cs (s, q, free) = ((s1, q1, free1), None)"
    and r: "count_hosts rel list ord (Suc i) hs (s1, q1, free1) = ((s', q', free'), None)"
    using Cons.prems(7) by (auto split: prod.splits option.splits)
  have cs: "set ?cs = {c. (h, c) \<in> asg s}" by (rule set_list [OF Cons.prems(1)])
  have B: "asg s - (?R \<union> {h} \<times> set ?cs) = asg s - set (h # hs) \<times> UNIV" using cs by auto
  have p: "partition_ok H C E free (asg s - (?R \<union> {h} \<times> set ?cs))"
    unfolding B by (rule Cons.prems(5))
  have q: "q x = int (card {c. (x, c) \<in> asg s - (?R \<union> {h} \<times> set ?cs)})" if "x \<in> H" for x
    unfolding B by (rule Cons.prems(6) [OF that])
  have "inv s1 \<and> asg s1 \<subseteq> asg s \<and> asg s - {h} \<times> set ?cs \<subseteq> asg s1 \<and>
      partition_ok H C E free1 (asg s1 - ?R) \<and> (\<forall>x\<in>H. q1 x = int (card {c. (x, c) \<in> asg s1 - ?R}))"
    by (rule count_host_ok [OF Cons.prems(1) _ distinct_list [OF Cons.prems(1)] _ _ Cons.prems(4) p q r1])
      (use Cons.prems(2,3) cs in auto)
  then have s1: "inv s1" "asg s1 \<subseteq> asg s" "partition_ok H C E free1 (asg s1 - ?R)"
    "\<And>x. x \<in> H \<Longrightarrow> q1 x = int (card {c. (x, c) \<in> asg s1 - ?R})" by blast+
  have "inv s' \<and> asg s' \<subseteq> asg s1 \<and> partition_ok H C E free' (asg s') \<and>
      (\<forall>x\<in>H. q' x = int (load s' x))"
    by (rule Cons.IH [OF s1(1) _ _ Cons.prems(4) s1(3,4) r]) (use Cons.prems(2,3) in auto)
  then show ?case using s1(2) by blast
qed

text \<open>Whatever happens, the counting loops only remove assignments of the hosts they visit.\<close>

lemma count_host_sub:
  assumes "inv s" and "count_host rel h cfgs (s, q, free) = ((s', q', free'), e)"
  shows "inv s' \<and> asg s' \<subseteq> asg s \<and> asg s - {h} \<times> UNIV \<subseteq> asg s'"
  using assms
proof (induction cfgs arbitrary: s q free)
  case (Cons c cfgs)
  show ?case
  proof (cases "c \<in> set free")
    case True
    then show ?thesis using Cons.IH [OF Cons.prems(1)] Cons.prems(2) by simp
  next
    case False
    obtain s1 e1 where r: "rel s h c = (s1, e1)" by (cases "rel s h c")
    note i1 = rel_inv [OF Cons.prems(1) r]
    have a1: "asg s1 \<subseteq> asg s \<and> asg s - {h} \<times> UNIV \<subseteq> asg s1"
      using rel_ok [OF Cons.prems(1), of h c s1] rel_err [OF Cons.prems(1), of h c s1] r
      by (cases e1) auto
    show ?thesis
    proof (cases e1)
      case None
      then have "count_host rel h cfgs (s1, q, free) = ((s', q', free'), e)"
        using Cons.prems(2) False r by simp
      from Cons.IH [OF i1 this] show ?thesis using a1 by blast
    next
      case (Some err)
      then have "s' = s1" using Cons.prems(2) False r by simp
      then show ?thesis using a1 i1 by blast
    qed
  qed
qed auto

lemma count_hosts_sub:
  assumes "inv s" and "count_hosts rel list ord i hs (s, q, free) = ((s', q', free'), e)"
  shows "inv s' \<and> asg s' \<subseteq> asg s \<and> asg s - set hs \<times> UNIV \<subseteq> asg s'"
  using assms
proof (induction hs arbitrary: s q free i)
  case (Cons h hs)
  obtain s1 q1 free1 e1 where
    r: "count_host rel h (list (ord i) h s) (s, q, free) = ((s1, q1, free1), e1)"
    by (metis surj_pair)
  note c1 = count_host_sub [OF Cons.prems(1) r]
  show ?case
  proof (cases e1)
    case None
    then have "count_hosts rel list ord (Suc i) hs (s1, q1, free1) = ((s', q', free'), e)"
      using Cons.prems(2) r by simp
    from Cons.IH [OF conjunct1 [OF c1] this] show ?thesis using c1 by auto
  next
    case (Some err)
    then have "s' = s1" using Cons.prems(2) r by simp
    then show ?thesis using c1 by auto
  qed
qed auto

subsection \<open>Balancing\<close>

lemma load_insert:
  assumes "inv s'" and "asg s' = insert (h, c) (asg s)" and "(h, c) \<notin> asg s"
  shows "load s' x = (if x = h then Suc (load s x) else load s x)"
proof -
  have "{d. (h, d) \<in> asg s'} = insert c {d. (h, d) \<in> asg s}" using assms(2) by auto
  moreover have "finite {d. (h, d) \<in> asg s}"
    by (rule finite_subset [OF _ finite_held [OF assms(1), of h]]) (use assms(2) in auto)
  moreover have "{d. (x, d) \<in> asg s'} = {d. (x, d) \<in> asg s}" if "x \<noteq> h" using assms(2) that by auto
  ultimately show ?thesis using assms(3) by (simp add: load_def)
qed

lemma load_remove:
  assumes "inv s" and "asg s' = asg s - {(h, c)}" and "(h, c) \<in> asg s"
  shows "load s' x = (if x = h then load s x - 1 else load s x) \<and> 0 < load s h"
proof -
  have "{d. (h, d) \<in> asg s'} = {d. (h, d) \<in> asg s} - {c}" using assms(2) by auto
  moreover have "{d. (x, d) \<in> asg s'} = {d. (x, d) \<in> asg s}" if "x \<noteq> h" using assms(2) that by auto
  moreover have "0 < load s h" unfolding load_def card_gt_0_iff using assms(1,3) finite_held by blast
  ultimately show ?thesis using assms(3) finite_held [OF assms(1)] by (simp add: load_def)
qed

text \<open>
  The invariant of the loop. \<open>k\<close> is the average: a count is never more than the load, and
  taking configs from a host never brings its count below the average.
\<close>

definition bal_ok :: "string set \<Rightarrow> string set \<Rightarrow> (string \<times> string) set \<Rightarrow> 's bstate \<Rightarrow> bool" where
  "bal_ok H C E b \<longleftrightarrow> inv (bs_s b) \<and> partition_ok H C E (bs_free b) (asg (bs_s b)) \<and>
     (\<forall>x\<in>H. bs_q b x \<le> int (load (bs_s b) x))"

lemma release_some_ok:
  assumes "bal_ok H C E b" and "h \<in> H" and "distinct cfgs" and "{h} \<times> set cfgs \<subseteq> asg (bs_s b)"
    and "release_some rel h m cfgs b = (b', None)" and "0 \<le> m"
  shows "bal_ok H C E b' \<and> bs_over b' = bs_over b \<and> bs_idx b' = bs_idx b \<and>
    (\<exists>k. int k \<le> m \<and> length (bs_free b') = length (bs_free b) + k \<and>
      bs_q b' = (bs_q b)(h := bs_q b h - int k) \<and>
      (\<forall>x. load (bs_s b') x = (if x = h then load (bs_s b) x - k else load (bs_s b) x)))"
  using assms
proof (induction cfgs arbitrary: b m)
  case Nil
  then show ?case by (auto intro: exI [of _ 0])
next
  case (Cons c cfgs)
  show ?case
  proof (cases "m - 1 < 0")
    case True
    then show ?thesis using Cons.prems by (auto intro: exI [of _ 0])
  next
    case False
    define b1 where "b1 s = b\<lparr>bs_s := s, bs_free := set_insert c (bs_free b),
      bs_q := (bs_q b)(h := bs_q b h - 1)\<rparr>" for s
    obtain s1 where r1: "rel (bs_s b) h c = (s1, None)" and
      r: "release_some rel h (m - 1) cfgs (b1 s1) = (b', None)"
      using Cons.prems(5) False by (auto simp: b1_def split: prod.splits option.splits)
    have inv: "inv (bs_s b)" and p: "partition_ok H C E (bs_free b) (asg (bs_s b))"
      and q: "\<forall>x\<in>H. bs_q b x \<le> int (load (bs_s b) x)"
      using Cons.prems(1) by (simp_all add: bal_ok_def)
    have hc: "(h, c) \<in> asg (bs_s b)" using Cons.prems(4) by simp
    note i1 = rel_inv [OF inv r1]
    note a1 = rel_ok [OF inv r1]
    note l1 = load_remove [OF inv a1 hc]
    have "c \<notin> set (bs_free b)"
      using p hc Cons.prems(2) unfolding partition_ok_def owned_def by blast
    then have len: "length (bs_free (b1 s1)) = Suc (length (bs_free b))"
      by (simp add: b1_def set_insert_def)
    have ok: "bal_ok H C E (b1 s1)"
      using i1 partition_release [OF p Cons.prems(2) hc] q l1
      unfolding bal_ok_def b1_def by (auto simp: a1)
    have sub: "{h} \<times> set cfgs \<subseteq> asg (bs_s (b1 s1))"
      using Cons.prems(3,4) unfolding b1_def by (auto simp: a1)
    have d: "distinct cfgs" and m: "0 \<le> m - 1" using Cons.prems(3) False by auto
    obtain k where k: "int k \<le> m - 1" "length (bs_free b') = length (bs_free (b1 s1)) + k"
      "bs_q b' = (bs_q (b1 s1))(h := bs_q (b1 s1) h - int k)"
      "\<And>x. load (bs_s b') x = (if x = h then load (bs_s (b1 s1)) x - k else load (bs_s (b1 s1)) x)"
      and rest: "bal_ok H C E b'" "bs_over b' = bs_over (b1 s1)" "bs_idx b' = bs_idx (b1 s1)"
      using Cons.IH [OF ok Cons.prems(2) d sub r m] by blast
    have "int (Suc k) \<le> m" using k(1) by simp
    moreover have "bs_q b' = (bs_q b)(h := bs_q b h - int (Suc k))" unfolding k(3) by (simp add: b1_def fun_eq_iff)
    moreover have "load (bs_s b') x = (if x = h then load (bs_s b) x - Suc k else load (bs_s b) x)" for x
      using l1 k(4) [of x] by (simp add: b1_def)
    ultimately show ?thesis using k(2) len rest by (auto simp: b1_def intro!: exI [of _ "Suc k"])
  qed
qed

lemma assign_some_ok:
  assumes "inv (bs_s b)" and "partition_ok H C E (bs_free b) (asg (bs_s b))" and "h \<in> H"
    and "distinct cfgs" and "set cfgs \<subseteq> set (bs_free b)" and "assign_some asn h cfgs b = (b', None)"
  shows "inv (bs_s b') \<and> partition_ok H C E (bs_free b') (asg (bs_s b')) \<and> bs_q b' = bs_q b \<and>
    bs_over b' = bs_over b \<and> bs_idx b' = bs_idx b \<and> asg (bs_s b) \<subseteq> asg (bs_s b') \<and>
    length (bs_free b') = length (bs_free b) - length cfgs \<and>
    (\<forall>x. load (bs_s b') x = (if x = h then load (bs_s b) x + length cfgs else load (bs_s b) x))"
  using assms
proof (induction cfgs arbitrary: b)
  case Nil
  then show ?case by auto
next
  case (Cons c cfgs)
  define b1 where "b1 s = b\<lparr>bs_s := s, bs_free := removeAll c (bs_free b)\<rparr>" for s
  obtain s1 where r1: "asn (bs_s b) h c = (s1, None)" and
    r: "assign_some asn h cfgs (b1 s1) = (b', None)"
    using Cons.prems(6) by (auto simp: b1_def split: prod.splits option.splits)
  have c: "c \<in> set (bs_free b)" using Cons.prems(5) by simp
  note i1 = asn_inv [OF Cons.prems(1) partition_free [OF Cons.prems(2) c] r1]
  note a1 = asn_ok [OF Cons.prems(1) r1]
  have "(h, c) \<notin> asg (bs_s b)"
    using Cons.prems(2,3) c unfolding partition_ok_def owned_def by blast
  note l1 = load_insert [OF i1 a1 this]
  have d: "distinct (bs_free b)" using Cons.prems(2) by (simp add: partition_ok_def)
  have p1: "partition_ok H C E (bs_free (b1 s1)) (asg (bs_s (b1 s1)))"
    using partition_assign [OF Cons.prems(2,3) c] by (simp add: b1_def a1)
  have ih: "inv (bs_s b') \<and> partition_ok H C E (bs_free b') (asg (bs_s b')) \<and> bs_q b' = bs_q (b1 s1) \<and>
    bs_over b' = bs_over (b1 s1) \<and> bs_idx b' = bs_idx (b1 s1) \<and> asg (bs_s (b1 s1)) \<subseteq> asg (bs_s b') \<and>
    length (bs_free b') = length (bs_free (b1 s1)) - length cfgs \<and>
    (\<forall>x. load (bs_s b') x =
      (if x = h then load (bs_s (b1 s1)) x + length cfgs else load (bs_s (b1 s1)) x))"
    by (rule Cons.IH [OF _ p1 Cons.prems(3) _ _ r]) (use Cons.prems(4,5) i1 in \<open>auto simp: b1_def\<close>)
  have len: "length (bs_free (b1 s1)) = length (bs_free b) - 1"
    using length_removeAll_distinct [OF d c] by (simp add: b1_def)
  show ?case using ih len l1 a1 by (auto simp: b1_def)
qed

definition over_ok :: "balance \<Rightarrow> 's bstate \<Rightarrow> bool" where
  "over_ok st b \<longleftrightarrow> bs_over b \<in> set (hosts st) \<and> 0 \<le> bs_idx b \<and> bs_idx b < int (length (hosts st))"

lemma plan_round_ok:
  assumes "over_ok st b" and "plan_round st h b = (b', w, r)"
  shows "over_ok st b'" and "bs_s b' = bs_s b" and "bs_q b' = bs_q b" and "bs_free b' = bs_free b"
    and "average st - bs_q b h \<le> w" and "0 < r \<Longrightarrow> r \<le> w \<and> r \<le> bs_q b (bs_over b') - average st"
proof -
  define w1 where "w1 = (if average st - bs_q b h = 0 \<and> int (length (bs_free b)) > 0
    then int (length (bs_free b)) div int (length (hosts st)) else average st - bs_q b h)"
  have w1: "average st - bs_q b h \<le> w1" by (simp add: w1_def div_int_pos_iff)
  have b': "b' = (if bs_q b (bs_over b) - permissibleNumber st \<le> 0 \<and> bs_idx b > 0
      then b\<lparr>bs_over := hosts st ! nat (bs_idx b), bs_idx := bs_idx b - 1\<rparr> else b)"
    using assms(2) by (simp add: plan_round_def Let_def)
  then have "bs_q b' = bs_q b" by simp
  then have w: "w = (if w1 = 0 \<and> bs_q b (bs_over b') - average st > 1 then 1 else w1)"
    and r: "r = go_min (bs_q b (bs_over b') - average st) w"
    using assms(2) unfolding plan_round_def Let_def b' [symmetric] w1_def [symmetric] by auto
  show "over_ok st b'" using assms(1) b' by (auto simp: over_ok_def nat_less_iff)
  show "bs_s b' = bs_s b" "bs_q b' = bs_q b" "bs_free b' = bs_free b" using b' by simp_all
  show "average st - bs_q b h \<le> w" using w w1 by (simp split: if_splits)
  show "0 < r \<Longrightarrow> r \<le> w \<and> r \<le> bs_q b (bs_over b') - average st"
    using r by (simp add: go_min_def split: if_splits)
qed

text \<open>
  What one round does when no command fails: \<open>k\<close> configs move from \<open>over\<close> to the free
  set, then \<open>m\<close> configs of the free set go to \<open>h\<close>, at least one if there is one.
\<close>

lemma release_phase:
  assumes b: "bal_ok H C E b" and over: "bs_over b \<in> H"
    and r: "(if tr > 0 then release_some rel (bs_over b) tr (list oover (bs_over b) (bs_s b)) b
      else (b, None)) = (b', None)"
  shows "bal_ok H C E b' \<and> bs_over b' = bs_over b \<and> bs_idx b' = bs_idx b \<and>
    (\<exists>k. int k \<le> max 0 tr \<and> length (bs_free b') = length (bs_free b) + k \<and>
      bs_q b' = (bs_q b)(bs_over b := bs_q b (bs_over b) - int k) \<and>
      (\<forall>x. load (bs_s b') x = (if x = bs_over b then load (bs_s b) x - k else load (bs_s b) x)))"
proof (cases "tr > 0")
  case True
  have inv: "inv (bs_s b)" using b by (simp add: bal_ok_def)
  have d: "distinct (list oover (bs_over b) (bs_s b))"
    "{bs_over b} \<times> set (list oover (bs_over b) (bs_s b)) \<subseteq> asg (bs_s b)"
    using set_list [OF inv, of oover "bs_over b"] distinct_list [OF inv] by auto
  have rs: "release_some rel (bs_over b) tr (list oover (bs_over b) (bs_s b)) b = (b', None)"
    using r True by simp
  have m: "max 0 tr = tr" and "0 \<le> tr" using True by simp_all
  show ?thesis unfolding m by (rule release_some_ok [OF b over d rs \<open>0 \<le> tr\<close>])
next
  case False
  then have "b' = b" using r by simp
  then show ?thesis using b by (auto intro!: exI [of _ 0])
qed

lemma balance_host_effect:
  assumes H: "H = set (hosts st)" and b: "bal_ok H C E b" "over_ok st b" and h: "h \<in> H"
    and r: "balance_host asn rel list st oover ofree h b = (b', None)"
  obtains over k w m where "bal_ok H C E b'" and "over_ok st b'" and "over \<in> H"
    and "0 < k \<longrightarrow> int k \<le> w \<and> int k \<le> bs_q b over - average st"
    and "average st - bs_q b h \<le> w" and "m \<le> length (bs_free b) + k"
    and "0 < length (bs_free b) + k \<longrightarrow> int m = max 1 (min (int (length (bs_free b) + k)) w)"
    and "length (bs_free b') = length (bs_free b) + k - m"
    and "\<forall>x. load (bs_s b') x =
      load (bs_s b) x - (if x = over then k else 0) + (if x = h then m else 0)"
proof -
  obtain b1 w tr where p: "plan_round st h b = (b1, w, tr)" by (metis surj_pair)
  note p1 = plan_round_ok [OF b(2) p]
  have b1: "bal_ok H C E b1" using b(1) p1 by (simp add: bal_ok_def)
  have over: "bs_over b1 \<in> H" using p1(1) H by (simp add: over_ok_def)
  obtain b2 where r2: "(if tr > 0 then release_some rel (bs_over b1) tr
      (list oover (bs_over b1) (bs_s b1)) b1 else (b1, None)) = (b2, None)"
    and r3: "assign_some asn h (pick_configs (go_min (int (length (bs_free b2))) w)
      (shuffle ofree (bs_free b2))) b2 = (b', None)"
    using r unfolding balance_host_def p by (auto simp: Let_def split: prod.splits option.splits if_splits)
  obtain k where k: "int k \<le> max 0 tr" "length (bs_free b2) = length (bs_free b1) + k"
      "bs_q b2 = (bs_q b1)(bs_over b1 := bs_q b1 (bs_over b1) - int k)"
      "\<And>x. load (bs_s b2) x = (if x = bs_over b1 then load (bs_s b1) x - k else load (bs_s b1) x)"
    and b2: "bal_ok H C E b2" "bs_over b2 = bs_over b1" "bs_idx b2 = bs_idx b1"
    using release_phase [OF b1 over r2] by blast
  let ?ps = "pick_configs (go_min (int (length (bs_free b2))) w) (shuffle ofree (bs_free b2))"
  have inv2: "inv (bs_s b2)" and part2: "partition_ok H C E (bs_free b2) (asg (bs_s b2))"
    and q2: "\<forall>x\<in>H. bs_q b2 x \<le> int (load (bs_s b2) x)" using b2(1) by (simp_all add: bal_ok_def)
  have "distinct ?ps" using part2 by (intro distinct_pick_configs) (simp add: partition_ok_def)
  moreover have "set ?ps \<subseteq> set (bs_free b2)" using set_pick_configs by (metis set_shuffle)
  ultimately have a: "inv (bs_s b') \<and> partition_ok H C E (bs_free b') (asg (bs_s b')) \<and> bs_q b' = bs_q b2 \<and>
    bs_over b' = bs_over b2 \<and> bs_idx b' = bs_idx b2 \<and> asg (bs_s b2) \<subseteq> asg (bs_s b') \<and>
    length (bs_free b') = length (bs_free b2) - length ?ps \<and>
    (\<forall>x. load (bs_s b') x = (if x = h then load (bs_s b2) x + length ?ps else load (bs_s b2) x))"
    by (intro assign_some_ok [OF inv2 part2 h _ _ r3])
  have "bs_q b' x \<le> int (load (bs_s b') x)" if "x \<in> H" for x using q2 a that by fastforce
  then have ok: "bal_ok H C E b'" using a unfolding bal_ok_def by blast
  have al: "load (bs_s b') x = (if x = h then load (bs_s b2) x + length ?ps else load (bs_s b2) x)" for x
    using a by blast
  have len: "length (bs_free b2) = length (bs_free b) + k" using k(2) p1(4) by simp
  show thesis
  proof (rule that [OF ok _ over, of k w "length ?ps"])
    show "over_ok st b'" using a b2 p1(1) by (simp add: over_ok_def)
    show "0 < k \<longrightarrow> int k \<le> w \<and> int k \<le> bs_q b (bs_over b1) - average st"
      using k(1) p1(6) by linarith
    show "average st - bs_q b h \<le> w" by (rule p1(5))
    show "length ?ps \<le> length (bs_free b) + k" using len by (simp add: length_pick_configs)
    show "0 < length (bs_free b) + k \<longrightarrow>
        int (length ?ps) = max 1 (min (int (length (bs_free b) + k)) w)"
      using len length_pick_min [of "shuffle ofree (bs_free b2)" w] by (cases "bs_free b2") auto
    show "length (bs_free b') = length (bs_free b) + k - length ?ps" using a len by simp
    show "\<forall>x. load (bs_s b') x = load (bs_s b) x - (if x = bs_over b1 then k else 0) +
        (if x = h then length ?ps else 0)"
      unfolding al k(4) p1(2) by simp
  qed
qed

text \<open>
  Once no config is free none ever is again; and as long as one is free, every host that has had
  its round holds at least the average.
\<close>

lemma balance_host_ok:
  assumes H: "H = set (hosts st)" and b: "bal_ok H C E b" "over_ok st b" and h: "h \<in> H"
    and D: "D \<subseteq> H" "bs_free b \<noteq> [] \<Longrightarrow> \<forall>x\<in>D. average st \<le> int (load (bs_s b) x)"
    and r: "balance_host asn rel list st oover ofree h b = (b', None)"
  shows "bal_ok H C E b' \<and> over_ok st b' \<and>
    (bs_free b' \<noteq> [] \<longrightarrow> (\<forall>x\<in>insert h D. average st \<le> int (load (bs_s b') x)))"
proof -
  obtain over k w m where ok: "bal_ok H C E b'" "over_ok st b'"
    and k: "over \<in> H" "0 < k \<longrightarrow> int k \<le> w \<and> int k \<le> bs_q b over - average st"
    and w: "average st - bs_q b h \<le> w"
    and m: "m \<le> length (bs_free b) + k"
      "0 < length (bs_free b) + k \<longrightarrow> int m = max 1 (min (int (length (bs_free b) + k)) w)"
    and f: "length (bs_free b') = length (bs_free b) + k - m"
    and l: "\<forall>x. load (bs_s b') x =
      load (bs_s b) x - (if x = over then k else 0) + (if x = h then m else 0)"
    by (rule balance_host_effect [OF H b h r])
  have q: "bs_q b x \<le> int (load (bs_s b) x)" if "x \<in> H" for x
    using b(1) that by (simp add: bal_ok_def)
  have "average st \<le> int (load (bs_s b') x)" if f': "bs_free b' \<noteq> []" and x: "x \<in> insert h D" for x
  proof -
    have "0 < length (bs_free b')" using f' by simp
    then have "m < length (bs_free b) + k" using f by simp
    then have m': "w \<le> int m" using m(2) by linarith
    have free: "bs_free b \<noteq> []"
    proof
      assume "bs_free b = []"
      then show False using \<open>m < length (bs_free b) + k\<close> m(2) k(2) by auto
    qed
    show ?thesis
    proof (cases "x = over \<and> 0 < k")
      case True
      then show ?thesis using l k(2) q [OF k(1)] by auto
    next
      case False
      then show ?thesis using l m' w q [OF h] D(2) [OF free] x by (cases "x = h") auto
    qed
  qed
  then show ?thesis using ok by blast
qed

lemma balance_hosts_ok:
  assumes "H = set (hosts st)" and "bal_ok H C E b" and "over_ok st b" and "set hs \<subseteq> H"
    and "D \<subseteq> H" and "bs_free b \<noteq> [] \<Longrightarrow> \<forall>x\<in>D. average st \<le> int (load (bs_s b) x)"
    and "balance_hosts asn rel list st ord i hs b = (b', None)"
  shows "bal_ok H C E b' \<and>
    (bs_free b' \<noteq> [] \<longrightarrow> (\<forall>x\<in>set hs \<union> D. average st \<le> int (load (bs_s b') x)))"
  using assms
proof (induction hs arbitrary: b i D)
  case Nil
  then show ?case by auto
next
  case (Cons h hs)
  obtain b1 where r1: "balance_host asn rel list st (ord_over ord i) (ord_free ord i) h b = (b1, None)"
    and r: "balance_hosts asn rel list st ord (Suc i) hs b1 = (b', None)"
    using Cons.prems(7) by (auto split: prod.splits option.splits)
  have h: "h \<in> H" using Cons.prems(4) by simp
  note b1 = balance_host_ok [OF Cons.prems(1-3) h Cons.prems(5,6) r1]
  have "bal_ok H C E b' \<and>
    (bs_free b' \<noteq> [] \<longrightarrow> (\<forall>x\<in>set hs \<union> insert h D. average st \<le> int (load (bs_s b') x)))"
    by (rule Cons.IH [OF Cons.prems(1) _ _ _ _ _ r]) (use b1 Cons.prems(4,5) in auto)
  then show ?case by simp
qed

subsection \<open>What an error leaves\<close>

lemma release_some_sub:
  assumes "inv (bs_s b)" and "release_some rel h m cfgs b = (b', e)"
  shows "inv (bs_s b') \<and> asg (bs_s b') \<subseteq> asg (bs_s b) \<and>
    asg (bs_s b) - {h} \<times> UNIV \<subseteq> asg (bs_s b')"
  using assms
proof (induction cfgs arbitrary: b m)
  case (Cons c cfgs)
  show ?case
  proof (cases "m - 1 < 0")
    case True
    then show ?thesis using Cons.prems by simp
  next
    case False
    obtain s1 e1 where r: "rel (bs_s b) h c = (s1, e1)" by (cases "rel (bs_s b) h c")
    note i1 = rel_inv [OF Cons.prems(1) r]
    have a1: "asg s1 \<subseteq> asg (bs_s b) \<and> asg (bs_s b) - {h} \<times> UNIV \<subseteq> asg s1"
      using rel_ok [OF Cons.prems(1), of h c s1] rel_err [OF Cons.prems(1), of h c s1] r
      by (cases e1) auto
    show ?thesis
    proof (cases e1)
      case None
      let ?b1 = "b\<lparr>bs_s := s1, bs_free := set_insert c (bs_free b), bs_q := (bs_q b)(h := bs_q b h - 1)\<rparr>"
      have "release_some rel h (m - 1) cfgs ?b1 = (b', e)" using Cons.prems(2) False r None by simp
      from Cons.IH [OF _ this] show ?thesis using a1 i1 by fastforce
    next
      case (Some err)
      then have "bs_s b' = s1" using Cons.prems(2) False r by auto
      then show ?thesis using a1 i1 by simp
    qed
  qed
qed auto

lemma assign_some_placed:
  assumes "inv (bs_s b)" and "partition_ok H C E (bs_free b) (asg (bs_s b))" and "h \<in> H"
    and "distinct cfgs" and "set cfgs \<subseteq> set (bs_free b)" and "assign_some asn h cfgs b = (b', e)"
  shows "inv (bs_s b') \<and> placed_ok H C E (asg (bs_s b'))"
  using assms
proof (induction cfgs arbitrary: b)
  case Nil
  then show ?case by (auto simp: partition_placed)
next
  case (Cons c cfgs)
  obtain s1 e1 where r: "asn (bs_s b) h c = (s1, e1)" by (cases "asn (bs_s b) h c")
  have c: "c \<in> set (bs_free b)" using Cons.prems(5) by simp
  note i1 = asn_inv [OF Cons.prems(1) partition_free [OF Cons.prems(2) c] r]
  note p1 = partition_assign [OF Cons.prems(2,3) c]
  show ?case
  proof (cases e1)
    case None
    let ?b1 = "b\<lparr>bs_s := s1, bs_free := removeAll c (bs_free b)\<rparr>"
    have a1: "asg s1 = insert (h, c) (asg (bs_s b))" using asn_ok Cons.prems(1) r None by blast
    have r': "assign_some asn h cfgs ?b1 = (b', e)" using Cons.prems(6) r None by simp
    have p: "partition_ok H C E (bs_free ?b1) (asg (bs_s ?b1))" using p1 by (simp add: a1)
    show ?thesis
      by (rule Cons.IH [OF _ p Cons.prems(3) _ _ r']) (use i1 Cons.prems(4,5) in auto)
  next
    case (Some err)
    then have "bs_s b' = s1" using Cons.prems(6) r by auto
    moreover have "asg s1 = asg (bs_s b) \<or> asg s1 = insert (h, c) (asg (bs_s b))"
      using asn_err [OF Cons.prems(1)] r Some by blast
    ultimately show ?thesis
      using i1 partition_placed [OF p1] partition_placed [OF Cons.prems(2)] by auto
  qed
qed

lemma placed_release:
  assumes "placed_ok H C E A" and "h \<in> H" and "A' \<subseteq> A" and "A - {h} \<times> UNIV \<subseteq> A'"
  shows "placed_ok H C E A'"
proof -
  have "outside H A' = outside H A" using assms(2-4) unfolding outside_def by blast
  then show ?thesis using assms(1,3) unfolding placed_ok_def one_host_def owned_def by blast
qed

lemma balance_host_placed:
  assumes H: "H = set (hosts st)" and b: "bal_ok H C E b" "over_ok st b" and h: "h \<in> H"
    and r: "balance_host asn rel list st oover ofree h b = (b', e)"
  shows "inv (bs_s b') \<and> placed_ok H C E (asg (bs_s b'))"
proof -
  obtain b1 w tr where p: "plan_round st h b = (b1, w, tr)" by (metis surj_pair)
  note p1 = plan_round_ok [OF b(2) p]
  have b1: "bal_ok H C E b1" using b(1) p1 by (simp add: bal_ok_def)
  have over: "bs_over b1 \<in> H" using p1(1) H by (simp add: over_ok_def)
  obtain b2 e2 where r2: "(if tr > 0 then release_some rel (bs_over b1) tr
      (list oover (bs_over b1) (bs_s b1)) b1 else (b1, None)) = (b2, e2)" by (metis surj_pair)
  show ?thesis
  proof (cases e2)
    case None
    then have r2': "(if tr > 0 then release_some rel (bs_over b1) tr
      (list oover (bs_over b1) (bs_s b1)) b1 else (b1, None)) = (b2, None)" using r2 by simp
    have b2: "inv (bs_s b2)" "partition_ok H C E (bs_free b2) (asg (bs_s b2))"
      using release_phase [OF b1 over r2'] by (auto simp: bal_ok_def)
    let ?ps = "pick_configs (go_min (int (length (bs_free b2))) w) (shuffle ofree (bs_free b2))"
    have "assign_some asn h ?ps b2 = (b', e)"
      using r unfolding balance_host_def p by (simp add: r2' Let_def)
    moreover have "distinct ?ps" using b2(2) by (intro distinct_pick_configs) (simp add: partition_ok_def)
    moreover have "set ?ps \<subseteq> set (bs_free b2)" using set_pick_configs by (metis set_shuffle)
    ultimately show ?thesis using assign_some_placed [OF b2 h] by blast
  next
    case (Some err)
    then have "tr > 0" and "release_some rel (bs_over b1) tr
      (list oover (bs_over b1) (bs_s b1)) b1 = (b2, e2)" using r2 by (auto split: if_splits)
    moreover have "b' = b2" using r unfolding balance_host_def p by (simp add: r2 Some Let_def)
    ultimately show ?thesis
      using release_some_sub [of b1] b1 over placed_release partition_placed
      unfolding bal_ok_def by metis
  qed
qed

lemma balance_hosts_placed:
  assumes "H = set (hosts st)" and "bal_ok H C E b" and "over_ok st b" and "set hs \<subseteq> H"
    and "balance_hosts asn rel list st ord i hs b = (b', e)"
  shows "inv (bs_s b') \<and> placed_ok H C E (asg (bs_s b'))"
  using assms
proof (induction hs arbitrary: b i)
  case Nil
  then show ?case by (auto simp: bal_ok_def partition_placed)
next
  case (Cons h hs)
  obtain b1 e1 where r1: "balance_host asn rel list st (ord_over ord i) (ord_free ord i) h b = (b1, e1)"
    by (metis surj_pair)
  have h: "h \<in> H" using Cons.prems(4) by simp
  show ?case
  proof (cases e1)
    case None
    have "bal_ok H C E b1 \<and> over_ok st b1"
      using balance_host_ok [OF Cons.prems(1-3) h, of "{}"] r1 None by blast
    moreover have "balance_hosts asn rel list st ord (Suc i) hs b1 = (b', e)"
      using Cons.prems(5) r1 None by simp
    moreover have "set hs \<subseteq> H" using Cons.prems(4) by simp
    ultimately show ?thesis using Cons.IH [OF Cons.prems(1)] by blast
  next
    case (Some err)
    then have "b' = b1" using Cons.prems(5) r1 by simp
    then show ?thesis using balance_host_placed [OF Cons.prems(1-3) h r1] by simp
  qed
qed

subsection \<open>The whole tick\<close>

lemma sum_load:
  assumes "inv s" and "finite H" and "one_host H (asg s)"
  shows "card (owned H (asg s)) = (\<Sum>x\<in>H. load s x)"
proof -
  have "owned H (asg s) = (\<Union>x\<in>H. {c. (x, c) \<in> asg s})" by (auto simp: owned_def)
  moreover have "card (\<Union>x\<in>H. {c. (x, c) \<in> asg s}) = (\<Sum>x\<in>H. card {c. (x, c) \<in> asg s})"
    by (rule card_UN_disjoint)
      (use assms finite_held [OF assms(1)] in \<open>auto simp: one_host_def\<close>)
  ultimately show ?thesis by (simp add: load_def)
qed

lemma over_ok_start:
  assumes "hosts st \<noteq> []" and "bs_idx b = int (length (hosts st)) - 1"
    and "bs_over b = hosts st ! nat (int (length (hosts st)) - 1)"
  shows "over_ok st b"
proof -
  have "0 < length (hosts st)" using assms(1) by simp
  then have "nat (int (length (hosts st)) - 1) < length (hosts st)" by linarith
  then show ?thesis using assms nth_mem by (auto simp: over_ok_def)
qed

lemma runBalancer_ok:
  assumes st: "hosts st \<noteq> []" "distinct (hosts st)" and H: "H = set (hosts st)"
    and C: "finite C" "card C \<le> n" "average st = int n div int (length (hosts st))"
    and s: "inv s" "partition_ok H C E free (asg s)"
    and q: "\<And>x. x \<in> H \<Longrightarrow> quantity st x = int (load s x)"
    and r: "runBalancer asn rel list ord st free s = (b', None)"
  shows "inv (bs_s b') \<and> partition_ok H C E (bs_free b') (asg (bs_s b')) \<and>
    length (bs_free b') \<le> n mod length (hosts st)"
proof -
  let ?k = "length (hosts st)"
  let ?b = "\<lparr>bs_s = s, bs_idx = int ?k - 1, bs_over = hosts st ! nat (int ?k - 1),
    bs_q = quantity st, bs_free = free\<rparr>"
  have "bal_ok H C E ?b" using s q by (simp add: bal_ok_def)
  moreover have "over_ok st ?b" by (rule over_ok_start [OF st(1)]) simp_all
  moreover have "balance_hosts asn rel list st ord 0 (hosts st) ?b = (b', None)"
    using r by (simp add: runBalancer_def Let_def)
  ultimately have b': "bal_ok H C E b'"
    "bs_free b' \<noteq> [] \<Longrightarrow> \<forall>x\<in>H. average st \<le> int (load (bs_s b') x)"
    using balance_hosts_ok [OF H, of C E ?b "hosts st" "{}"] H by auto
  have inv: "inv (bs_s b')" and p: "partition_ok H C E (bs_free b') (asg (bs_s b'))"
    using b'(1) by (simp_all add: bal_ok_def)
  have "length (bs_free b') \<le> n mod ?k"
  proof (cases "bs_free b' = []")
    case False
    have fin: "finite H" using H by simp
    have one: "one_host H (asg (bs_s b'))" and dis: "owned H (asg (bs_s b')) \<inter> set (bs_free b') = {}"
      and un: "owned H (asg (bs_s b')) \<union> set (bs_free b') = C" and df: "distinct (bs_free b')"
      using p by (auto simp: partition_ok_def)
    have "card C = card (owned H (asg (bs_s b'))) + length (bs_free b')"
      using card_Un_disjoint [OF _ _ dis] un C(1) distinct_card [OF df] by (metis List.finite_set finite_Un)
    moreover have "int (card H) * average st \<le> (\<Sum>x\<in>H. int (load (bs_s b') x))"
      using sum_bounded_below [of H "average st" "\<lambda>x. int (load (bs_s b') x)"] b'(2) [OF False] by simp
    moreover have "card H = ?k" using H st(2) by (simp add: distinct_card)
    ultimately have "int ?k * (int n div int ?k) + int (length (bs_free b')) \<le> int n"
      using sum_load [OF inv fin one] C(2,3) by (simp flip: of_nat_sum)
    then have "int (length (bs_free b')) \<le> int n mod int ?k"
      by (simp add: minus_mult_div_eq_mod [symmetric])
    then show ?thesis by (simp flip: zmod_int)
  qed simp
  then show ?thesis using inv p by blast
qed

lemma runBalancer_placed:
  assumes st: "hosts st \<noteq> []" and H: "H = set (hosts st)"
    and s: "inv s" "partition_ok H C E free (asg s)"
    and q: "\<And>x. x \<in> H \<Longrightarrow> quantity st x = int (load s x)"
    and r: "runBalancer asn rel list ord st free s = (b', e)"
  shows "inv (bs_s b') \<and> placed_ok H C E (asg (bs_s b'))"
proof -
  let ?k = "length (hosts st)"
  let ?b = "\<lparr>bs_s = s, bs_idx = int ?k - 1, bs_over = hosts st ! nat (int ?k - 1),
    bs_q = quantity st, bs_free = free\<rparr>"
  have b: "bal_ok H C E ?b" using s q by (simp add: bal_ok_def)
  have o: "over_ok st ?b" by (rule over_ok_start [OF st]) simp_all
  have r': "balance_hosts asn rel list st ord 0 (hosts st) ?b = (b', e)"
    using r by (simp add: runBalancer_def Let_def)
  show ?thesis by (rule balance_hosts_placed [OF H b o _ r']) (simp add: H)
qed

text \<open>The phases of a tick before the balancer, when neither fails.\<close>

lemma distribute_phases:
  assumes s: "inv s" and hs: "hs \<noteq> []" "distinct hs"
    and r: "distributeTasks asn rel list stat ord (Inr cfgs) hs s = (s', e)"
    and d: "release_dead rel list (ord_dead ord) 0 (fst (markDeadNodes hs (stat (ord_stat ord) s))) s = (s1, None)"
    and c: "count_hosts rel list (ord_live ord) 0 hs (s1, \<lambda>_. 0, remdups cfgs) = ((s2, q, free), None)"
  obtains st b e' where "hosts st \<noteq> []" and "distinct (hosts st)" and "set (hosts st) = set hs"
    and "length (hosts st) = length hs" and "quantity st = q"
    and "average st = int (length cfgs) div int (length hs)"
    and "inv s2" and "partition_ok (set hs) (set cfgs) {} free (asg s2)"
    and "\<forall>x\<in>set hs. q x = int (load s2 x)"
    and "runBalancer asn rel list ord st free s2 = (b, e')" and "s' = bs_s b"
    and "e = map_option BalancerError e'" and "asg s2 \<subseteq> asg s"
proof -
  let ?n = "int (length cfgs)" and ?k = "int (length hs)"
  let ?st0 = "\<lparr>hosts = hs, quantity = q, average = ?n div ?k,
    permissibleNumber = (if ?n mod ?k > 0 then ?n div ?k + 1 else ?n div ?k)\<rparr>"
  let ?st = "sort_balance (ord_sort ord) ?st0"
  let ?dead = "fst (markDeadNodes hs (stat (ord_stat ord) s))"
  have m: "mset (hosts ?st) = mset hs" by (simp add: sort_balance_def)
  obtain b e' where b: "runBalancer asn rel list ord ?st free s2 = (b, e')" by (metis surj_pair)
  have d1: "inv s1" "asg s1 = asg s - set ?dead \<times> UNIV" using release_dead_ok [OF s d] by blast+
  have dead: "set ?dead = fst ` set (stat (ord_stat ord) s) - set hs" by (rule markDeadNodes_dead)
  have "fst ` asg s \<subseteq> fst ` set (stat (ord_stat ord) s)" by (rule stat_hosts [OF s])
  then have live: "h \<in> set hs" if "(h, c) \<in> asg s1" for h c
    using that dead unfolding d1(2) by (metis Diff_iff SigmaI UNIV_I image_subset_iff fst_conv)
  then have out: "asg s1 \<subseteq> set hs \<times> UNIV" by auto
  have none: "asg s1 - set hs \<times> UNIV = {}" using out by auto
  have p0: "partition_ok (set hs) (set cfgs) {} (remdups cfgs) (asg s1 - set hs \<times> UNIV)"
    unfolding none by (simp add: partition_ok_def one_host_def outside_def owned_def)
  have "inv s2 \<and> asg s2 \<subseteq> asg s1 \<and> partition_ok (set hs) (set cfgs) {} free (asg s2) \<and>
    (\<forall>x\<in>set hs. q x = int (load s2 x))"
    by (rule count_hosts_ok [OF d1(1) _ hs(2) _ p0 _ c]) (use out in auto)
  moreover have "s' = bs_s b \<and> e = map_option BalancerError e'"
    using r hs(1) c unfolding distributeTasks_def
    by (cases "markDeadNodes hs (stat (ord_stat ord) s)") (use d b in \<open>auto simp: Let_def split: option.splits\<close>)
  moreover have "hosts ?st \<noteq> []" using m hs(1) by (metis mset_zero_iff)
  moreover have "distinct (hosts ?st)" using m hs(2) by (metis mset_eq_imp_distinct_iff)
  moreover have "set (hosts ?st) = set hs" using m by (rule mset_eq_setD)
  moreover have "length (hosts ?st) = length hs" using m by (rule mset_eq_length)
  moreover have "quantity ?st = q" "average ?st = ?n div ?k" by (simp_all add: sort_balance_def)
  moreover have "asg s1 \<subseteq> asg s" using d1(2) by blast
  ultimately show thesis using that [of ?st b e'] b by blast
qed

text \<open>
  A tick without an error: every config is on at most one alive host or left unassigned, nothing
  else is assigned anywhere, and fewer configs than hosts are left.
\<close>

lemma distribute_ok:
  assumes s: "inv s" and hs: "hs \<noteq> []" "distinct hs"
    and r: "distributeTasks asn rel list stat ord (Inr cfgs) hs s = (s', None :: ('r, 'e) sched_error option)"
  shows "\<exists>free. inv s' \<and> partition_ok (set hs) (set cfgs) {} free (asg s') \<and>
    length free \<le> length cfgs mod length hs"
proof -
  obtain dead stats where m: "markDeadNodes hs (stat (ord_stat ord) s) = (dead, stats)"
    by (metis surj_pair)
  obtain s1 s2 q free where
    d: "release_dead rel list (ord_dead ord) 0 (fst (markDeadNodes hs (stat (ord_stat ord) s))) s = (s1, None)"
    and c: "count_hosts rel list (ord_live ord) 0 hs (s1, \<lambda>_. 0, remdups cfgs) = ((s2, q, free), None)"
    using r hs(1) unfolding distributeTasks_def m by (auto simp: Let_def split: prod.splits option.splits)
  obtain st b e' where st: "hosts st \<noteq> []" "distinct (hosts st)" "set (hosts st) = set hs"
    "length (hosts st) = length hs" "quantity st = q"
    "average st = int (length cfgs) div int (length hs)"
    and s2: "inv s2" "partition_ok (set hs) (set cfgs) {} free (asg s2)"
    "\<forall>x\<in>set hs. q x = int (load s2 x)"
    and b: "runBalancer asn rel list ord st free s2 = (b, e')" "s' = bs_s b"
    "(None :: ('r, 'e) sched_error option) = map_option BalancerError e'" and "asg s2 \<subseteq> asg s"
    by (rule distribute_phases [OF s hs r d c])
  have b': "runBalancer asn rel list ord st free s2 = (b, None)" using b by (cases e') auto
  have "inv (bs_s b) \<and> partition_ok (set hs) (set cfgs) {} (bs_free b) (asg (bs_s b)) \<and>
    length (bs_free b) \<le> length cfgs mod length (hosts st)"
    by (rule runBalancer_ok [OF st(1,2) st(3) [symmetric] _ _ _ s2(1,2) _ b'])
      (use st s2(3) in \<open>auto simp: card_length\<close>)
  then show ?thesis using b(2) st(4) by auto
qed

text \<open>
  A tick that may fail anywhere either only removed assignments, or left a table in which only
  alive hosts hold configs, each held once and known to the repository.
\<close>

lemma distribute_any:
  assumes s: "inv s" and hs: "distinct hs"
    and r: "distributeTasks asn rel list stat ord cfgs hs s = (s', e :: ('r, 'e) sched_error option)"
  shows "inv s' \<and> (asg s' \<subseteq> asg s \<or>
    (\<exists>names. cfgs = Inr names \<and> placed_ok (set hs) (set names) {} (asg s')))"
proof (cases "hs = [] \<or> (\<exists>err. cfgs = Inl err)")
  case True
  then have "s' = s" using r by (cases "hs = []") (auto simp: distributeTasks_def)
  then show ?thesis using s by blast
next
  case False
  then obtain names where Inr: "cfgs = Inr names" and ne: "hs \<noteq> []" by (cases cfgs) auto
  let ?dead = "fst (markDeadNodes hs (stat (ord_stat ord) s))"
  obtain dead stats where m: "markDeadNodes hs (stat (ord_stat ord) s) = (dead, stats)"
    by (metis surj_pair)
  obtain s1 e1 where d: "release_dead rel list (ord_dead ord) 0 ?dead s = (s1, e1)"
    by (metis surj_pair)
  have d1: "inv s1" "asg s1 \<subseteq> asg s" using release_dead_ok [OF s d] by blast+
  show ?thesis
  proof (cases e1)
    case (Some err)
    then have "s' = s1" using r ne Inr m d by (simp add: distributeTasks_def Let_def)
    then show ?thesis using d1 by blast
  next
    case None
    obtain s2 q free e2 where
      c: "count_hosts rel list (ord_live ord) 0 hs (s1, \<lambda>_. 0, remdups names) = ((s2, q, free), e2)"
      by (metis surj_pair)
    have c1: "inv s2" "asg s2 \<subseteq> asg s" using count_hosts_sub [OF d1(1) c] d1(2) by blast+
    show ?thesis
    proof (cases e2)
      case (Some err)
      then have "s' = s2" using r ne Inr m d None c by (simp add: distributeTasks_def Let_def)
      then show ?thesis using c1 by blast
    next
      case e2: None
      have r': "distributeTasks asn rel list stat ord (Inr names) hs s = (s', e)" using r Inr by simp
      have d': "release_dead rel list (ord_dead ord) 0 ?dead s = (s1, None)" using d None by simp
      have c': "count_hosts rel list (ord_live ord) 0 hs (s1, \<lambda>_. 0, remdups names) = ((s2, q, free), None)"
        using c e2 by simp
      obtain st b e' where st: "hosts st \<noteq> []" "distinct (hosts st)" "set (hosts st) = set hs"
        "length (hosts st) = length hs" "quantity st = q"
        "average st = int (length names) div int (length hs)"
        and s2: "inv s2" "partition_ok (set hs) (set names) {} free (asg s2)"
        "\<forall>x\<in>set hs. q x = int (load s2 x)"
        and b: "runBalancer asn rel list ord st free s2 = (b, e')" "s' = bs_s b"
        "e = map_option BalancerError e'" and "asg s2 \<subseteq> asg s"
        by (rule distribute_phases [OF s ne hs r' d' c'])
      have p: "inv (bs_s b) \<and> placed_ok (set hs) (set names) {} (asg (bs_s b))"
        by (rule runBalancer_placed [OF st(1) st(3) [symmetric] s2(1,2) _ b(1)]) (use st s2(3) in auto)
      then show ?thesis using b(2) Inr by auto
    qed
  qed
qed

lemma distribute_one_host:
  assumes "inv s" and "distinct hs" and "one_host UNIV (asg s)"
    and r: "distributeTasks asn rel list stat ord cfgs hs s = (s', e :: ('r, 'e) sched_error option)"
  shows "inv s' \<and> one_host UNIV (asg s') \<and>
    (\<forall>h c. (h, c) \<in> asg s' - asg s \<longrightarrow> h \<in> set hs \<and> (\<exists>names. cfgs = Inr names \<and> c \<in> set names))"
proof -
  from distribute_any [OF assms(1,2) r] consider "inv s'" "asg s' \<subseteq> asg s"
    | names where "inv s'" "cfgs = Inr names" "placed_ok (set hs) (set names) {} (asg s')" by blast
  then show ?thesis
  proof cases
    case 1
    then show ?thesis using assms(3) unfolding one_host_def by blast
  next
    case 2
    then show ?thesis using placed_everywhere [OF 2(3)] by blast
  qed
qed

subsection \<open>Quiet ticks\<close>

text \<open>Nothing is released before the balancer if the table is a partition of the configs.\<close>

lemma release_dead_none:
  assumes s: "inv s" and "asg s \<subseteq> H \<times> UNIV" and "set hs \<inter> H = {}"
  shows "release_dead rel list ord i hs s = (s, None)"
  using assms(3)
proof (induction hs arbitrary: i)
  case (Cons h hs)
  have "set (list (ord i) h s) = {}"
    unfolding set_list [OF s] using Cons.prems assms(2) by auto
  then have "list (ord i) h s = []" by simp
  then show ?case using Cons by simp
qed simp

lemma count_host_keeps:
  assumes "distinct cfgs" and "set cfgs \<subseteq> set free"
  shows "\<exists>q' free'. count_host rel h cfgs (s, q, free) = ((s, q', free'), None) \<and>
    set free' = set free - set cfgs"
  using assms
proof (induction cfgs arbitrary: q free)
  case (Cons c cfgs)
  have c: "distinct cfgs" "set cfgs \<subseteq> set (removeAll c free)" "c \<in> set free" using Cons.prems by auto
  obtain q' free' where "count_host rel h cfgs (s, q(h := q h + 1), removeAll c free) = ((s, q', free'), None)"
    and "set free' = set (removeAll c free) - set cfgs"
    using Cons.IH [OF c(1,2)] by blast
  then have "count_host rel h (c # cfgs) (s, q, free) = ((s, q', free'), None)"
    and "set free' = set free - set (c # cfgs)" using c(3) by auto
  then show ?case by blast
qed auto

lemma count_hosts_keeps:
  assumes s: "inv s" and "one_host H (asg s)" and "distinct hs" and "set hs \<subseteq> H"
    and "\<And>h c. h \<in> set hs \<Longrightarrow> (h, c) \<in> asg s \<Longrightarrow> c \<in> set free"
  shows "\<exists>q' free'. count_hosts rel list ord i hs (s, q, free) = ((s, q', free'), None)"
  using assms(3-)
proof (induction hs arbitrary: q free i)
  case (Cons h hs)
  let ?cs = "list (ord i) h s"
  have cs: "set ?cs = {c. (h, c) \<in> asg s}" "distinct ?cs" by (rule set_list [OF s], rule distinct_list [OF s])
  have "set ?cs \<subseteq> set free" using cs Cons.prems(3) by auto
  from count_host_keeps [OF cs(2) this] obtain q1 free1 where
    r1: "count_host rel h ?cs (s, q, free) = ((s, q1, free1), None)" and
    f1: "set free1 = set free - set ?cs" by blast
  have "c \<in> set free1" if "h' \<in> set hs" and "(h', c) \<in> asg s" for h' c
  proof -
    have "h' \<noteq> h" "h \<in> H" "h' \<in> H" using that(1) Cons.prems(1,2) by auto
    then have "(h, c) \<notin> asg s" using assms(2) that(2) unfolding one_host_def by blast
    then show ?thesis using Cons.prems(3) that cs f1 by auto
  qed
  with Cons.IH [of free1 "Suc i" q1] Cons.prems show ?case using r1 by auto
qed auto

lemma distribute_to_balancer:
  assumes s: "inv s" and hs: "hs \<noteq> []" "distinct hs"
    and p: "asg s \<subseteq> set hs \<times> set cfgs" "one_host (set hs) (asg s)"
  obtains st free where "hosts st \<noteq> []" and "distinct (hosts st)" and "set (hosts st) = set hs"
    and "length (hosts st) = length hs"
    and "average st = int (length cfgs) div int (length hs)"
    and "partition_ok (set hs) (set cfgs) {} free (asg s)"
    and "\<forall>x\<in>set hs. quantity st x = int (load s x)"
    and "\<forall>b e. runBalancer asn rel list ord st free s = (b, e) \<longrightarrow>
      distributeTasks asn rel list stat ord (Inr cfgs) hs s =
        (bs_s b, map_option BalancerError e :: ('r, 'e) sched_error option)"
proof -
  let ?dead = "fst (markDeadNodes hs (stat (ord_stat ord) s))"
  obtain dead stats where m: "markDeadNodes hs (stat (ord_stat ord) s) = (dead, stats)"
    by (metis surj_pair)
  have d: "release_dead rel list (ord_dead ord) 0 ?dead s = (s, None)"
    by (rule release_dead_none [OF s, of "set hs"]) (use p in \<open>auto simp: markDeadNodes_dead\<close>)
  obtain q free where
    c: "count_hosts rel list (ord_live ord) 0 hs (s, \<lambda>_. 0, remdups cfgs) = ((s, q, free), None)"
    using count_hosts_keeps [OF s p(2) hs(2) order_refl, of "remdups cfgs" "ord_live ord" 0 "\<lambda>_. 0"] p(1)
    by auto
  obtain s' e where r: "distributeTasks asn rel list stat ord (Inr cfgs) hs s =
      (s', e :: ('r, 'e) sched_error option)" by (metis surj_pair)
  obtain st b e' where st: "hosts st \<noteq> []" "distinct (hosts st)" "set (hosts st) = set hs"
    "length (hosts st) = length hs" "quantity st = q"
    "average st = int (length cfgs) div int (length hs)"
    and s2: "inv s" "partition_ok (set hs) (set cfgs) {} free (asg s)"
    "\<forall>x\<in>set hs. q x = int (load s x)"
    and b: "runBalancer asn rel list ord st free s = (b, e')" "s' = bs_s b"
    "(e :: ('r, 'e) sched_error option) = map_option BalancerError e'" and "asg s \<subseteq> asg s"
    by (rule distribute_phases [OF s hs r d c])
  show thesis by (rule that [OF st(1-4,6) s2(2)]) (use st(5) s2(3) b r in auto)
qed

text \<open>
  A round on a balanced table with nothing free does nothing; a round with every host at the
  average and fewer free configs than hosts hands out one config.
\<close>

lemma plan_round_over:
  assumes "plan_round st h b = (b', w, r)"
  shows "bs_s b' = bs_s b \<and> bs_q b' = bs_q b \<and> bs_free b' = bs_free b"
  using assms by (auto simp: plan_round_def Let_def)

lemma quiet_min:
  fixes a x y :: int
  assumes "x \<in> {a, a + 1}" and "y \<in> {a, a + 1}"
  shows "\<not> go_min (y - a) (if a - x = 0 \<and> y - a > 1 then 1 else a - x) > 0"
  using assms by (auto simp: go_min_def)

lemma balance_host_quiet:
  assumes o: "over_ok st b" and h: "h \<in> set (hosts st)" and f: "bs_free b = []"
    and q: "\<And>x. x \<in> set (hosts st) \<Longrightarrow> bs_q b x \<in> {average st, average st + 1}"
  shows "\<exists>b'. balance_host asn rel list st oover ofree h b = (b', None) \<and> bs_s b' = bs_s b \<and>
    bs_q b' = bs_q b \<and> bs_free b' = [] \<and> over_ok st b'"
proof -
  obtain b' w r where p: "plan_round st h b = (b', w, r)" by (metis surj_pair)
  note b' = plan_round_over [OF p]
  have o': "over_ok st b'" by (rule plan_round_ok [OF o p])
  have "bs_q b (bs_over b') \<in> {average st, average st + 1}" using q o' by (simp add: over_ok_def)
  moreover have "r = go_min (bs_q b (bs_over b') - average st)
      (if average st - bs_q b h = 0 \<and> bs_q b (bs_over b') - average st > 1 then 1 else average st - bs_q b h)"
    using p f by (auto simp: plan_round_def Let_def)
  ultimately have "\<not> r > 0" using quiet_min [OF q [OF h]] by simp
  then have "balance_host asn rel list st oover ofree h b = (b', None)"
    using p f b' by (simp add: balance_host_def Let_def)
  then show ?thesis using b' f o' by auto
qed

lemma balance_hosts_quiet:
  assumes "over_ok st b" and "set hs \<subseteq> set (hosts st)" and "bs_free b = []"
    and "\<And>x. x \<in> set (hosts st) \<Longrightarrow> bs_q b x \<in> {average st, average st + 1}"
  shows "\<exists>b'. balance_hosts asn rel list st ord i hs b = (b', None) \<and> bs_s b' = bs_s b"
  using assms
proof (induction hs arbitrary: b i)
  case (Cons h hs)
  have h: "h \<in> set (hosts st)" using Cons.prems(2) by simp
  obtain b1 where b1: "balance_host asn rel list st (ord_over ord i) (ord_free ord i) h b = (b1, None)"
    "bs_s b1 = bs_s b" "bs_q b1 = bs_q b" "bs_free b1 = []" "over_ok st b1"
    using balance_host_quiet [OF Cons.prems(1) h Cons.prems(3,4)] by blast
  have "\<exists>b'. balance_hosts asn rel list st ord (Suc i) hs b1 = (b', None) \<and> bs_s b' = bs_s b1"
    by (rule Cons.IH [OF b1(5) _ b1(4)]) (use Cons.prems(2,4) b1(3) in auto)
  then show ?case using b1 by auto
qed auto

lemma distribute_stable:
  assumes s: "inv s" and hs: "hs \<noteq> []" "distinct hs"
    and p: "asg s \<subseteq> set hs \<times> set cfgs" "one_host (set hs) (asg s)" "set cfgs \<subseteq> owned (set hs) (asg s)"
    and q: "\<And>h. h \<in> set hs \<Longrightarrow> load s h = length cfgs div length hs \<or>
      load s h = Suc (length cfgs div length hs)"
  shows "distributeTasks asn rel list stat ord (Inr cfgs) hs s = (s, None :: ('r, 'e) sched_error option)"
proof -
  obtain st free where st: "hosts st \<noteq> []" "distinct (hosts st)" "set (hosts st) = set hs"
    "length (hosts st) = length hs" "average st = int (length cfgs) div int (length hs)"
    and f: "partition_ok (set hs) (set cfgs) {} free (asg s)"
    and qs: "\<forall>x\<in>set hs. quantity st x = int (load s x)"
    and d: "\<forall>b e. runBalancer asn rel list ord st free s = (b, e) \<longrightarrow>
      distributeTasks asn rel list stat ord (Inr cfgs) hs s =
        (bs_s b, map_option BalancerError e :: ('r, 'e) sched_error option)"
    by (rule distribute_to_balancer [OF s hs p(1,2), of ord])
  have "owned (set hs) (asg s) \<inter> set free = {}" and "set free \<subseteq> set cfgs"
    using f by (auto simp only: partition_ok_def)
  then have "set free \<subseteq> owned (set hs) (asg s) \<inter> set free" using p(3) by (meson Int_greatest order_refl subset_trans)
  then have "set free = {}" using \<open>owned (set hs) (asg s) \<inter> set free = {}\<close> by (simp only: subset_empty)
  then have f0: "free = []" by simp
  let ?b = "\<lparr>bs_s = s, bs_idx = int (length (hosts st)) - 1,
    bs_over = hosts st ! nat (int (length (hosts st)) - 1), bs_q = quantity st, bs_free = free\<rparr>"
  have "quantity st x \<in> {average st, average st + 1}" if "x \<in> set (hosts st)" for x
    using q [of x] qs that st(3,5) by (auto simp: zdiv_int)
  moreover have "over_ok st ?b" by (rule over_ok_start [OF st(1)]) simp_all
  ultimately obtain b' where b': "balance_hosts asn rel list st ord 0 (hosts st) ?b = (b', None)" "bs_s b' = s"
    using balance_hosts_quiet [of st ?b "hosts st"] f0 by fastforce
  then have "runBalancer asn rel list ord st free s = (b', None)"
    by (simp add: runBalancer_def Let_def)
  then show ?thesis using d b'(2) by simp
qed

lemma balance_host_one:
  assumes b: "inv (bs_s b)" "partition_ok H C E (bs_free b) (asg (bs_s b))" and o: "over_ok st b"
    and H: "H = set (hosts st)" and h: "h \<in> H"
    and f: "length (bs_free b) < length (hosts st)"
    and q: "\<And>x. x \<in> H \<Longrightarrow> bs_q b x = average st"
    and r: "balance_host asn rel list st oover ofree h b = (b', None)"
  shows "inv (bs_s b') \<and> partition_ok H C E (bs_free b') (asg (bs_s b')) \<and> over_ok st b' \<and>
    bs_q b' = bs_q b \<and> length (bs_free b') = length (bs_free b) - 1 \<and> asg (bs_s b) \<subseteq> asg (bs_s b')"
proof -
  obtain b1 w tr where p: "plan_round st h b = (b1, w, tr)" by (metis surj_pair)
  note b1 = plan_round_over [OF p]
  have o1: "over_ok st b1" by (rule plan_round_ok [OF o p])
  have "bs_q b (bs_over b1) = average st" using q o1 H by (simp add: over_ok_def)
  moreover have "int (length (bs_free b)) div int (length (hosts st)) = 0" using f by simp
  moreover have "tr = go_min (bs_q b (bs_over b1) - average st) w"
    and "w = (let v = (if average st - bs_q b h = 0 \<and> int (length (bs_free b)) > 0
        then int (length (bs_free b)) div int (length (hosts st)) else average st - bs_q b h)
      in if v = 0 \<and> bs_q b (bs_over b1) - average st > 1 then 1 else v)"
    using p by (auto simp: plan_round_def Let_def)
  ultimately have w: "w = 0" "tr = 0" using q [OF h] by (simp_all add: go_min_def)
  let ?ps = "pick_configs 0 (shuffle ofree (bs_free b1))"
  have "assign_some asn h ?ps b1 = (b', None)"
    using r p w by (simp add: balance_host_def Let_def go_min_def)
  moreover have "distinct ?ps" using b(2) b1 by (intro distinct_pick_configs) (simp add: partition_ok_def)
  moreover have "set ?ps \<subseteq> set (bs_free b1)" using set_pick_configs by (metis set_shuffle)
  moreover have "inv (bs_s b1)" "partition_ok H C E (bs_free b1) (asg (bs_s b1))" using b b1 by simp_all
  ultimately have a: "inv (bs_s b') \<and> partition_ok H C E (bs_free b') (asg (bs_s b')) \<and> bs_q b' = bs_q b1 \<and>
    bs_over b' = bs_over b1 \<and> bs_idx b' = bs_idx b1 \<and> asg (bs_s b1) \<subseteq> asg (bs_s b') \<and>
    length (bs_free b') = length (bs_free b1) - length ?ps \<and>
    (\<forall>x. load (bs_s b') x = (if x = h then load (bs_s b1) x + length ?ps else load (bs_s b1) x))"
    by (intro assign_some_ok [OF _ _ h])
  have "length ?ps = (if bs_free b = [] then 0 else 1)"
    using b1 by (cases "bs_free b") (simp_all add: length_pick_configs)
  then show ?thesis using a b1 o1 by (auto simp: over_ok_def)
qed

lemma balance_hosts_one:
  assumes "inv (bs_s b)" and "partition_ok H C E (bs_free b) (asg (bs_s b))" and "over_ok st b"
    and "H = set (hosts st)" and "set hs \<subseteq> H"
    and "length (bs_free b) < length (hosts st)" and "length (bs_free b) \<le> length hs"
    and "\<And>x. x \<in> H \<Longrightarrow> bs_q b x = average st"
    and "balance_hosts asn rel list st ord i hs b = (b', None)"
  shows "partition_ok H C E (bs_free b') (asg (bs_s b')) \<and> bs_free b' = [] \<and>
    asg (bs_s b) \<subseteq> asg (bs_s b')"
  using assms
proof (induction hs arbitrary: b i)
  case (Cons h hs)
  obtain b1 where r1: "balance_host asn rel list st (ord_over ord i) (ord_free ord i) h b = (b1, None)"
    and r: "balance_hosts asn rel list st ord (Suc i) hs b1 = (b', None)"
    using Cons.prems(9) by (auto split: prod.splits option.splits)
  have h: "h \<in> H" using Cons.prems(5) by simp
  note b1 = balance_host_one [OF Cons.prems(1-4) h Cons.prems(6,8) r1]
  have "partition_ok H C E (bs_free b') (asg (bs_s b')) \<and> bs_free b' = [] \<and>
      asg (bs_s b1) \<subseteq> asg (bs_s b')"
    by (rule Cons.IH [OF _ _ _ Cons.prems(4) _ _ _ _ r]) (use b1 Cons.prems(5-8) in auto)
  then show ?case using b1 by auto
qed auto

text \<open>The tick after one that left configs over, when every host holds the average: all are placed.\<close>

lemma distribute_completes:
  assumes s: "inv s" and hs: "hs \<noteq> []" "distinct hs" "distinct cfgs"
    and p: "asg s \<subseteq> set hs \<times> set cfgs" "one_host (set hs) (asg s)"
    and q: "\<And>h. h \<in> set hs \<Longrightarrow> load s h = length cfgs div length hs"
    and r: "distributeTasks asn rel list stat ord (Inr cfgs) hs s = (s', None :: ('r, 'e) sched_error option)"
  shows "asg s \<subseteq> asg s' \<and> partition_ok (set hs) (set cfgs) {} [] (asg s')"
proof -
  obtain st free where st: "hosts st \<noteq> []" "distinct (hosts st)" "set (hosts st) = set hs"
    "length (hosts st) = length hs" "average st = int (length cfgs) div int (length hs)"
    and f: "partition_ok (set hs) (set cfgs) {} free (asg s)"
    and qs: "\<forall>x\<in>set hs. quantity st x = int (load s x)"
    and d: "\<forall>b e. runBalancer asn rel list ord st free s = (b, e) \<longrightarrow>
      distributeTasks asn rel list stat ord (Inr cfgs) hs s =
        (bs_s b, map_option BalancerError e :: ('r, 'e) sched_error option)"
    by (rule distribute_to_balancer [OF s hs(1,2) p, of ord])
  obtain b e where b: "runBalancer asn rel list ord st free s = (b, e)" by (metis surj_pair)
  then have s': "s' = bs_s b" "e = None" using d r by auto
  have dis: "owned (set hs) (asg s) \<inter> set free = {}" and un: "owned (set hs) (asg s) \<union> set free = set cfgs"
    using f by (simp_all add: partition_ok_def)
  have "card (set cfgs) = card (owned (set hs) (asg s)) + length free"
    using card_Un_disjoint [OF _ _ dis] un f by (metis List.finite_set finite_Un partition_ok_def distinct_card)
  moreover have "card (owned (set hs) (asg s)) = length hs * (length cfgs div length hs)"
    using sum_load [OF s _ p(2)] q hs(2) by (simp add: distinct_card)
  ultimately have "length cfgs = length hs * (length cfgs div length hs) + length free"
    using hs(3) by (simp add: distinct_card)
  then have "length free = length cfgs mod length hs" by (metis add_left_imp_eq mult_div_mod_eq)
  then have len: "length free < length hs" using hs(1) by simp
  let ?b = "\<lparr>bs_s = s, bs_idx = int (length (hosts st)) - 1,
    bs_over = hosts st ! nat (int (length (hosts st)) - 1), bs_q = quantity st, bs_free = free\<rparr>"
  have o: "over_ok st ?b" by (rule over_ok_start [OF st(1)]) simp_all
  have "balance_hosts asn rel list st ord 0 (hosts st) ?b = (b, None)"
    using b s'(2) by (simp add: runBalancer_def Let_def)
  then have "partition_ok (set hs) (set cfgs) {} (bs_free b) (asg (bs_s b)) \<and> bs_free b = [] \<and>
    asg s \<subseteq> asg (bs_s b)"
    using balance_hosts_one [OF _ _ o st(3) [symmetric], of "set cfgs" "{}" "hosts st" ord 0 b]
      s f len st q qs by (auto simp: zdiv_int)
  then show ?thesis using s'(1) by auto
qed

end

end
