(* ===== verification/Leader.thy ===== *)
theory Leader
  imports Cluster Scheduler
begin

text \<open>
  \<open>combainer/leader.go\<close> and the functions of \<open>combainer/scheduler.go\<close> that go through raft:
  what a node does while it leads the cluster. A command is encoded, given to raft, and applied
  to the local replica before \<open>raft.Apply\<close> returns without an error; when it returns one, the
  command may or may not have been applied. The scheduler of the theory \<open>Scheduler\<close> runs on these
  operations: the interpretation \<open>raft_cluster\<close> discharges its contract for them.
\<close>

section \<open>Commands through raft\<close>

definition apply_committed :: "json \<Rightarrow> 'r Cluster \<Rightarrow> 'r Cluster" where
  "apply_committed data c =
     (case FSM_Apply (Some data) (cfsm c) of Inr f \<Rightarrow> c\<lparr>cfsm := f\<rparr> | Inl p \<Rightarrow> c)"

definition raftApply :: "('r, 'e) raft_api \<Rightarrow> FSMCommand \<Rightarrow> 'r Cluster \<Rightarrow> 'r Cluster \<times> 'e cluster_error option" where
  "raftApply api command c =
     (case craft c of
        None \<Rightarrow> (c, Some NilRaft)
      | Some r \<Rightarrow>
          let state = marshal_command command;
              (r, outcome) = raft_Apply api state r;
              c = c\<lparr>craft := Some r\<rparr>
          in case outcome of
               Committed \<Rightarrow> (apply_committed state c, None)
             | Refused err \<Rightarrow> (c, Some (RaftError err))
             | CommittedButError err \<Rightarrow> (apply_committed state c, Some (RaftError err)))"

definition wrap_command :: "FSMCommand \<Rightarrow> 's \<times> 'e cluster_error option \<Rightarrow> 's \<times> 'e cluster_error option" where
  "wrap_command cmd r = (case r of (c, Some err) \<Rightarrow> (c, Some (CommandFailed cmd err)) | (c, None) \<Rightarrow> (c, None))"

definition assignConfig :: "('r, 'e) raft_api \<Rightarrow> 'r Cluster \<Rightarrow> string \<Rightarrow> string \<Rightarrow>
    'r Cluster \<times> 'e cluster_error option" where
  "assignConfig api c host config =
     (let cmd = \<lparr>cmd_Type = cmdAssignConfig, cmd_Host = host, cmd_Config = config\<rparr> in
      wrap_command cmd (raftApply api cmd c))"

definition releaseConfig :: "('r, 'e) raft_api \<Rightarrow> 'r Cluster \<Rightarrow> string \<Rightarrow> string \<Rightarrow>
    'r Cluster \<times> 'e cluster_error option" where
  "releaseConfig api c host config =
     (let cmd = \<lparr>cmd_Type = cmdRemoveConfig, cmd_Host = host, cmd_Config = config\<rparr> in
      wrap_command cmd (raftApply api cmd c))"

section \<open>Reconciliation\<close>

definition addRaftPeer :: "('r, 'e) raft_api \<Rightarrow> Member \<Rightarrow> 'r Cluster \<Rightarrow> 'r Cluster \<times> 'e cluster_error option" where
  "addRaftPeer api m c =
     (case craft c of
        None \<Rightarrow> (c, Some NilRaft)
      | Some r \<Rightarrow>
          let addr = member_addr c m in
          case raft_GetConfiguration api r of
            Inl err \<Rightarrow> (c, Some (RaftError err))
          | Inr servers \<Rightarrow>
              if addr \<in> srv_Address ` set servers then (c, None)
              else (case raft_AddVoter api (m_Name m) addr r of
                (r, Some err) \<Rightarrow> (c\<lparr>craft := Some r\<rparr>, Some (RaftError err))
              | (r, None) \<Rightarrow> (c\<lparr>craft := Some r\<rparr>, None)))"

fun remove_configs :: "('r, 'e) raft_api \<Rightarrow> string \<Rightarrow> string list \<Rightarrow> 'r Cluster \<Rightarrow>
    'r Cluster \<times> 'e cluster_error option" where
  "remove_configs api host [] c = (c, None)"
| "remove_configs api host (cfg # cfgs) c =
     (case raftApply api \<lparr>cmd_Type = cmdRemoveConfig, cmd_Host = host, cmd_Config = cfg\<rparr> c of
        (c, Some err) \<Rightarrow>
          (c, Some (CommandFailed \<lparr>cmd_Type = cmdRemoveConfig, cmd_Host = host, cmd_Config = cfg\<rparr> err))
      | (c, None) \<Rightarrow> remove_configs api host cfgs c)"

definition removeRaftPeer :: "('r, 'e) raft_api \<Rightarrow> nat list \<Rightarrow> Member \<Rightarrow> 'r Cluster \<Rightarrow>
    'r Cluster \<times> 'e cluster_error option" where
  "removeRaftPeer api ord m c =
     (case remove_configs api (m_Name m) (FSMStore_List ord (m_Name m) (fstore (cfsm c))) c of
        (c, Some err) \<Rightarrow> (c, Some err)
      | (c, None) \<Rightarrow>
         (case craft c of
            None \<Rightarrow> (c, Some NilRaft)
          | Some r \<Rightarrow>
              let addr = member_addr c m in
              case raft_GetConfiguration api r of
                Inl err \<Rightarrow> (c, Some (RaftError err))
              | Inr servers \<Rightarrow>
                  if addr \<notin> srv_Address ` set servers then (c, None)
                  else (case raft_RemoveServer api (m_Name m) r of
                    (r, Some err) \<Rightarrow> (c\<lparr>craft := Some r\<rparr>, Some (RaftError err))
                  | (r, None) \<Rightarrow> (c\<lparr>craft := Some r\<rparr>, None))))"

definition reconcileMember :: "('r, 'e) raft_api \<Rightarrow> nat list \<Rightarrow> Member \<Rightarrow> 'r Cluster \<Rightarrow>
    'r Cluster \<times> 'e cluster_error option" where
  "reconcileMember api ord member c =
     (if m_Name member = c_Name c then (c, None)
      else case m_Status member of
        StatusAlive \<Rightarrow> addRaftPeer api member c
      | StatusLeft \<Rightarrow> removeRaftPeer api ord member c
      | statusReap \<Rightarrow> removeRaftPeer api ord member c
      | StatusNone \<Rightarrow> (c, None)
      | StatusLeaving \<Rightarrow> (c, None)
      | StatusFailed \<Rightarrow> (c, None))"

fun reconcile_members :: "('r, 'e) raft_api \<Rightarrow> (nat \<Rightarrow> nat list) \<Rightarrow> nat \<Rightarrow> Member list \<Rightarrow> 'r Cluster \<Rightarrow>
    'r Cluster \<times> 'e cluster_error option" where
  "reconcile_members api ord i [] c = (c, None)"
| "reconcile_members api ord i (m # ms) c =
     (case reconcileMember api (ord i) m c of
        (c, Some err) \<Rightarrow> (c, Some err)
      | (c, None) \<Rightarrow> reconcile_members api ord (Suc i) ms c)"

definition reconcile :: "('r, 'e) raft_api \<Rightarrow> (nat \<Rightarrow> nat list) \<Rightarrow> 'r Cluster \<Rightarrow>
    'r Cluster \<times> 'e cluster_error option" where
  "reconcile api ord c = reconcile_members api ord 0 (case cserf c of None \<Rightarrow> [] | Some ms \<Rightarrow> ms) c"

section \<open>The scheduler on the cluster\<close>

definition cluster_distributeTasks :: "('r, 'e) raft_api \<Rightarrow> orders \<Rightarrow> 'x + string list \<Rightarrow> string list \<Rightarrow>
    'r Cluster \<Rightarrow> 'r Cluster \<times> ('x, 'e cluster_error) sched_error option" where
  "cluster_distributeTasks api ord configs hs c =
     distributeTasks (assignConfig api) (releaseConfig api)
       (\<lambda>ord h c. FSMStore_List ord h (fstore (cfsm c)))
       (\<lambda>ord c. FSMStore_DistributionStatistic ord (fstore (cfsm c))) ord configs hs c"

definition cluster_inv :: "'r Cluster \<Rightarrow> bool" where
  "cluster_inv c \<longleftrightarrow> fsm_inv (cfsm c)"

definition table :: "'r Cluster \<Rightarrow> (string \<times> string) set" where
  "table c = assigned (fstore (cfsm c))"

lemma apply_committed_ok:
  assumes "cluster_inv c"
  shows "cluster_inv (apply_committed (marshal_command cmd) c)"
    and "table (apply_committed (marshal_command cmd) c) =
      (if cmd_Type cmd = cmdAssignConfig then insert (cmd_Host cmd, cmd_Config cmd) (table c)
       else if cmd_Type cmd = cmdRemoveConfig then table c - {(cmd_Host cmd, cmd_Config cmd)}
       else table c)"
    and "craft (apply_committed (marshal_command cmd) c) = craft c"
    and "cserf (apply_committed (marshal_command cmd) c) = cserf c"
    and "cconfig (apply_committed (marshal_command cmd) c) = cconfig c"
proof -
  obtain f where f: "FSM_Apply (Some (marshal_command cmd)) (cfsm c) = Inr f" "fsm_inv f"
    "assigned (fstore f) = spec_apply (Some (marshal_command cmd)) (assigned (fstore (cfsm c)))"
    using FSM_Apply_ok [of "cfsm c" "Some (marshal_command cmd)"] assms unfolding cluster_inv_def by blast
  have a: "apply_committed (marshal_command cmd) c = c\<lparr>cfsm := f\<rparr>"
    using f(1) by (simp add: apply_committed_def)
  show "cluster_inv (apply_committed (marshal_command cmd) c)"
    "craft (apply_committed (marshal_command cmd) c) = craft c"
    "cserf (apply_committed (marshal_command cmd) c) = cserf c"
    "cconfig (apply_committed (marshal_command cmd) c) = cconfig c"
    unfolding a using f(2) by (simp_all add: cluster_inv_def)
  show "table (apply_committed (marshal_command cmd) c) =
      (if cmd_Type cmd = cmdAssignConfig then insert (cmd_Host cmd, cmd_Config cmd) (table c)
       else if cmd_Type cmd = cmdRemoveConfig then table c - {(cmd_Host cmd, cmd_Config cmd)}
       else table c)"
    unfolding a using f(3) by (simp add: table_def spec_apply_def unmarshal_marshal_command)
qed

text \<open>A command changes the table as it says, or not at all; without an error it does.\<close>

lemma raftApply_ok:
  assumes inv: "cluster_inv c" and r: "raftApply api cmd c = (c', e)"
  shows "cluster_inv c'" and "cserf c' = cserf c" and "cconfig c' = cconfig c"
    and "table c' = spec_apply (Some (marshal_command cmd)) (table c) \<or> (e \<noteq> None \<and> table c' = table c)"
proof -
  have t: "table (c\<lparr>craft := r\<rparr>) = table c" "cluster_inv (c\<lparr>craft := r\<rparr>)" for r
    using inv by (simp_all add: table_def cluster_inv_def)
  consider r1 where "c' = apply_committed (marshal_command cmd) (c\<lparr>craft := Some r1\<rparr>)"
    | r1 where "c' = c\<lparr>craft := Some r1\<rparr>" "e \<noteq> None" | "c' = c" "e \<noteq> None"
    using r by (auto simp: raftApply_def Let_def split: option.splits prod.splits raft_outcome.splits)
  then have "cluster_inv c' \<and> cserf c' = cserf c \<and> cconfig c' = cconfig c \<and>
    (table c' = spec_apply (Some (marshal_command cmd)) (table c) \<or> (e \<noteq> None \<and> table c' = table c))"
  proof cases
    case 1
    then show ?thesis
      using apply_committed_ok [OF t(2), of cmd] t(1)
      by (simp add: spec_apply_def unmarshal_marshal_command)
  qed (use t inv in simp_all)
  then show "cluster_inv c'" "cserf c' = cserf c" "cconfig c' = cconfig c"
    "table c' = spec_apply (Some (marshal_command cmd)) (table c) \<or> (e \<noteq> None \<and> table c' = table c)"
    by blast+
qed

lemma wrap_command_iff:
  "wrap_command cmd r = (c, e) \<longleftrightarrow> (\<exists>e'. r = (c, e') \<and> e = map_option (CommandFailed cmd) e')"
  by (cases r; cases "snd r") (auto simp: wrap_command_def)

lemma assignConfig_ok:
  assumes "cluster_inv c" and "assignConfig api c h cfg = (c', e)"
  shows "cluster_inv c'" and "table c' = insert (h, cfg) (table c) \<or> (e \<noteq> None \<and> table c' = table c)"
proof -
  let ?cmd = "\<lparr>cmd_Type = cmdAssignConfig, cmd_Host = h, cmd_Config = cfg\<rparr>"
  obtain e' where e': "raftApply api ?cmd c = (c', e')" "e = map_option (CommandFailed ?cmd) e'"
    using assms(2) by (auto simp: assignConfig_def Let_def wrap_command_iff)
  show "cluster_inv c'" by (rule raftApply_ok [OF assms(1) e'(1)])
  show "table c' = insert (h, cfg) (table c) \<or> (e \<noteq> None \<and> table c' = table c)"
    using raftApply_ok(4) [OF assms(1) e'(1)] e'(2)
    by (simp add: spec_apply_def unmarshal_marshal_command)
qed

lemma releaseConfig_ok:
  assumes "cluster_inv c" and "releaseConfig api c h cfg = (c', e)"
  shows "cluster_inv c'" and "table c' = table c - {(h, cfg)} \<or> (e \<noteq> None \<and> table c' = table c)"
proof -
  let ?cmd = "\<lparr>cmd_Type = cmdRemoveConfig, cmd_Host = h, cmd_Config = cfg\<rparr>"
  obtain e' where e': "raftApply api ?cmd c = (c', e')" "e = map_option (CommandFailed ?cmd) e'"
    using assms(2) by (auto simp: releaseConfig_def Let_def wrap_command_iff)
  show "cluster_inv c'" by (rule raftApply_ok [OF assms(1) e'(1)])
  show "table c' = table c - {(h, cfg)} \<or> (e \<noteq> None \<and> table c' = table c)"
    using raftApply_ok(4) [OF assms(1) e'(1)] e'(2)
    by (simp add: spec_apply_def unmarshal_marshal_command cmdAssignConfig_def cmdRemoveConfig_def)
qed

lemma statistic_hosts:
  assumes "store_inv s"
  shows "fst ` assigned s \<subseteq> fst ` set (FSMStore_DistributionStatistic ord s)"
proof -
  have "fst ` set (FSMStore_DistributionStatistic ord s) = dom (map_of (store s))"
    by (simp add: FSMStore_DistributionStatistic_def image_image)
  then show ?thesis by (auto simp: cell_def split: option.splits)
qed

interpretation raft_cluster: cluster_ops cluster_inv table "\<lambda>ord h c. FSMStore_List ord h (fstore (cfsm c))"
  "\<lambda>ord c. FSMStore_DistributionStatistic ord (fstore (cfsm c))" "assignConfig api" "releaseConfig api" for api
proof unfold_locales
  fix s s' :: "'a Cluster" and ord h c and r :: "'b cluster_error option" and e
  assume inv: "cluster_inv s"
  then have si: "store_inv (fstore (cfsm s))" by (simp add: cluster_inv_def fsm_inv_def)
  show "set (FSMStore_List ord h (fstore (cfsm s))) = {c. (h, c) \<in> table s}"
    using si by (simp add: table_def assigned_def)
  show "distinct (FSMStore_List ord h (fstore (cfsm s)))"
    by (rule distinct_FSMStore_List [OF store_invD(1) [OF si]])
  show "fst ` table s \<subseteq> fst ` set (FSMStore_DistributionStatistic ord (fstore (cfsm s)))"
    unfolding table_def by (rule statistic_hosts [OF si])
  show "assignConfig api s h c = (s', r) \<Longrightarrow> cluster_inv s'"
    and "releaseConfig api s h c = (s', r) \<Longrightarrow> cluster_inv s'"
    using assignConfig_ok(1) [OF inv] releaseConfig_ok(1) [OF inv] by blast+
  show "assignConfig api s h c = (s', None) \<Longrightarrow> table s' = insert (h, c) (table s)"
    and "releaseConfig api s h c = (s', None) \<Longrightarrow> table s' = table s - {(h, c)}"
    using assignConfig_ok(2) [OF inv] releaseConfig_ok(2) [OF inv] by blast+
  show "assignConfig api s h c = (s', Some e) \<Longrightarrow> table s' = table s \<or> table s' = insert (h, c) (table s)"
    and "releaseConfig api s h c = (s', Some e) \<Longrightarrow> table s' = table s \<or> table s' = table s - {(h, c)}"
    using assignConfig_ok(2) [OF inv] releaseConfig_ok(2) [OF inv] by blast+
qed

end
