(* ===== verification/LeaderLoop.thy ===== *)
theory LeaderLoop
  imports Leader
begin

text \<open>
  The goroutines of a node: \<open>leaderLoop\<close> and \<open>Run\<close> of \<open>combainer/leader.go\<close>, \<open>Shutdown\<close> of
  \<open>combainer/cluster.go\<close>. A select is one step, and the case it takes is the event of the step.
  \<open>node_reachable\<close> interleaves the events of serf, of raft and of the loop, the log entries of other leaders and
  restored snapshots; in all of its states a round of the loop assigns no config to a second host.
\<close>

section \<open>The leader's loop\<close>

text \<open>The error of \<open>ListParsingConfigs\<close> is only logged; it is its message.\<close>

datatype leader_event = ReconcileTick "nat \<Rightarrow> nat list" | UpdateTick orders "string + string list"
  | ReconcileReady "nat list"

text \<open>
  From the label \<open>RECONCILE\<close> to the loop. The flag is the local variable \<open>reconcileCh\<close>: true if
  it is the channel of the node, false if it is nil.
\<close>

definition leader_RECONCILE :: "('r, 'e) raft_api \<Rightarrow> (nat \<Rightarrow> nat list) \<Rightarrow> 'r Cluster \<Rightarrow> 'r Cluster \<times> bool" where
  "leader_RECONCILE api ord c =
     (case craft c of
        None \<Rightarrow> (c, False)
      | Some r \<Rightarrow> (case raft_Barrier api r of
          (r, Some err) \<Rightarrow> (c\<lparr>craft := Some r\<rparr>, False)
        | (r, None) \<Rightarrow> (case reconcile api ord (c\<lparr>craft := Some r\<rparr>) of
            (c, Some err) \<Rightarrow> (c, False)
          | (c, None) \<Rightarrow> (c, True))))"

definition leader_select :: "('r, 'e) raft_api \<Rightarrow> leader_event \<Rightarrow> 'r Cluster \<times> bool \<Rightarrow> 'r Cluster \<times> bool" where
  "leader_select api ev st =
     (case st of (c, reconcileCh) \<Rightarrow>
        (case ev of
           ReconcileTick ord \<Rightarrow> leader_RECONCILE api ord c
         | UpdateTick ord configs \<Rightarrow>
             (let hosts = (case Peers api c of Inl err \<Rightarrow> [] | Inr hs \<Rightarrow> hs) in
              (fst (cluster_distributeTasks api ord configs hosts c), reconcileCh))
         | ReconcileReady ord \<Rightarrow>
             (if \<not> reconcileCh then st
              else case creconcileCh c of
                [] \<Rightarrow> st
              | member # rest \<Rightarrow>
                  (let c = c\<lparr>creconcileCh := rest\<rparr> in
                   (if IsLeader api c then fst (reconcileMember api ord member c) else c, reconcileCh)))))"

section \<open>Runs of a node\<close>

text \<open>
  Between two rounds of the loop the state machine applies any entries of other leaders (\<open>entry\<close>) and is
  given any snapshot (\<open>restore\<close>).
\<close>

inductive node_reachable :: "('r, 'e) raft_api \<Rightarrow> string \<Rightarrow> 'r Cluster \<times> bool \<Rightarrow> bool"
  for api :: "('r, 'e) raft_api" and hostname :: string where
  start: "distinct (map m_Name ms) \<Longrightarrow> node_reachable api hostname (new_cluster name ms cfg, False)"
| serf: "node_reachable api hostname (c, f) \<Longrightarrow> distinct (map m_Name ms) \<Longrightarrow>
    node_reachable api hostname (c\<lparr>cserf := Some ms\<rparr>, f)"
| raft: "node_reachable api hostname (c, f) \<Longrightarrow> craft c \<noteq> None \<Longrightarrow>
    node_reachable api hostname (c\<lparr>craft := Some r\<rparr>, f)"
| serf_event: "node_reachable api hostname (c, f) \<Longrightarrow>
    node_reachable api hostname (EventHandler api hostname e c, f)"
| entry: "node_reachable api hostname (c, f) \<Longrightarrow> node_reachable api hostname (apply_committed data c, f)"
| restore: "node_reachable api hostname (c, f) \<Longrightarrow> FSM_Restore cord ord hord rc (cfsm c) = Inr (d, err) \<Longrightarrow>
    node_reachable api hostname (c\<lparr>cfsm := d\<rparr>, f)"
| leader: "node_reachable api hostname st \<Longrightarrow> node_reachable api hostname (leader_select api ev st)"

text \<open>The servers of a raft configuration have distinct IDs, as the library checks.\<close>

definition raft_ids_distinct :: "('r, 'e) raft_api \<Rightarrow> bool" where
  "raft_ids_distinct api \<longleftrightarrow>
     (\<forall>r servers. raft_GetConfiguration api r = Inr servers \<longrightarrow> distinct (map srv_ID servers))"

subsection \<open>Reconciling\<close>

lemma remove_configs_ok:
  assumes "cluster_inv c" and "remove_configs api h cfgs c = (c', e)"
  shows "cluster_inv c' \<and> table c' \<subseteq> table c \<and> table c - {h} \<times> UNIV \<subseteq> table c' \<and>
    cconfig c' = cconfig c \<and> (e = None \<longrightarrow> table c' = table c - {h} \<times> set cfgs)"
  using assms
proof (induction cfgs arbitrary: c)
  case (Cons cfg cfgs)
  let ?cmd = "\<lparr>cmd_Type = cmdRemoveConfig, cmd_Host = h, cmd_Config = cfg\<rparr>"
  obtain c1 e1 where r: "raftApply api ?cmd c = (c1, e1)" by (metis surj_pair)
  note c1 = raftApply_ok [OF Cons.prems(1) r]
  have t: "spec_apply (Some (marshal_command ?cmd)) (table c) = table c - {(h, cfg)}"
    by (simp add: spec_apply_def unmarshal_marshal_command cmdAssignConfig_def cmdRemoveConfig_def)
  show ?case
  proof (cases e1)
    case None
    then have t1: "table c1 = table c - {(h, cfg)}" using c1(4) t by simp
    have "remove_configs api h cfgs c1 = (c', e)" using Cons.prems(2) r None by simp
    from Cons.IH [OF c1(1) this] show ?thesis unfolding t1 c1(3) by auto
  next
    case (Some err)
    then have "c' = c1" "e \<noteq> None" using Cons.prems(2) r by auto
    then show ?thesis using c1 t by auto
  qed
qed auto

lemma addRaftPeer_table:
  "addRaftPeer api m c = (c', e) \<Longrightarrow> cfsm c' = cfsm c"
  by (cases "craft c"; cases "raft_GetConfiguration api (the (craft c))";
      cases "raft_AddVoter api (m_Name m) (member_addr c m) (the (craft c))")
    (auto simp: addRaftPeer_def Let_def split: if_splits option.splits)

lemma removeRaftPeer_ok:
  assumes "cluster_inv c" and "removeRaftPeer api ord m c = (c', e)"
  shows "cluster_inv c' \<and> table c' \<subseteq> table c \<and> table c - {m_Name m} \<times> UNIV \<subseteq> table c' \<and>
    (e = None \<longrightarrow> table c' = table c - {m_Name m} \<times> UNIV)"
proof -
  let ?cs = "FSMStore_List ord (m_Name m) (fstore (cfsm c))"
  obtain c1 e1 where r: "remove_configs api (m_Name m) ?cs c = (c1, e1)" by (metis surj_pair)
  have cs: "set ?cs = {cfg. (m_Name m, cfg) \<in> table c}" by (simp add: table_def)
  note c1 = remove_configs_ok [OF assms(1) r]
  have f: "cfsm c' = cfsm c1 \<and> (e = None \<longrightarrow> e1 = None)"
    using assms(2) r
    by (cases e1; cases "craft c1"; cases "raft_GetConfiguration api (the (craft c1))";
        cases "raft_RemoveServer api (m_Name m) (the (craft c1))")
      (auto simp: removeRaftPeer_def Let_def split: if_splits option.splits)
  have t: "table c' = table c1" "cluster_inv c' = cluster_inv c1"
    using f by (simp_all add: table_def cluster_inv_def)
  have "table c - {m_Name m} \<times> set ?cs = table c - {m_Name m} \<times> UNIV" unfolding cs by auto
  then show ?thesis unfolding t using c1 f by auto
qed

lemma reconcileMember_ok:
  assumes "cluster_inv c" and "reconcileMember api ord m c = (c', e)"
  shows "cluster_inv c' \<and> table c' \<subseteq> table c"
proof -
  consider "c' = c" | "addRaftPeer api m c = (c', e)" | "removeRaftPeer api ord m c = (c', e)"
    using assms(2) by (auto simp: reconcileMember_def split: if_splits MemberStatus.splits)
  then show ?thesis
  proof cases
    case 2
    then have "cfsm c' = cfsm c" by (rule addRaftPeer_table)
    then show ?thesis using assms(1) by (simp add: cluster_inv_def table_def)
  qed (use assms(1) removeRaftPeer_ok in blast)+
qed

lemma reconcile_members_ok:
  assumes "cluster_inv c" and "reconcile_members api ord i ms c = (c', e)"
  shows "cluster_inv c' \<and> table c' \<subseteq> table c"
  using assms
proof (induction ms arbitrary: c i)
  case (Cons m ms)
  obtain c1 e1 where r: "reconcileMember api (ord i) m c = (c1, e1)" by (metis surj_pair)
  note c1 = reconcileMember_ok [OF Cons.prems(1) r]
  show ?case
  proof (cases e1)
    case None
    then have "reconcile_members api ord (Suc i) ms c1 = (c', e)" using Cons.prems(2) r by simp
    then show ?thesis using Cons.IH c1 by blast
  next
    case (Some err)
    then show ?thesis using Cons.prems(2) r c1 by simp
  qed
qed auto

lemma leader_RECONCILE_ok:
  assumes "cluster_inv c"
  shows "cluster_inv (fst (leader_RECONCILE api ord c)) \<and> table (fst (leader_RECONCILE api ord c)) \<subseteq> table c"
proof (cases "craft c")
  case (Some r)
  obtain r1 e where b: "raft_Barrier api r = (r1, e)" by (metis surj_pair)
  let ?c = "c\<lparr>craft := Some r1\<rparr>"
  have t: "cluster_inv ?c" "table ?c = table c" using assms by (simp_all add: cluster_inv_def table_def)
  obtain c2 e2 where r2: "reconcile api ord ?c = (c2, e2)" by (metis surj_pair)
  then have "cluster_inv c2 \<and> table c2 \<subseteq> table c"
    using reconcile_members_ok [OF t(1)] t(2) unfolding reconcile_def by blast
  then show ?thesis using Some b t r2 by (cases e; cases e2) (auto simp: leader_RECONCILE_def)
qed (use assms in \<open>simp add: leader_RECONCILE_def\<close>)

subsection \<open>Rounds\<close>

lemma one_host_mono: "one_host H A \<Longrightarrow> A' \<subseteq> A \<Longrightarrow> one_host H A'"
  unfolding one_host_def by blast

lemma tick_one_host:
  assumes "cluster_inv c" and "one_host UNIV (table c)" and "distinct hs"
    and "cluster_distributeTasks api ord configs hs c = (c', e)"
  shows "cluster_inv c' \<and> one_host UNIV (table c') \<and>
    (\<forall>h cfg. (h, cfg) \<in> table c' - table c \<longrightarrow>
      h \<in> set hs \<and> (\<exists>names. configs = Inr names \<and> cfg \<in> set names))"
  using raft_cluster.distribute_one_host [OF assms(1,3,2)] assms(4)
  unfolding cluster_distributeTasks_def by blast

lemma Peers_ids_distinct:
  assumes "raft_ids_distinct api" and "Peers api c = Inr hs"
  shows "distinct hs"
proof -
  obtain r servers where "craft c = Some r" "raft_GetConfiguration api r = Inr servers"
    using assms(2) by (auto simp: Peers_def split: option.splits sum.splits)
  then show ?thesis using Peers_distinct [OF assms(2)] assms(1) by (simp add: raft_ids_distinct_def)
qed

text \<open>
  A round of the loop only removes assignments, or it is a tick after which the table is well placed: on alive hosts,
  known to the repository, no config twice. This needs nothing of the table the round finds.
\<close>

definition round_ok :: "('r, 'e) raft_api \<Rightarrow> leader_event \<Rightarrow> 'r Cluster \<Rightarrow> 'r Cluster \<Rightarrow> bool" where
  "round_ok api ev c c' \<longleftrightarrow> cluster_inv c' \<and>
     (table c' \<subseteq> table c \<or>
      (\<exists>ord names hs. ev = UpdateTick ord (Inr names) \<and> Peers api c = Inr hs \<and>
         one_host UNIV (table c') \<and> table c' \<subseteq> set hs \<times> set names))"

lemma tick_round:
  assumes api: "raft_ids_distinct api" and c: "cluster_inv c"
    and hs: "hs = (case Peers api c of Inl err \<Rightarrow> [] | Inr hs \<Rightarrow> hs)"
    and d: "cluster_distributeTasks api ord configs hs c = (c', e :: ('x, 'e cluster_error) sched_error option)"
  shows "cluster_inv c' \<and> (table c' \<subseteq> table c \<or> (\<exists>names. configs = Inr names \<and> Peers api c = Inr hs \<and>
    one_host UNIV (table c') \<and> table c' \<subseteq> set hs \<times> set names))"
proof -
  have "distinct hs" using Peers_ids_distinct [OF api] hs by (auto split: sum.split)
  from raft_cluster.distribute_any [OF c this d [unfolded cluster_distributeTasks_def]]
  consider "cluster_inv c'" "table c' \<subseteq> table c"
    | names where "cluster_inv c'" "configs = Inr names" "placed_ok (set hs) (set names) {} (table c')" by blast
  then show ?thesis
  proof cases
    case (2 names)
    then have p: "one_host UNIV (table c')" "table c' \<subseteq> set hs \<times> set names" using placed_everywhere by blast+
    show ?thesis
    proof (cases "Peers api c")
      case (Inl err)
      then have "table c' = {}" using p(2) hs by simp
      then show ?thesis using 2(1) by simp
    qed (use 2 p hs in simp)
  qed simp
qed

lemma leader_select_round:
  assumes api: "raft_ids_distinct api" and c: "cluster_inv c" and r: "leader_select api ev (c, f) = (c', f')"
  shows "round_ok api ev c c'"
proof (cases ev)
  case (ReconcileTick ord)
  then show ?thesis using leader_RECONCILE_ok [OF c, of api ord] r by (simp add: leader_select_def round_ok_def)
next
  case (UpdateTick ord configs)
  let ?hs = "case Peers api c of Inl err \<Rightarrow> [] | Inr hs \<Rightarrow> hs"
  obtain e where "cluster_distributeTasks api ord configs ?hs c = (c', e)"
    using r UpdateTick by (cases "cluster_distributeTasks api ord configs ?hs c") (simp add: leader_select_def)
  from tick_round [OF api c refl this] show ?thesis using UpdateTick unfolding round_ok_def by blast
next
  case (ReconcileReady ord)
  have q: "cluster_inv (c\<lparr>creconcileCh := q\<rparr>)" "table (c\<lparr>creconcileCh := q\<rparr>) = table c" for q
    using c by (simp_all add: cluster_inv_def table_def)
  have m: "round_ok api ev c (fst (reconcileMember api ord m (c\<lparr>creconcileCh := q\<rparr>)))" for m q
    using reconcileMember_ok [OF q(1), of api ord m q] q(2) by (metis prod.collapse round_ok_def)
  have "round_ok api ev c (c\<lparr>creconcileCh := q\<rparr>)" "round_ok api ev c c" for q
    using c q by (simp_all add: round_ok_def)
  then show ?thesis
    using ReconcileReady r m
    by (cases f; cases "creconcileCh c") (auto simp: leader_select_def Let_def split: if_splits)
qed

lemma apply_committed_inv: "cluster_inv c \<Longrightarrow> cluster_inv (apply_committed data c)"
  using FSM_Apply_ok [of "cfsm c" "Some data"] by (auto simp: cluster_inv_def apply_committed_def split: sum.split)

lemma node_reachable_inv:
  assumes "raft_ids_distinct api" and "node_reachable api hostname st"
  shows "cluster_inv (fst st)"
  using assms(2)
proof (induction rule: node_reachable.induct)
  case (start ms name cfg)
  then show ?case using new_fsm_inv by (simp add: cluster_inv_def new_cluster_def)
next
  case (restore c f cord ord hord rc d err)
  then show ?case using FSM_Restore_inv by (simp add: cluster_inv_def)
next
  case (leader st ev)
  then show ?case
    using leader_select_round [OF assms(1), of "fst st" ev "snd st"] by (metis prod.collapse round_ok_def)
qed (simp_all add: cluster_inv_def frame_simps apply_committed_inv [unfolded cluster_inv_def])

section \<open>Run and Shutdown\<close>

text \<open>
  \<open>Run\<close>: \<open>stopCh\<close> is its local variable, \<open>run_loops\<close> the stop channels of the
  \<open>leaderLoop\<close> goroutines it has started. A loop whose channel is open is live.
\<close>

record run_state =
  run_stopCh :: "nat option"
  run_next :: nat
  run_closed :: "nat set"
  run_loops :: "nat list"

definition run_start :: run_state where
  "run_start = \<lparr>run_stopCh = None, run_next = 0, run_closed = {}, run_loops = []\<rparr>"

definition run_notify :: "bool \<Rightarrow> run_state \<Rightarrow> gopanic + run_state" where
  "run_notify isLeader s =
     (if isLeader then
        Inr (s\<lparr>run_stopCh := Some (run_next s), run_next := Suc (run_next s),
               run_loops := run_loops s @ [run_next s]\<rparr>)
      else case run_stopCh s of
        None \<Rightarrow> Inr s
      | Some ch \<Rightarrow>
          if ch \<in> run_closed s then Inl CloseOfClosedChannel
          else Inr (s\<lparr>run_closed := insert ch (run_closed s), run_stopCh := None\<rparr>))"

fun run_all :: "bool list \<Rightarrow> run_state \<Rightarrow> gopanic + run_state" where
  "run_all [] s = Inr s"
| "run_all (b # bs) s = bind_sum (run_notify b s) (run_all bs)"

definition live_loops :: "run_state \<Rightarrow> nat list" where
  "live_loops s = filter (\<lambda>ch. ch \<notin> run_closed s) (run_loops s)"

text \<open>\<open>alternating b bs\<close>: the notifications differ from their predecessors, the first from \<open>b\<close>.\<close>

fun alternating :: "bool \<Rightarrow> bool list \<Rightarrow> bool" where
  "alternating b [] = True"
| "alternating b (b' # bs) = (b' \<noteq> b \<and> alternating b' bs)"

text \<open>How many notifications acquire a leadership the node already has.\<close>

fun repeats :: "bool \<Rightarrow> bool list \<Rightarrow> nat" where
  "repeats b [] = 0"
| "repeats b (b' # bs) = (if b \<and> b' then 1 else 0) + repeats b' bs"

definition run_inv :: "run_state \<Rightarrow> bool" where
  "run_inv s \<longleftrightarrow> (\<forall>ch\<in>set (run_loops s). ch < run_next s) \<and> distinct (run_loops s) \<and>
     run_closed s \<subseteq> set (run_loops s) \<and>
     (\<forall>ch. run_stopCh s = Some ch \<longrightarrow> ch \<in> set (run_loops s) \<and> ch \<notin> run_closed s)"

lemma run_notify_ok:
  assumes "run_inv s"
  shows "\<exists>s'. run_notify b s = Inr s' \<and> run_inv s' \<and> (run_stopCh s' \<noteq> None \<longleftrightarrow> b) \<and>
    length (live_loops s') + (if run_stopCh s \<noteq> None \<and> \<not> b then 1 else 0) =
      length (live_loops s) + (if b then 1 else 0)"
proof (cases b)
  case True
  let ?s = "s\<lparr>run_stopCh := Some (run_next s), run_next := Suc (run_next s),
    run_loops := run_loops s @ [run_next s]\<rparr>"
  have "run_next s \<notin> set (run_loops s)" "run_next s \<notin> run_closed s"
    using assms unfolding run_inv_def by auto
  then show ?thesis using True assms
    by (auto simp: run_notify_def run_inv_def live_loops_def less_Suc_eq)
next
  case False
  show ?thesis
  proof (cases "run_stopCh s")
    case None
    then show ?thesis using False assms by (simp add: run_notify_def)
  next
    case (Some ch)
    let ?s = "s\<lparr>run_closed := insert ch (run_closed s), run_stopCh := None\<rparr>"
    have ch: "ch \<in> set (run_loops s)" "ch \<notin> run_closed s" using assms Some by (auto simp: run_inv_def)
    have d: "distinct (live_loops s)" using assms by (simp add: run_inv_def live_loops_def)
    have "live_loops ?s = removeAll ch (live_loops s)"
      unfolding live_loops_def removeAll_filter_not_eq filter_filter
      by (rule filter_cong) auto
    moreover have "ch \<in> set (live_loops s)" using ch by (simp add: live_loops_def)
    ultimately have "Suc (length (live_loops ?s)) = length (live_loops s)"
      using length_removeAll_distinct [OF d] by (cases "live_loops s") auto
    moreover have "run_inv ?s" using assms ch(1) by (auto simp: run_inv_def)
    ultimately show ?thesis using False Some ch by (simp add: run_notify_def)
  qed
qed

lemma run_all_ok:
  assumes "run_inv s"
  shows "\<exists>s'. run_all bs s = Inr s' \<and>
    length (live_loops s') + (if run_stopCh s \<noteq> None then 1 else 0) =
      length (live_loops s) + repeats (run_stopCh s \<noteq> None) bs +
        (if last ((run_stopCh s \<noteq> None) # bs) then 1 else 0)"
  using assms
proof (induction bs arbitrary: s)
  case (Cons b bs)
  obtain s1 where s1: "run_notify b s = Inr s1" "run_inv s1" "run_stopCh s1 \<noteq> None \<longleftrightarrow> b"
    "length (live_loops s1) + (if run_stopCh s \<noteq> None \<and> \<not> b then 1 else 0) =
      length (live_loops s) + (if b then 1 else 0)"
    using run_notify_ok [OF Cons.prems] by blast
  obtain s' where s': "run_all bs s1 = Inr s'"
    "length (live_loops s') + (if b then 1 else 0) =
      length (live_loops s1) + repeats b bs + (if last (b # bs) then 1 else 0)"
    using Cons.IH [OF s1(2)] unfolding s1(3) by blast
  have "last ((run_stopCh s \<noteq> None) # b # bs) = last (b # bs)" by simp
  then show ?case using s1(1,4) s' by auto
qed auto

lemma repeats_alternating: "alternating b bs \<Longrightarrow> repeats b bs = 0"
  by (induction b bs rule: alternating.induct) auto

text \<open>
  \<open>Shutdown\<close> closes \<open>shutdownCh\<close> and then sets the field to nil. A goroutine that already waits
  in a select has read the channel; one that comes to its select later reads nil, and a receive
  from nil is never ready.
\<close>

record shutdown_state =
  sd_ch :: "nat option"
  sd_closed :: "nat set"

definition Shutdown :: "shutdown_state \<Rightarrow> gopanic + shutdown_state" where
  "Shutdown s = (case sd_ch s of
     None \<Rightarrow> Inr s
   | Some ch \<Rightarrow> if ch \<in> sd_closed s then Inl CloseOfClosedChannel
       else Inr (s\<lparr>sd_closed := insert ch (sd_closed s), sd_ch := None\<rparr>))"

definition receive_ready :: "nat option \<Rightarrow> shutdown_state \<Rightarrow> bool" where
  "receive_ready ch s = (case ch of None \<Rightarrow> False | Some n \<Rightarrow> n \<in> sd_closed s)"

section \<open>Properties\<close>

text \<open>
  A raft of one process, whose log commits at once, on which the hypotheses below hold: its state
  is the map from server IDs to addresses.
\<close>

definition memory_raft :: "((string \<times> string) list, string) raft_api" where
  "memory_raft =
     \<lparr>raft_Apply = \<lambda>d r. (r, Committed),
      raft_GetConfiguration = \<lambda>r. Inr (map (\<lambda>(i, a). \<lparr>srv_ID = i, srv_Address = a\<rparr>) (AList.clearjunk r)),
      raft_AddVoter = \<lambda>i a r. (AList.update i a r, None),
      raft_RemoveServer = \<lambda>i r. (AList.delete i r, None),
      raft_Barrier = \<lambda>r. (r, None),
      raft_IsLeader = \<lambda>_. True,
      raft_BootstrapCluster = \<lambda>_ _. None,
      raft_NewRaft = \<lambda>_ servers. Inr (map (\<lambda>s. (srv_ID s, srv_Address s)) servers)\<rparr>"

lemma memory_raft_ids: "raft_ids_distinct memory_raft"
  by (simp add: raft_ids_distinct_def memory_raft_def comp_def case_prod_beta distinct_clearjunk)

definition sample_member :: "string \<Rightarrow> Member" where
  "sample_member h = \<lparr>m_Name = h, m_Addr = h, m_Status = StatusAlive\<rparr>"

definition sample_config :: ClusterConfig where
  "sample_config = \<lparr>BindAddr = ''::'', RaftPort = 7, BootstrapExpect = 0, StartAsLeader = False,
     RaftUpdateInterval = 5 * Second\<rparr>"

definition sample_cluster :: "(string \<times> string) list Cluster" where
  "sample_cluster =
     (new_cluster ''a'' [sample_member ''a'', sample_member ''b''] sample_config)
       \<lparr>craft := Some [(''a'', ''a:7''), (''b'', ''b:7'')]\<rparr>"

definition sample_orders :: orders where
  "sample_orders = \<lparr>ord_stat = [], ord_dead = (\<lambda>_. []), ord_live = (\<lambda>_. []), ord_sort = [],
     ord_over = (\<lambda>_. []), ord_free = (\<lambda>_. [])\<rparr>"

definition sample_tick :: "(string \<times> string) list Cluster \<times> (string, string cluster_error) sched_error option" where
  "sample_tick = cluster_distributeTasks memory_raft sample_orders (Inr [''x'', ''y'', ''z'']) [''a'', ''b'']
     sample_cluster"

definition sample_node :: "(string \<times> string) list Cluster \<times> bool" where
  "sample_node = leader_select memory_raft (UpdateTick sample_orders (Inr [''x'', ''y'', ''z'']))
     (sample_cluster, False)"

definition sample_start :: "(string \<times> string) list Cluster" where
  "sample_start = new_cluster ''a'' [sample_member ''a'', sample_member ''b'']
     (sample_config\<lparr>BootstrapExpect := 2\<rparr>)"

definition sample_join :: MemberEvent where
  "sample_join = \<lparr>me_Type = EventMemberJoin, me_Members = [sample_member ''b'']\<rparr>"

lemma sample_tick_runs: "snd sample_tick = None"
  by code_simp

lemma sample_inv: "cluster_inv sample_cluster"
  using new_fsm_inv by (simp add: sample_cluster_def new_cluster_def cluster_inv_def)

lemma sample_table: "table sample_cluster = {}"
  by (simp add: sample_cluster_def new_cluster_def table_def new_fsm_def)

lemma sample_tick_eq: "cluster_distributeTasks memory_raft sample_orders (Inr [''x'', ''y'', ''z'']) [''a'', ''b'']
    sample_cluster = (fst sample_tick, None :: (string, string cluster_error) sched_error option)"
  using sample_tick_runs unfolding sample_tick_def by (metis prod.collapse)

lemma table_List: "(h, cfg) \<in> table c \<longleftrightarrow> cfg \<in> set (FSMStore_List [] h (fstore (cfsm c)))"
  by (simp add: table_def)


text \<open>A node that two other leaders told to run the same config on two hosts, and its own tick.\<close>

definition doubled_node :: "(string \<times> string) list Cluster" where
  "doubled_node =
     fold (\<lambda>h. apply_committed (marshal_command \<lparr>cmd_Type = cmdAssignConfig, cmd_Host = h, cmd_Config = ''x''\<rparr>))
       [''a'', ''b''] (EventHandler memory_raft ''a'' sample_join sample_start)"

definition doubled_round :: "(string \<times> string) list Cluster \<times> bool" where
  "doubled_round = leader_select memory_raft (UpdateTick sample_orders (Inr [''x'', ''y''])) (doubled_node, False)"


lemma tick_placed:
  assumes "cluster_inv c" and "hs \<noteq> []" and "distinct hs"
    and "cluster_distributeTasks api ord (Inr cfgs) hs c =
      (c', None :: ('x, 'e cluster_error) sched_error option)"
  shows "one_host UNIV (table c') \<and> table c' \<subseteq> set hs \<times> set cfgs \<and>
    card (set cfgs - snd ` table c') \<le> length cfgs mod length hs"
proof -
  obtain free where f: "partition_ok (set hs) (set cfgs) {} free (table c')"
    "length free \<le> length cfgs mod length hs"
    using raft_cluster.distribute_ok [OF assms(1-3)] assms(4)
    unfolding cluster_distributeTasks_def by blast
  note everywhere = placed_everywhere [OF partition_placed [OF f(1)]]
  have "snd ` table c' = owned (set hs) (table c')" using everywhere by (force simp: owned_def)
  then have "set cfgs - snd ` table c' \<subseteq> set free" using f(1) by (auto simp: partition_ok_def)
  then have "card (set cfgs - snd ` table c') \<le> length free"
    using card_mono card_length [of free] by (meson List.finite_set le_trans)
  then show ?thesis using everywhere f(2) by simp
qed

text \<open>
  C8. A tick of the scheduler that reports no error leaves a partition: every alive host holds only
  configs of the repository, no config is held twice, no other host holds any, and fewer configs
  than alive hosts, at most \<open>N mod n\<close>, are not assigned.
\<close>

theorem tick_partitions:
  assumes "cluster_inv c" and "hs \<noteq> []" and "distinct hs"
    and "cluster_distributeTasks api ord (Inr cfgs) hs c =
      (c', None :: ('x, 'e cluster_error) sched_error option)"
  shows "one_host UNIV (table c') \<and> table c' \<subseteq> set hs \<times> set cfgs \<and>
    card (set cfgs - snd ` table c') \<le> length cfgs mod length hs"
  by (rule tick_placed [OF assms])

theorem tick_partitions_witness:
  "card (set [''x'', ''y'', ''z''] - snd ` table (fst sample_tick)) \<le> 1"
  using tick_partitions [OF sample_inv _ _ sample_tick_eq]
  by (simp add: numeral_3_eq_3 [symmetric] numeral_2_eq_2 [symmetric])

text \<open>
  C9. A balanced cluster is left alone: if every config is on one alive host and every host holds
  the average or one more, a tick gives raft no command and changes nothing, whatever raft would
  answer.
\<close>

theorem balanced_tick_is_quiet:
  assumes "cluster_inv c" and "hs \<noteq> []" and "distinct hs"
    and "table c \<subseteq> set hs \<times> set cfgs" and "one_host UNIV (table c)" and "set cfgs \<subseteq> snd ` table c"
    and "\<And>h. h \<in> set hs \<Longrightarrow> card {cfg. (h, cfg) \<in> table c} \<in>
      {length cfgs div length hs, Suc (length cfgs div length hs)}"
  shows "cluster_distributeTasks api ord (Inr cfgs) hs c =
    (c, None :: ('x, 'e cluster_error) sched_error option)"
proof -
  have "one_host (set hs) (table c)" using assms(5) by (simp add: one_host_def)
  moreover have "set cfgs \<subseteq> owned (set hs) (table c)" using assms(4,6) by (force simp: owned_def)
  ultimately show ?thesis
    unfolding cluster_distributeTasks_def
    by (intro raft_cluster.distribute_stable [OF assms(1-4)])
      (use assms(7) in \<open>auto simp: raft_cluster.load_def\<close>)
qed

definition balanced_cluster :: "(string \<times> string) list Cluster" where
  "balanced_cluster = fst (cluster_distributeTasks memory_raft sample_orders (Inr [''x'', ''y'']) [''a'', ''b'']
     sample_cluster :: _ \<times> (string, string cluster_error) sched_error option)"

lemma balanced_cluster_tick: "cluster_distributeTasks memory_raft sample_orders (Inr [''x'', ''y'']) [''a'', ''b'']
    sample_cluster = (balanced_cluster, None :: (string, string cluster_error) sched_error option)"
proof -
  have "snd (cluster_distributeTasks memory_raft sample_orders (Inr [''x'', ''y'']) [''a'', ''b'']
    sample_cluster :: _ \<times> (string, string cluster_error) sched_error option) = None" by code_simp
  then show ?thesis unfolding balanced_cluster_def by (metis prod.collapse)
qed

lemma balanced_cluster_ok:
  shows "cluster_inv balanced_cluster" and "table balanced_cluster = {(''a'', ''x''), (''b'', ''y'')}"
proof -
  show "cluster_inv balanced_cluster"
    using tick_one_host [OF sample_inv _ _ balanced_cluster_tick] by (simp add: sample_table one_host_def)
  have on: "table balanced_cluster \<subseteq> {''a'', ''b''} \<times> UNIV"
    using tick_placed [OF sample_inv _ _ balanced_cluster_tick] by auto
  have "FSMStore_List [] ''a'' (fstore (cfsm balanced_cluster)) = [''x'']"
    "FSMStore_List [] ''b'' (fstore (cfsm balanced_cluster)) = [''y'']" by code_simp+
  then have "(''a'', cfg) \<in> table balanced_cluster \<longleftrightarrow> cfg = ''x''"
    "(''b'', cfg) \<in> table balanced_cluster \<longleftrightarrow> cfg = ''y''" for cfg by (simp_all add: table_List)
  then show "table balanced_cluster = {(''a'', ''x''), (''b'', ''y'')}" using on by auto
qed

theorem balanced_tick_is_quiet_witness:
  "table balanced_cluster = {(''a'', ''x''), (''b'', ''y'')} \<and>
    cluster_distributeTasks memory_raft sample_orders (Inr [''x'', ''y'']) [''a'', ''b''] balanced_cluster =
      (balanced_cluster, None :: (string, string cluster_error) sched_error option)"
proof -
  have one: "one_host UNIV (table balanced_cluster)" unfolding balanced_cluster_ok(2) one_host_def by auto
  have l: "card {cfg. (h, cfg) \<in> table balanced_cluster} = 1" if "h \<in> {''a'', ''b''}" for h
  proof -
    have "{cfg. (h, cfg) \<in> table balanced_cluster} = (if h = ''a'' then {''x''} else {''y''})"
      using that unfolding balanced_cluster_ok(2) by auto
    then show ?thesis by simp
  qed
  have "cluster_distributeTasks memory_raft sample_orders (Inr [''x'', ''y'']) [''a'', ''b''] balanced_cluster =
      (balanced_cluster, None :: (string, string cluster_error) sched_error option)"
  proof (rule balanced_tick_is_quiet [OF balanced_cluster_ok(1) _ _ _ one])
    show "card {cfg. (h, cfg) \<in> table balanced_cluster} \<in>
        {length [''x'', ''y''] div length [''a'', ''b''], Suc (length [''x'', ''y''] div length [''a'', ''b''])}"
      if "h \<in> set [''a'', ''b'']" for h using l [of h] that by simp
  qed (simp_all add: balanced_cluster_ok(2))
  then show ?thesis using balanced_cluster_ok(2) by blast
qed

text \<open>
  C10. What one tick leaves over the next one places: if every alive host holds exactly the average
  and the tick reports no error, every config is assigned afterwards, and none was moved.
\<close>

theorem leftover_is_placed:
  assumes "cluster_inv c" and "hs \<noteq> []" and "distinct hs" and "distinct cfgs"
    and "table c \<subseteq> set hs \<times> set cfgs" and "one_host UNIV (table c)"
    and "\<And>h. h \<in> set hs \<Longrightarrow> card {cfg. (h, cfg) \<in> table c} = length cfgs div length hs"
    and "cluster_distributeTasks api ord (Inr cfgs) hs c =
      (c', None :: ('x, 'e cluster_error) sched_error option)"
  shows "table c \<subseteq> table c' \<and> snd ` table c' = set cfgs"
proof -
  have "one_host (set hs) (table c)" using assms(6) by (simp add: one_host_def)
  then have p: "table c \<subseteq> table c' \<and> partition_ok (set hs) (set cfgs) {} [] (table c')"
    using raft_cluster.distribute_completes [OF assms(1-5)] assms(7,8)
    unfolding cluster_distributeTasks_def raft_cluster.load_def by blast
  then have "owned (set hs) (table c') = set cfgs" by (simp add: partition_ok_def)
  moreover have "table c' \<subseteq> set hs \<times> set cfgs"
    using placed_everywhere [OF partition_placed] p by blast
  ultimately have "snd ` table c' = set cfgs" unfolding owned_def by force
  then show ?thesis using p by blast
qed

theorem leftover_is_placed_witness:
  "snd ` table (fst (cluster_distributeTasks memory_raft sample_orders (Inr [''x'']) [''a'', ''b''] sample_cluster
      :: _ \<times> (string, string cluster_error) sched_error option)) = {''x''}"
proof -
  let ?r = "cluster_distributeTasks memory_raft sample_orders (Inr [''x'']) [''a'', ''b''] sample_cluster
    :: _ \<times> (string, string cluster_error) sched_error option"
  have "snd ?r = None" by code_simp
  then have "?r = (fst ?r, None)" by (metis prod.collapse)
  from leftover_is_placed [OF sample_inv _ _ _ _ _ _ this] show ?thesis
    by (simp add: sample_table one_host_def)
qed

text \<open>
  A tick gives a config only to a host of the list it was called with, and only a config the
  repository returned; a repository error, an empty list of hosts or an error of raft gives none.
\<close>

lemma tick_assigns_known:
  assumes "cluster_inv c" and "distinct hs" and "one_host UNIV (table c)"
    and "cluster_distributeTasks api ord configs hs c =
      (c', e :: ('x, 'e cluster_error) sched_error option)"
    and "(h, cfg) \<in> table c'" and "(h, cfg) \<notin> table c"
  shows "h \<in> set hs \<and> (\<exists>names. configs = Inr names \<and> cfg \<in> set names)"
  using tick_one_host [OF assms(1,3,2,4)] assms(5,6) by blast

lemma tick_assigns_known_example:
  "''a'' \<in> set [''a'', ''b''] \<and>
    (\<exists>names. (Inr [''x'', ''y'', ''z''] :: string + string list) = Inr names \<and> ''x'' \<in> set names)"
proof (rule tick_assigns_known [OF sample_inv _ _ sample_tick_eq])
  have "FSMStore_List [] ''a'' (fstore (cfsm (fst sample_tick))) = [''x'']" by code_simp
  then have "''x'' \<in> set (FSMStore_List [] ''a'' (fstore (cfsm (fst sample_tick))))" by simp
  then show "(''a'', ''x'') \<in> table (fst sample_tick)" by (simp add: table_def)
qed (simp_all add: sample_table one_host_def)

text \<open>
  C11. Reconciling a member that left or was reaped, when it reports no error, leaves that member
  without a config, and no other member loses one.
\<close>

theorem reconcile_removes_left:
  assumes "cluster_inv c" and "m_Name m \<noteq> c_Name c" and "m_Status m \<in> {StatusLeft, statusReap}"
    and "reconcileMember api ord m c = (c', None)"
  shows "table c' = {(h, cfg). (h, cfg) \<in> table c \<and> h \<noteq> m_Name m}"
proof -
  have "removeRaftPeer api ord m c = (c', None)" using assms(2-4) by (auto simp: reconcileMember_def)
  then have "table c' = table c - {m_Name m} \<times> UNIV" using removeRaftPeer_ok [OF assms(1)] by blast
  then show ?thesis by auto
qed

theorem reconcile_removes_left_witness:
  "table (fst (reconcileMember memory_raft [] ((sample_member ''b'')\<lparr>m_Status := StatusLeft\<rparr>) (fst sample_tick))) =
    {(h, cfg). (h, cfg) \<in> table (fst sample_tick) \<and> h \<noteq> ''b''}"
proof -
  let ?m = "(sample_member ''b'')\<lparr>m_Status := StatusLeft\<rparr>"
  let ?r = "reconcileMember memory_raft [] ?m (fst sample_tick)"
  have "snd ?r = None" by code_simp
  then have r: "?r = (fst ?r, None)" by (metis prod.collapse)
  have n: "m_Name ?m \<noteq> c_Name (fst sample_tick)" by code_simp
  have i: "cluster_inv (fst sample_tick)"
    using tick_one_host [OF sample_inv _ _ sample_tick_eq] by (simp add: sample_table one_host_def)
  show ?thesis using reconcile_removes_left [OF i n _ r] by (simp add: sample_member_def)
qed

text \<open>
  C12. \<open>Run\<close> never closes a channel twice, and the number of its live \<open>leaderLoop\<close> goroutines
  is one for a leader, none for a follower, plus one for every time raft announced a leadership the
  node already had: if the notifications alternate, no two loops are ever live.
\<close>

theorem run_loops_live:
  "\<exists>s. run_all ns run_start = Inr s \<and>
    length (live_loops s) = repeats False ns + (if last (False # ns) then 1 else 0) \<and>
    (\<not> alternating False ns \<or> length (live_loops s) \<le> 1)"
proof -
  have "run_inv run_start" by (simp add: run_inv_def run_start_def)
  from run_all_ok [OF this, of ns] obtain s where s: "run_all ns run_start = Inr s"
    "length (live_loops s) = repeats False ns + (if last (False # ns) then 1 else 0)"
    by (auto simp: run_start_def live_loops_def)
  then show ?thesis using repeats_alternating [of False ns] by auto
qed

theorem run_loops_live_witness:
  "length (live_loops (projr (run_all [True, False, True] run_start))) = 1"
  using run_loops_live [of "[True, False, True]"] by auto

text \<open>
  The queue of members to reconcile never holds more than 32: an event appends its members in
  order, as reaped ones if it is a reap event, until the queue is full, and drops the rest without
  waiting; a node that is not the leader queues nothing.
\<close>

lemma reconcile_queue_bounded:
  assumes "length (creconcileCh c) \<le> reconcileCap"
  shows "creconcileCh (localMemberEvent api e c) =
    (if IsLeader api c then take reconcileCap (creconcileCh c @
       map (\<lambda>m. if me_Type e = EventMemberReap then m\<lparr>m_Status := statusReap\<rparr> else m) (me_Members e))
     else creconcileCh c)"
  using enqueue_members_take [OF assms] by (simp add: localMemberEvent_def)

text \<open>
  \<open>Shutdown\<close> can be called again without a panic, and wakes a goroutine that already waits on
  the channel; but it sets the field to nil, so a goroutine that comes to its select afterwards,
  such as a leader busy in a tick, is not told.
\<close>

lemma shutdown_wakes_only_waiters:
  assumes "sd_ch s = Some ch" and "ch \<notin> sd_closed s"
  shows "\<exists>s'. Shutdown s = Inr s' \<and> receive_ready (sd_ch s) s' \<and> \<not> receive_ready (sd_ch s') s' \<and>
    Shutdown s' = Inr s'"
  using assms by (simp add: Shutdown_def receive_ready_def)

end
