(* ===== verification/Replicas.thy ===== *)
theory Replicas
  imports LeaderLoop "HOL-Library.Sublist"
begin

text \<open>
  The cluster as a whole: the nodes of the theories \<open>FSM\<close>, \<open>Cluster\<close> and \<open>LeaderLoop\<close> around one raft log. The leader's
  loop appends commands to the log, every node applies the entries of the log in order, may be brought up to date
  by the snapshot of another node, and starts again from nothing. The theorems are those the nodes only promise
  together: a config has one running task in the cluster.

  What raft is relied on for is its documentation: a node applies a prefix of the one committed log (\<open>applied\<close> is its length);
  only the leader appends; a command that \<open>raft.Apply\<close> accepted is appended and applied on the leader before it returns
  (\<open>raft_logs\<close>); a barrier that returned has had the leader apply the whole log (\<open>sync\<close>). Committed entries survive the restart of
  a node; the stores are in memory (\<open>setupRaft\<close>), so raft promises that only while a majority stays up, and when all nodes go down
  the log is lost (\<open>cold_start\<close>).

  The loop does not wait for its barrier: after one that failed it goes on to its ticks (\<open>combainer/leader.go\<close>, label \<open>WAIT\<close>). A
  leader that ticks before it has applied the log plans with an old table; such a round is \<open>stale_step\<close>, and may append
  any commands. The theorems say what holds with such rounds and what without.
\<close>

section \<open>The log\<close>

definition log_table :: "json list \<Rightarrow> (string \<times> string) set" where
  "log_table ds = fold spec_apply (map Some ds) {}"

definition raft_logs :: "('r, 'e) raft_api \<Rightarrow> ('r \<Rightarrow> json list) \<Rightarrow> bool" where
  "raft_logs api lg \<longleftrightarrow>
     (\<forall>d r. lg (fst (raft_Apply api d r)) =
       (case snd (raft_Apply api d r) of Refused err \<Rightarrow> lg r | _ \<Rightarrow> lg r @ [d])) \<and>
     (\<forall>i a r. lg (fst (raft_AddVoter api i a r)) = lg r) \<and>
     (\<forall>i r. lg (fst (raft_RemoveServer api i r)) = lg r) \<and>
     (\<forall>r. lg (fst (raft_Barrier api r)) = lg r)"

lemma log_table_snoc [simp]: "log_table (ds @ [d]) = spec_apply (Some d) (log_table ds)"
  by (simp add: log_table_def)

lemma log_table_Nil [simp]: "log_table [] = {}"
  by (simp add: log_table_def)

section \<open>The world\<close>

text \<open>\<open>wleader\<close> is the node raft has elected; \<open>wbarrier\<close> says that a barrier of its loop has returned since.\<close>

record 'r world =
  nodes :: "string \<Rightarrow> 'r Cluster"
  wlog :: "json list"
  applied :: "string \<Rightarrow> nat"
  wleader :: "string option"
  wbarrier :: bool

definition start_world :: "(string \<Rightarrow> Member list) \<Rightarrow> ClusterConfig \<Rightarrow> 'r world" where
  "start_world ms cfg =
     \<lparr>nodes = (\<lambda>n. new_cluster n (ms n) cfg), wlog = [], applied = (\<lambda>_. 0), wleader = None, wbarrier = False\<rparr>"

definition set_node :: "string \<Rightarrow> 'r Cluster \<Rightarrow> nat \<Rightarrow> 'r world \<Rightarrow> 'r world" where
  "set_node n c k w = w\<lparr>nodes := (nodes w)(n := c), applied := (applied w)(n := k)\<rparr>"

text \<open>
  The steps that leave the log alone: a node applies the next entry, restores a newer snapshot, or starts again, and then
  leads no more.
\<close>

inductive follow_step :: "'r world \<Rightarrow> 'r world \<Rightarrow> bool" where
  entry: "applied w n < length (wlog w) \<Longrightarrow>
    follow_step w (set_node n (apply_committed (wlog w ! applied w n) (nodes w n)) (Suc (applied w n)) w)"
| snapshot: "applied w n \<le> applied w m \<Longrightarrow>
    FSM_Restore cord ord hord (Some (FSM_Snapshot sord (cfsm (nodes w m)))) (cfsm (nodes w n)) = Inr (f, err) \<Longrightarrow>
    follow_step w (set_node n ((nodes w n)\<lparr>cfsm := f\<rparr>) (applied w m) w)"
| restart: "follow_step w (set_node n (new_cluster n ms cfg) 0
    (w\<lparr>wleader := (if wleader w = Some n then None else wleader w)\<rparr>))"

text \<open>
  \<open>elect\<close> and \<open>depose\<close>: raft changes its leader. \<open>sync\<close>: the barrier of the leader's loop returns. \<open>lead\<close>: one round of the loop of a
  leader whose barrier has returned, on the raft state it has by then. The round is one step; what the nodes do meanwhile
  with the commands it has already appended they could do as well after it. \<open>refused\<close>: a round of a node that is not the
  leader, to which raft refuses every command.
\<close>

inductive world_step :: "('r, 'e) raft_api \<Rightarrow> ('r \<Rightarrow> json list) \<Rightarrow> 'r world \<Rightarrow> 'r world \<Rightarrow> bool"
  for api :: "('r, 'e) raft_api" and lg :: "'r \<Rightarrow> json list" where
  follow: "follow_step w w' \<Longrightarrow> world_step api lg w w'"
| members: "world_step api lg w (set_node n ((nodes w n)\<lparr>cserf := Some ms\<rparr>) (applied w n) w)"
| serf_event: "world_step api lg w (set_node n (EventHandler api hostname e (nodes w n)) (applied w n) w)"
| refused: "cfsm c = cfsm (nodes w n) \<Longrightarrow> world_step api lg w (set_node n c (applied w n) w)"
| elect: "world_step api lg w (w\<lparr>wleader := Some n, wbarrier := False\<rparr>)"
| depose: "world_step api lg w (w\<lparr>wleader := None\<rparr>)"
| sync: "wleader w = Some n \<Longrightarrow>
    world_step api lg w (set_node n (fold apply_committed (drop (applied w n) (wlog w)) (nodes w n)) (length (wlog w)) w
      \<lparr>wbarrier := True\<rparr>)"
| lead: "wleader w = Some n \<Longrightarrow> wbarrier w \<Longrightarrow> lg r = wlog w \<Longrightarrow>
    leader_select api ev ((nodes w n)\<lparr>craft := Some r\<rparr>, f) = (c, f') \<Longrightarrow> craft c = Some r' \<Longrightarrow>
    world_step api lg w (set_node n c (length (lg r')) w\<lparr>wlog := lg r'\<rparr>)"
| cold_start: "world_step api lg w (start_world ms cfg)"

text \<open>
  A leader whose barrier has not returned: its loop may append any commands, having applied any part of the log, and applies
  any of the entries meanwhile. So is a leader into whose round the entries of another one fall.
\<close>

inductive stale_step :: "'r world \<Rightarrow> 'r world \<Rightarrow> bool" where
  stale: "wleader w = Some n \<Longrightarrow> \<not> wbarrier w \<Longrightarrow> L = wlog w @ map marshal_command cmds \<Longrightarrow>
    applied w n \<le> k \<Longrightarrow> k \<le> length L \<Longrightarrow>
    cfsm c = cfsm (fold apply_committed (take (k - applied w n) (drop (applied w n) L)) (nodes w n)) \<Longrightarrow>
    stale_step w (set_node n c k w\<lparr>wlog := L\<rparr>)"

definition any_step :: "('r, 'e) raft_api \<Rightarrow> ('r \<Rightarrow> json list) \<Rightarrow> 'r world \<Rightarrow> 'r world \<Rightarrow> bool" where
  "any_step api lg w w' \<longleftrightarrow> world_step api lg w w' \<or> stale_step w w'"

definition world_reachable :: "('r, 'e) raft_api \<Rightarrow> ('r \<Rightarrow> json list) \<Rightarrow> 'r world \<Rightarrow> bool" where
  "world_reachable api lg w \<longleftrightarrow> (\<exists>ms cfg. (any_step api lg)\<^sup>*\<^sup>* (start_world ms cfg) w)"

section \<open>The leader keeps to the log\<close>

text \<open>
  The state of a leader: its table is what its raft's log says, and the log has the property \<open>G\<close>, which has to survive the
  removal of an assignment and the assignment of a config that no host holds.
\<close>

definition logged :: "('r \<Rightarrow> json list) \<Rightarrow> string \<Rightarrow> (json list \<Rightarrow> bool) \<Rightarrow> 'r Cluster \<Rightarrow> bool" where
  "logged lg name G c \<longleftrightarrow> cluster_inv c \<and> c_Name c = name \<and>
     (\<exists>r. craft c = Some r \<and> G (lg r) \<and> table c = log_table (lg r))"

definition assign_entry :: "string \<Rightarrow> string \<Rightarrow> json" where
  "assign_entry h cfg = marshal_command \<lparr>cmd_Type = cmdAssignConfig, cmd_Host = h, cmd_Config = cfg\<rparr>"

definition remove_entry :: "string \<Rightarrow> string \<Rightarrow> json" where
  "remove_entry h cfg = marshal_command \<lparr>cmd_Type = cmdRemoveConfig, cmd_Host = h, cmd_Config = cfg\<rparr>"

definition log_closed :: "(json list \<Rightarrow> bool) \<Rightarrow> bool" where
  "log_closed G \<longleftrightarrow> (\<forall>L h cfg. G L \<longrightarrow> G (L @ [remove_entry h cfg]) \<and>
     (cfg \<notin> snd ` log_table L \<longrightarrow> G (L @ [assign_entry h cfg])))"

lemma spec_apply_entries [simp]:
  "spec_apply (Some (assign_entry h cfg)) A = insert (h, cfg) A"
  "spec_apply (Some (remove_entry h cfg)) A = A - {(h, cfg)}"
  using command_roundtrip by (simp_all add: assign_entry_def remove_entry_def)

lemma logged_inv: "logged lg name G c \<Longrightarrow> cluster_inv c"
  by (simp add: logged_def)

lemma raft_logsD:
  assumes "raft_logs api lg"
  shows "raft_Apply api d r = (r', out) \<Longrightarrow> lg r' = (case out of Refused err \<Rightarrow> lg r | _ \<Rightarrow> lg r @ [d])"
    and "raft_AddVoter api i a r = (r', e) \<Longrightarrow> lg r' = lg r"
    and "raft_RemoveServer api i r = (r', e) \<Longrightarrow> lg r' = lg r"
    and "raft_Barrier api r = (r', e) \<Longrightarrow> lg r' = lg r"
proof -
  note laws = assms [unfolded raft_logs_def]
  show "raft_Apply api d r = (r', out) \<Longrightarrow> lg r' = (case out of Refused err \<Rightarrow> lg r | _ \<Rightarrow> lg r @ [d])"
    using laws [THEN conjunct1, THEN spec, THEN spec, of d r] by simp
  show "raft_AddVoter api i a r = (r', e) \<Longrightarrow> lg r' = lg r"
    using laws [THEN conjunct2, THEN conjunct1, THEN spec, THEN spec, THEN spec, of i a r] by simp
  show "raft_RemoveServer api i r = (r', e) \<Longrightarrow> lg r' = lg r"
    using laws [THEN conjunct2, THEN conjunct2, THEN conjunct1, THEN spec, THEN spec, of i r] by simp
  show "raft_Barrier api r = (r', e) \<Longrightarrow> lg r' = lg r"
    using laws [THEN conjunct2, THEN conjunct2, THEN conjunct2, THEN spec, of r] by simp
qed

lemma apply_committed_effect:
  assumes "cluster_inv c"
  shows "table (apply_committed d c) = spec_apply (Some d) (table c) \<and> cluster_inv (apply_committed d c) \<and>
    c_Name (apply_committed d c) = c_Name c \<and> craft (apply_committed d c) = craft c"
proof -
  obtain f where "FSM_Apply (Some d) (cfsm c) = Inr f" "fsm_inv f" "Name f = Name (cfsm c)"
    "assigned (fstore f) = spec_apply (Some d) (assigned (fstore (cfsm c)))"
    using FSM_Apply_ok assms unfolding cluster_inv_def by blast
  then show ?thesis by (simp add: apply_committed_def table_def cluster_inv_def c_Name_def)
qed

lemma logged_same_log:
  assumes "logged lg name G c" and "cfsm c' = cfsm c"
    and "\<And>r. craft c = Some r \<Longrightarrow> \<exists>r'. craft c' = Some r' \<and> lg r' = lg r"
  shows "logged lg name G c'"
proof -
  obtain r where r: "craft c = Some r" "G (lg r)" "table c = log_table (lg r)"
    and i: "cluster_inv c" "c_Name c = name"
    using assms(1) by (auto simp: logged_def)
  obtain r' where "craft c' = Some r'" "lg r' = lg r" using assms(3) [OF r(1)] by blast
  then show ?thesis using r i assms(2) by (simp add: logged_def c_Name_def cluster_inv_def table_def)
qed

lemma raftApply_logged:
  assumes lg: "raft_logs api lg" and c: "logged lg name G c" and r: "raftApply api cmd c = (c', e)"
    and G: "\<And>L. G L \<Longrightarrow> log_table L = table c \<Longrightarrow> G (L @ [marshal_command cmd])"
  shows "logged lg name G c'"
proof -
  obtain r0 where r0: "craft c = Some r0" "G (lg r0)" "table c = log_table (lg r0)"
    and i: "cluster_inv c" "c_Name c = name"
    using c by (auto simp: logged_def)
  let ?d = "marshal_command cmd"
  obtain r1 out where a: "raft_Apply api ?d r0 = (r1, out)" by (metis surj_pair)
  note l = raft_logsD(1) [OF lg a]
  let ?c = "c\<lparr>craft := Some r1\<rparr>"
  have i1: "cluster_inv ?c" "table ?c = table c" "c_Name ?c = name"
    using i by (simp_all add: cluster_inv_def table_def c_Name_def)
  have "logged lg name G (apply_committed ?d ?c)" if "lg r1 = lg r0 @ [?d]"
    using apply_committed_effect [OF i1(1), of ?d] i1 r0 that G by (simp add: logged_def)
  moreover have "logged lg name G ?c" if "lg r1 = lg r0"
    using i1 r0 that by (simp add: logged_def)
  ultimately show ?thesis using r r0(1) a l by (cases out) (auto simp: raftApply_def Let_def)
qed

lemma commands_logged:
  assumes lg: "raft_logs api lg \<and> log_closed G" and c: "logged lg name G c"
  shows "cfg \<notin> snd ` table c \<Longrightarrow> assignConfig api c h cfg = (c', e) \<Longrightarrow> logged lg name G c'"
    and "releaseConfig api c h cfg = (c', e) \<Longrightarrow> logged lg name G c'"
    and "raftApply api \<lparr>cmd_Type = cmdRemoveConfig, cmd_Host = h, cmd_Config = cfg\<rparr> c = (c', e') \<Longrightarrow> logged lg name G c'"
proof -
  note G = conjunct2 [OF lg, unfolded log_closed_def assign_entry_def remove_entry_def, rule_format]
  note ap = raftApply_logged [OF conjunct1 [OF lg] c]
  show "cfg \<notin> snd ` table c \<Longrightarrow> assignConfig api c h cfg = (c', e) \<Longrightarrow> logged lg name G c'"
    using ap G by (auto simp: assignConfig_def Let_def wrap_command_iff)
  show "releaseConfig api c h cfg = (c', e) \<Longrightarrow> logged lg name G c'"
    using ap G by (auto simp: releaseConfig_def Let_def wrap_command_iff)
  show "raftApply api \<lparr>cmd_Type = cmdRemoveConfig, cmd_Host = h, cmd_Config = cfg\<rparr> c = (c', e') \<Longrightarrow> logged lg name G c'"
    using ap G by blast
qed

lemma addRaftPeer_logged:
  assumes lg: "raft_logs api lg \<and> log_closed G" and c: "logged lg name G c"
  shows "addRaftPeer api m c = (c', e) \<Longrightarrow> logged lg name G c'"
proof -
  assume a: "addRaftPeer api m c = (c', e)"
  have "\<exists>r'. craft c' = Some r' \<and> lg r' = lg r" if r: "craft c = Some r" for r
    using a r raft_logsD(2) [OF conjunct1 [OF lg]] by (cases "raft_GetConfiguration api r")
      (force simp: addRaftPeer_def Let_def split: if_splits option.splits prod.splits)+
  then show ?thesis by (rule logged_same_log [OF c addRaftPeer_table [OF a]])
qed

lemma remove_configs_logged:
  "raft_logs api lg \<and> log_closed G \<Longrightarrow> logged lg name G c \<Longrightarrow> remove_configs api h cfgs c = (c', e) \<Longrightarrow> logged lg name G c'"
proof (induction cfgs arbitrary: c)
  case (Cons cfg cfgs)
  then show ?case
    by (auto split: prod.splits option.splits dest: commands_logged(3) [OF Cons.prems(1,2)])
qed simp

lemma removeRaftPeer_logged:
  assumes lg: "raft_logs api lg \<and> log_closed G" and c: "logged lg name G c" and a: "removeRaftPeer api ord m c = (c', e)"
  shows "logged lg name G c'"
proof -
  obtain c1 e1 where r: "remove_configs api (m_Name m) (FSMStore_List ord (m_Name m) (fstore (cfsm c))) c = (c1, e1)"
    by (metis surj_pair)
  have c1: "logged lg name G c1" by (rule remove_configs_logged [OF lg c r])
  have "cfsm c' = cfsm c1"
    using a r
    by (cases e1; cases "craft c1"; cases "raft_GetConfiguration api (the (craft c1))";
        cases "raft_RemoveServer api (m_Name m) (the (craft c1))")
      (auto simp: removeRaftPeer_def Let_def split: if_splits option.splits)
  moreover have "\<exists>r'. craft c' = Some r' \<and> lg r' = lg r2" if "craft c1 = Some r2" for r2
    using a r that raft_logsD(3) [OF conjunct1 [OF lg]] by (cases e1; cases "raft_GetConfiguration api r2")
      (force simp: removeRaftPeer_def Let_def split: if_splits option.splits prod.splits)+
  ultimately show ?thesis using logged_same_log [OF c1] by blast
qed

lemma reconcileMember_logged:
  assumes "raft_logs api lg \<and> log_closed G" and "logged lg name G c" and "reconcileMember api ord m c = (c', e)"
  shows "logged lg name G c'"
proof -
  consider "c' = c" | "addRaftPeer api m c = (c', e)" | "removeRaftPeer api ord m c = (c', e)"
    using assms(3) by (auto simp: reconcileMember_def split: if_splits MemberStatus.splits)
  then show ?thesis
    using assms(2) addRaftPeer_logged [OF assms(1,2)] removeRaftPeer_logged [OF assms(1,2)] by cases auto
qed

lemma reconcile_members_logged:
  "raft_logs api lg \<and> log_closed G \<Longrightarrow> logged lg name G c \<Longrightarrow> reconcile_members api ord i ms c = (c', e) \<Longrightarrow> logged lg name G c'"
proof (induction ms arbitrary: c i)
  case (Cons m ms)
  obtain c1 e1 where r: "reconcileMember api (ord i) m c = (c1, e1)" by (metis surj_pair)
  then have "logged lg name G c1" by (rule reconcileMember_logged [OF Cons.prems(1,2)])
  then show ?case using Cons r by (cases e1) auto
qed simp

lemma leader_RECONCILE_logged:
  assumes lg: "raft_logs api lg \<and> log_closed G" and c: "logged lg name G c"
  shows "logged lg name G (fst (leader_RECONCILE api ord c))"
proof -
  obtain r where r: "craft c = Some r" using c by (auto simp: logged_def)
  obtain r1 e where b: "raft_Barrier api r = (r1, e)" by (metis surj_pair)
  have c1: "logged lg name G (c\<lparr>craft := Some r1\<rparr>)"
    by (intro logged_same_log [OF c]) (use r raft_logsD(4) [OF conjunct1 [OF lg] b] in auto)
  obtain c2 e2 where r2: "reconcile api ord (c\<lparr>craft := Some r1\<rparr>) = (c2, e2)" by (metis surj_pair)
  then have "logged lg name G c2"
    using reconcile_members_logged [OF lg c1] unfolding reconcile_def by blast
  then show ?thesis using r b r2 c1 by (cases e; cases e2) (auto simp: leader_RECONCILE_def)
qed

text \<open>The contract of the scheduler holds for states that keep to the log, so a tick ends in one.\<close>

lemma logged_ops:
  assumes lg: "raft_logs api lg \<and> log_closed G"
  shows "cluster_ops (logged lg name G) table (\<lambda>ord h c. FSMStore_List ord h (fstore (cfsm c)))
    (\<lambda>ord c. FSMStore_DistributionStatistic ord (fstore (cfsm c))) (assignConfig api) (releaseConfig api)"
proof
  fix s s' :: "'a Cluster" and ord h c and r :: "'b cluster_error option" and e
  assume s: "logged lg name G s"
  note i = logged_inv [OF s]
  show "set (FSMStore_List ord h (fstore (cfsm s))) = {c. (h, c) \<in> table s}" by (rule raft_cluster.set_list [OF i])
  show "distinct (FSMStore_List ord h (fstore (cfsm s)))" by (rule raft_cluster.distinct_list [OF i])
  show "fst ` table s \<subseteq> fst ` set (FSMStore_DistributionStatistic ord (fstore (cfsm s)))"
    by (rule raft_cluster.stat_hosts [OF i])
  show "c \<notin> snd ` table s \<Longrightarrow> assignConfig api s h c = (s', r) \<Longrightarrow> logged lg name G s'" by (rule commands_logged(1) [OF lg s])
  show "releaseConfig api s h c = (s', r) \<Longrightarrow> logged lg name G s'" by (rule commands_logged(2) [OF lg s])
  show "assignConfig api s h c = (s', None) \<Longrightarrow> table s' = insert (h, c) (table s)"
    by (rule raft_cluster.asn_ok [OF i])
  show "releaseConfig api s h c = (s', None) \<Longrightarrow> table s' = table s - {(h, c)}" by (rule raft_cluster.rel_ok [OF i])
  show "assignConfig api s h c = (s', Some e) \<Longrightarrow> table s' = table s \<or> table s' = insert (h, c) (table s)"
    by (rule raft_cluster.asn_err [OF i])
  show "releaseConfig api s h c = (s', Some e) \<Longrightarrow> table s' = table s \<or> table s' = table s - {(h, c)}"
    by (rule raft_cluster.rel_err [OF i])
qed

lemma tick_logged:
  assumes "raft_logs api lg \<and> log_closed G" and "logged lg name G c" and "distinct hs"
    and "cluster_distributeTasks api ord configs hs c = (c', e)"
  shows "logged lg name G c'"
  using cluster_ops.distribute_any [OF logged_ops [OF assms(1)] assms(2,3)] assms(4)
  unfolding cluster_distributeTasks_def by blast

lemma leader_select_logged:
  assumes lg: "raft_logs api lg \<and> log_closed G" and ids: "raft_ids_distinct api" and c: "logged lg name G c"
    and step: "leader_select api ev (c, f) = (c', f')"
  shows "logged lg name G c'"
proof (cases ev)
  case (ReconcileTick ord)
  then show ?thesis using leader_RECONCILE_logged [OF lg c, of ord] step by (simp add: leader_select_def)
next
  case (UpdateTick ord configs)
  let ?hs = "case Peers api c of Inl err \<Rightarrow> [] | Inr hs \<Rightarrow> hs"
  have "distinct ?hs" using Peers_ids_distinct [OF ids] by (auto split: sum.split)
  then show ?thesis
    using tick_logged [OF lg c] step UpdateTick
    by (cases "cluster_distributeTasks api ord configs ?hs c") (simp add: leader_select_def)
next
  case (ReconcileReady ord)
  have q: "logged lg name G (c\<lparr>creconcileCh := q\<rparr>)" for q by (rule logged_same_log [OF c]) simp_all
  then have "logged lg name G (fst (reconcileMember api ord m (c\<lparr>creconcileCh := q\<rparr>)))" for m q
    using reconcileMember_logged [OF lg q] by (metis prod.collapse)
  then show ?thesis
    using step ReconcileReady c q
    by (cases f; cases "creconcileCh c") (auto simp: leader_select_def Let_def split: if_splits)
qed

section \<open>The invariant of the world\<close>

definition node_ok :: "json list \<Rightarrow> string \<Rightarrow> 'r Cluster \<Rightarrow> nat \<Rightarrow> bool" where
  "node_ok L n c k \<longleftrightarrow> cluster_inv c \<and> c_Name c = n \<and> k \<le> length L \<and> table c = log_table (take k L)"

definition world_inv :: "'r world \<Rightarrow> bool" where
  "world_inv w \<longleftrightarrow> (\<forall>n. node_ok (wlog w) n (nodes w n) (applied w n)) \<and>
     (\<forall>n. wleader w = Some n \<and> wbarrier w \<longrightarrow> applied w n = length (wlog w))"

text \<open>No config is assigned twice by any part of the log from its \<open>m\<close>-th entry on.\<close>

definition clean_from :: "nat \<Rightarrow> json list \<Rightarrow> bool" where
  "clean_from m L \<longleftrightarrow> (\<forall>k\<ge>m. one_host UNIV (log_table (take k L)))"

lemma clean_fromD: "clean_from m L \<Longrightarrow> one_host UNIV (log_table L)"
  unfolding clean_from_def by (metis linorder_le_cases take_all order_refl)

lemma clean_from_length: "one_host UNIV (log_table L) \<Longrightarrow> clean_from (length L) L"
  by (simp add: clean_from_def)

lemma clean_from_snoc:
  assumes "clean_from m L" and "one_host UNIV (spec_apply (Some d) (log_table L))"
  shows "clean_from m (L @ [d])"
  unfolding clean_from_def
proof (intro allI impI)
  fix k assume "m \<le> k"
  then show "one_host UNIV (log_table (take k (L @ [d])))"
    using assms by (cases "k \<le> length L") (simp_all add: clean_from_def)
qed

lemma one_host_insert: "one_host UNIV A \<Longrightarrow> c \<notin> snd ` A \<Longrightarrow> one_host UNIV (insert (h, c) A)"
  unfolding one_host_def by force

lemma log_closed_prefix: "log_closed (prefix L)"
  by (simp add: log_closed_def)

lemma log_closed_clean: "log_closed (\<lambda>L'. prefix L L' \<and> clean_from m L')"
  unfolding log_closed_def
  by (auto intro!: clean_from_snoc one_host_insert dest: clean_fromD intro: one_host_mono)

lemma world_invD:
  "world_inv w \<Longrightarrow> node_ok (wlog w) n (nodes w n) (applied w n)"
  "world_inv w \<Longrightarrow> wleader w = Some n \<Longrightarrow> wbarrier w \<Longrightarrow> applied w n = length (wlog w)"
  by (simp_all add: world_inv_def)

lemma set_node_simps [simp]:
  "wlog (set_node n c k w) = wlog w" "wleader (set_node n c k w) = wleader w" "wbarrier (set_node n c k w) = wbarrier w"
  "nodes (set_node n c k w) = (nodes w)(n := c)" "applied (set_node n c k w) = (applied w)(n := k)"
  by (simp_all add: set_node_def)

lemma set_node_inv:
  "world_inv w \<Longrightarrow> node_ok (wlog w) n c k \<Longrightarrow> applied w n \<le> k \<or> wleader w \<noteq> Some n \<Longrightarrow> world_inv (set_node n c k w)"
  by (auto simp: world_inv_def node_ok_def)

lemma node_ok_same_fsm: "node_ok L n c k \<Longrightarrow> cfsm c' = cfsm c \<Longrightarrow> node_ok L n c' k"
  by (simp add: node_ok_def cluster_inv_def table_def c_Name_def)

lemma node_ok_new: "node_ok L n (new_cluster n ms cfg) 0"
  using new_fsm_inv
  by (simp add: node_ok_def cluster_inv_def c_Name_def table_def new_cluster_def new_fsm_def assigned_def
      NewFSMStore_def cell_def)

lemma node_ok_entry:
  assumes "node_ok L n c k" and "k < length L"
  shows "node_ok L n (apply_committed (L ! k) c) (Suc k)"
proof -
  have c: "cluster_inv c" using assms(1) by (simp add: node_ok_def)
  show ?thesis
    using apply_committed_effect [OF c, of "L ! k"] assms by (simp add: node_ok_def take_Suc_conv_app_nth)
qed

lemma node_ok_entries:
  "node_ok L n c k \<Longrightarrow> k + j \<le> length L \<Longrightarrow> node_ok L n (fold apply_committed (take j (drop k L)) c) (k + j)"
proof (induction j)
  case (Suc j)
  have "take (Suc j) (drop k L) = take j (drop k L) @ [L ! (k + j)]"
    using Suc.prems(2) by (simp add: take_Suc_conv_app_nth)
  then show ?case using node_ok_entry [of L n _ "k + j"] Suc by simp
qed simp

lemma node_ok_prefix: "node_ok L n c k \<Longrightarrow> prefix L L' \<Longrightarrow> node_ok L' n c k"
  by (elim prefixE) (simp add: node_ok_def)

lemma restore_snapshot:
  assumes "fsm_inv c" and "fsm_inv d"
    and "FSM_Restore cord ord hord (Some (FSM_Snapshot sord c)) d = Inr (f, err)"
  shows "fsm_inv f \<and> Name f = Name d \<and> assigned (fstore f) = assigned (fstore c)"
  using snapshot_assigned [OF assms(1,2), of cord ord hord sord] FSM_Restore_inv [OF assms(2,3)] assms(3) by auto

lemma follow_step_inv: "follow_step w w' \<Longrightarrow> world_inv w \<Longrightarrow> world_inv w' \<and> wlog w' = wlog w"
proof (induction rule: follow_step.induct)
  case (entry w n)
  then show ?case using set_node_inv [OF _ node_ok_entry [OF world_invD(1)]] by simp
next
  case (snapshot w n m cord ord hord sord f err)
  note ok = world_invD(1) [OF snapshot.prems, of n] world_invD(1) [OF snapshot.prems, of m]
  have "fsm_inv (cfsm (nodes w n))" "fsm_inv (cfsm (nodes w m))"
    using ok by (simp_all add: node_ok_def cluster_inv_def)
  from restore_snapshot [OF this(2,1) snapshot.hyps(2)]
  have "node_ok (wlog w) n ((nodes w n)\<lparr>cfsm := f\<rparr>) (applied w m)"
    using ok by (simp add: node_ok_def cluster_inv_def c_Name_def table_def)
  then show ?case using set_node_inv [OF snapshot.prems] snapshot.hyps(1) by simp
next
  case (restart w n ms cfg)
  then have "world_inv (w\<lparr>wleader := (if wleader w = Some n then None else wleader w)\<rparr>)" by (simp add: world_inv_def)
  then show ?case by (simp add: set_node_inv node_ok_new)
qed

lemma follow_steps_inv: "follow_step\<^sup>*\<^sup>* w w' \<Longrightarrow> world_inv w \<Longrightarrow> world_inv w' \<and> wlog w' = wlog w"
  by (induction rule: rtranclp_induct) (auto dest: follow_step_inv)

text \<open>
  A leader whose barrier has returned starts its round in a logged state, and leaves the world well, with whatever its
  commands keep of the log.
\<close>

lemma leader_logged:
  assumes "world_inv w" and "wleader w = Some n" and "wbarrier w" and "lg r = wlog w" and "G (wlog w)"
  shows "logged lg n G ((nodes w n)\<lparr>craft := Some r\<rparr>)"
    and "cluster_inv ((nodes w n)\<lparr>craft := Some r\<rparr>)"
  using world_invD(1) [OF assms(1), of n] world_invD(2) [OF assms(1-3)] assms(4,5)
  by (simp_all add: logged_def node_ok_def c_Name_def cluster_inv_def table_def)

lemma append_inv:
  assumes w: "world_inv w" and L: "prefix (wlog w) L" and n: "wleader w = Some n" and c: "node_ok L n c k"
    and k: "wbarrier w \<Longrightarrow> k = length L"
  shows "world_inv (set_node n c k w\<lparr>wlog := L\<rparr>)"
  using node_ok_prefix [OF world_invD(1) [OF w] L] c n k by (simp add: world_inv_def)

lemma leader_leaves:
  assumes w: "world_inv w" and n: "wleader w = Some n" and c: "logged lg n G c" "craft c = Some r"
    and G: "\<And>L. G L \<Longrightarrow> prefix (wlog w) L"
  shows "world_inv (set_node n c (length (lg r)) w\<lparr>wlog := lg r\<rparr>) \<and> G (lg r)"
  using c append_inv [OF w G n, of "lg r" c "length (lg r)"] by (auto simp: logged_def node_ok_def)

lemma world_step_keeps:
  assumes "raft_ids_distinct api" and "raft_logs api lg" and "world_step api lg w w'" and "world_inv w"
  shows "world_inv w' \<and> (clean_from m (wlog w) \<longrightarrow> clean_from m (wlog w'))"
  using assms(3,4)
proof (induction rule: world_step.induct)
  case (follow w w')
  then show ?case using follow_step_inv by metis
next
  case (sync w n)
  note ok = world_invD(1) [OF sync.prems, of n]
  then have "node_ok (wlog w) n (fold apply_committed (drop (applied w n) (wlog w)) (nodes w n)) (length (wlog w))"
    using node_ok_entries [OF ok, of "length (wlog w) - applied w n"] by (simp add: node_ok_def)
  then show ?case using sync by (simp add: world_inv_def)
next
  case (lead w n r ev f c f' r')
  have G: "world_inv (set_node n c (length (lg r')) w\<lparr>wlog := lg r'\<rparr>) \<and> G (lg r')"
    if "log_closed G" "G (wlog w)" "\<And>L. G L \<Longrightarrow> prefix (wlog w) L" for G
  proof -
    note start = leader_logged [where lg = lg, OF lead.prems lead.hyps(1-3), where G = G, OF that(2)]
    have "logged lg n G c"
      using leader_select_logged [OF conjI [OF assms(2) that(1)] assms(1) start(1) lead.hyps(4)] .
    then show ?thesis by (rule leader_leaves [OF lead.prems lead.hyps(1) _ lead.hyps(5) that(3)])
  qed
  show ?case using G [OF log_closed_prefix, of "wlog w"] G [OF log_closed_clean, of "wlog w" m] by simp
next
  case (cold_start w ms cfg)
  show ?case by (simp add: world_inv_def start_world_def node_ok_new clean_from_def one_host_def)
qed (auto simp: world_inv_def frame_simps intro: node_ok_same_fsm)

lemma stale_step_inv:
  assumes "stale_step w w'" and "world_inv w"
  shows "world_inv w'"
  using assms
proof (induction rule: stale_step.induct)
  case (stale w n L cmds k c)
  have p: "prefix (wlog w) L" using stale.hyps(3) by simp
  note ok = node_ok_prefix [OF world_invD(1) [OF stale.prems, of n] p]
  have "node_ok L n c k"
    using node_ok_same_fsm [OF node_ok_entries [OF ok, of "k - applied w n"] stale.hyps(6)] stale.hyps(4,5) by simp
  then show ?case using append_inv [OF stale.prems p stale.hyps(1)] stale.hyps(2) by blast
qed

lemma start_world_inv: "world_inv (start_world ms cfg)"
  by (simp add: world_inv_def start_world_def node_ok_new)

lemma world_reachable_inv:
  assumes "raft_ids_distinct api" and "raft_logs api lg" and "world_reachable api lg w"
  shows "world_inv w"
proof -
  obtain ms cfg where "(any_step api lg)\<^sup>*\<^sup>* (start_world ms cfg) w"
    using assms(3) by (auto simp: world_reachable_def)
  then show ?thesis
    by (induction rule: rtranclp_induct)
      (auto simp: any_step_def intro: start_world_inv stale_step_inv dest: world_step_keeps [OF assms(1,2)])
qed

lemma world_steps_keep:
  assumes "raft_ids_distinct api" and "raft_logs api lg" and "(world_step api lg)\<^sup>*\<^sup>* w w'" and "world_inv w"
  shows "world_inv w' \<and> (clean_from m (wlog w) \<longrightarrow> clean_from m (wlog w'))"
  using assms(3) by (induction rule: rtranclp_induct) (use assms(4) world_step_keeps [OF assms(1,2)] in blast)+

section \<open>Catching up\<close>

lemma catch_up_node:
  "applied w n \<le> length (wlog w) \<Longrightarrow>
    \<exists>w'. follow_step\<^sup>*\<^sup>* w w' \<and> wlog w' = wlog w \<and> applied w' = (applied w)(n := length (wlog w))"
proof (induction "length (wlog w) - applied w n" arbitrary: w)
  case 0
  then have "applied w n = length (wlog w)" by simp
  then have "applied w = (applied w)(n := length (wlog w))" by (metis fun_upd_triv)
  then show ?case by blast
next
  case (Suc k)
  let ?w = "set_node n (apply_committed (wlog w ! applied w n) (nodes w n)) (Suc (applied w n)) w"
  have step: "follow_step w ?w" by (rule follow_step.entry) (use Suc.hyps(2) in simp)
  have "\<exists>w'. follow_step\<^sup>*\<^sup>* ?w w' \<and> wlog w' = wlog ?w \<and> applied w' = (applied ?w)(n := length (wlog ?w))"
    by (rule Suc.hyps(1)) (use Suc.hyps(2) in \<open>simp_all add: set_node_def\<close>)
  then show ?case
    using converse_rtranclp_into_rtranclp [of follow_step, OF step] by (force simp: set_node_def)
qed

lemma catch_up:
  assumes "world_inv w"
  shows "\<exists>w'. follow_step\<^sup>*\<^sup>* w w' \<and> (\<forall>h\<in>set hs. applied w' h = length (wlog w'))"
proof (induction hs)
  case (Cons h hs)
  then obtain w1 where w1: "follow_step\<^sup>*\<^sup>* w w1" "\<forall>h\<in>set hs. applied w1 h = length (wlog w1)" by blast
  have "applied w1 h \<le> length (wlog w1)"
    using world_invD [OF conjunct1 [OF follow_steps_inv [OF w1(1) assms]], of h] by (simp add: node_ok_def)
  from catch_up_node [OF this] obtain w2 where w2: "follow_step\<^sup>*\<^sup>* w1 w2" "wlog w2 = wlog w1"
    "applied w2 = (applied w1)(h := length (wlog w1))" by blast
  have "\<forall>x\<in>set (h # hs). applied w2 x = length (wlog w2)" using w1(2) w2(2,3) by simp
  then show ?case using w1(1) w2(1) by (meson rtranclp_trans)
qed auto

text \<open>What runs on a node is what the log it has applied says.\<close>

lemma runs_log:
  assumes "world_inv w"
  shows "fst ` running (cfsm (nodes w n)) = {cfg. (n, cfg) \<in> log_table (take (applied w n) (wlog w))}"
proof -
  have ok: "fsm_inv (cfsm (nodes w n))" "Name (cfsm (nodes w n)) = n"
    "assigned (fstore (cfsm (nodes w n))) = log_table (take (applied w n) (wlog w))"
    using world_invD [OF assms, of n] by (simp_all add: node_ok_def cluster_inv_def c_Name_def table_def)
  then show ?thesis using running_assigned [OF ok(1)] by simp
qed

lemma caught_up_runs:
  "world_inv w \<Longrightarrow> applied w h = length (wlog w) \<Longrightarrow>
    cfg \<in> fst ` running (cfsm (nodes w h)) \<longleftrightarrow> (h, cfg) \<in> log_table (wlog w)"
  by (simp add: runs_log)

text \<open>Nodes that run what a placement gives them run each placed config once.\<close>

lemma placed_runs:
  assumes one: "one_host UNIV T" and sub: "T \<subseteq> set hs \<times> set cfgs" and left: "card (set cfgs - snd ` T) \<le> k"
    and runs: "\<And>h cfg. h \<in> set hs \<Longrightarrow> cfg \<in> R h \<longleftrightarrow> (h, cfg) \<in> T"
  shows "(\<forall>h\<in>set hs. R h \<subseteq> set cfgs) \<and>
    card {cfg \<in> set cfgs. \<not> (\<exists>!h. h \<in> set hs \<and> cfg \<in> R h)} \<le> k"
proof
  show "\<forall>h\<in>set hs. R h \<subseteq> set cfgs" using runs sub by blast
  have "\<exists>!h. h \<in> set hs \<and> cfg \<in> R h" if "cfg \<in> snd ` T" for cfg
  proof -
    obtain h where h: "(h, cfg) \<in> T" using \<open>cfg \<in> snd ` T\<close> by auto
    then have "h \<in> set hs \<and> cfg \<in> R h" using runs sub by blast
    moreover have "h' = h" if "h' \<in> set hs \<and> cfg \<in> R h'" for h'
      using one h runs that unfolding one_host_def by blast
    ultimately show ?thesis by blast
  qed
  then have "{cfg \<in> set cfgs. \<not> (\<exists>!h. h \<in> set hs \<and> cfg \<in> R h)} \<subseteq> set cfgs - snd ` T" by blast
  then show "card {cfg \<in> set cfgs. \<not> (\<exists>!h. h \<in> set hs \<and> cfg \<in> R h)} \<le> k"
    using left card_mono [of "set cfgs - snd ` T"] by (meson List.finite_set finite_Diff le_trans)
qed

section \<open>Example\<close>

text \<open>A raft of one process that keeps the log; the state is the servers and the log.\<close>

definition log_raft :: "((string \<times> string) list \<times> json list, string) raft_api" where
  "log_raft =
     \<lparr>raft_Apply = (\<lambda>d (s, l). ((s, l @ [d]), Committed)),
      raft_GetConfiguration = (\<lambda>(s, l). raft_GetConfiguration memory_raft s),
      raft_AddVoter = (\<lambda>i a (s, l). ((AList.update i a s, l), None)),
      raft_RemoveServer = (\<lambda>i (s, l). ((AList.delete i s, l), None)),
      raft_Barrier = (\<lambda>r. (r, None)),
      raft_IsLeader = (\<lambda>_. True),
      raft_BootstrapCluster = (\<lambda>_ _. None),
      raft_NewRaft = (\<lambda>_ servers. Inr (map (\<lambda>s. (srv_ID s, srv_Address s)) servers, []))\<rparr>"

lemma log_raft_logs: "raft_logs log_raft snd"
  by (simp add: raft_logs_def log_raft_def case_prod_beta)

lemma log_raft_ids: "raft_ids_distinct log_raft"
  using memory_raft_ids by (simp add: raft_ids_distinct_def log_raft_def case_prod_beta)

definition two_members :: "string \<Rightarrow> Member list" where
  "two_members n = [sample_member ''a'', sample_member ''b'']"

definition two_nodes :: "((string \<times> string) list \<times> json list) world" where
  "two_nodes = start_world two_members sample_config"

text \<open>
  The first leader ticks without its barrier, and the log gives the config \<open>x\<close> to both nodes; then its barrier returns.
\<close>

definition early_log :: "json list" where
  "early_log = [assign_entry ''a'' ''x'', assign_entry ''b'' ''x'']"

definition led_world :: "((string \<times> string) list \<times> json list) world" where
  "led_world = set_node ''a'' (fold apply_committed early_log (nodes two_nodes ''a'')) 2
     (two_nodes\<lparr>wlog := early_log, wleader := Some ''a'', wbarrier := True\<rparr>)"

definition two_servers :: "(string \<times> string) list \<times> json list" where
  "two_servers = ([(''a'', ''a:7''), (''b'', ''b:7'')], early_log)"

definition heal_tick :: "((string \<times> string) list \<times> json list) Cluster \<times> (string, string cluster_error) sched_error option" where
  "heal_tick = cluster_distributeTasks log_raft sample_orders (Inr [''x'', ''y'']) [''a'', ''b'']
     ((nodes led_world ''a'')\<lparr>craft := Some two_servers\<rparr>)"

definition healed_world :: "((string \<times> string) list \<times> json list) world" where
  "healed_world = (let l = snd (the (craft (fst heal_tick))) in set_node ''a'' (fst heal_tick) (length l) led_world\<lparr>wlog := l\<rparr>)"

lemma two_nodes_simps [simp]: "wlog two_nodes = []" "applied two_nodes n = 0"
  by (simp_all add: two_nodes_def start_world_def)

lemma early_log_length [simp]: "length early_log = 2"
  by (simp add: early_log_def)

lemma three_steps: "r a b \<Longrightarrow> r b c \<Longrightarrow> r c d \<Longrightarrow> r\<^sup>*\<^sup>* a d"
  by (blast intro: rtranclp.rtrancl_into_rtrancl)

lemma led_world_reachable: "world_reachable log_raft snd led_world"
proof -
  let ?w1 = "two_nodes\<lparr>wleader := Some ''a'', wbarrier := False\<rparr>"
  let ?w2 = "set_node ''a'' (nodes ?w1 ''a'') 0 ?w1\<lparr>wlog := early_log\<rparr>"
  have s1: "any_step log_raft snd two_nodes ?w1" unfolding any_step_def by (intro disjI1 world_step.elect)
  have "stale_step ?w1 ?w2"
    by (rule stale_step.stale [where cmds = "map (\<lambda>h. \<lparr>cmd_Type = cmdAssignConfig, cmd_Host = h, cmd_Config = ''x''\<rparr>) [''a'', ''b'']"])
      (simp_all add: early_log_def assign_entry_def)
  then have s2: "any_step log_raft snd ?w1 ?w2" unfolding any_step_def by blast
  have "world_step log_raft snd ?w2 led_world"
  proof -
    have "led_world = set_node ''a'' (fold apply_committed (drop (applied ?w2 ''a'') (wlog ?w2)) (nodes ?w2 ''a''))
        (length (wlog ?w2)) ?w2\<lparr>wbarrier := True\<rparr>"
      by (rule world.equality) (simp_all add: led_world_def)
    then show ?thesis using world_step.sync [of ?w2 "''a''" log_raft snd] by simp
  qed
  then have s3: "any_step log_raft snd ?w2 led_world" unfolding any_step_def by blast
  have "(any_step log_raft snd)\<^sup>*\<^sup>* two_nodes led_world"
    by (rule three_steps [where r = "any_step log_raft snd", OF s1 s2 s3])
  then show ?thesis unfolding world_reachable_def two_nodes_def by blast
qed

lemma heal_tick_runs: "snd heal_tick = None"
  by code_simp

lemma heal_peers: "Peers log_raft ((nodes led_world ''a'')\<lparr>craft := Some two_servers\<rparr>) = Inr [''a'', ''b'']"
  by code_simp

lemma heal_log: "craft (fst heal_tick) = Some (fst two_servers, early_log @ [remove_entry ''b'' ''x'', assign_entry ''b'' ''y''])"
  by code_simp

lemma healed_world_step: "world_step log_raft snd led_world healed_world"
proof -
  have "leader_select log_raft (UpdateTick sample_orders (Inr [''x'', ''y''])) ((nodes led_world ''a'')\<lparr>craft := Some two_servers\<rparr>, False) =
      (fst heal_tick, False)"
    using heal_peers by (simp add: leader_select_def heal_tick_def)
  from world_step.lead [where lg = snd and w = led_world, OF _ _ _ this heal_log] show ?thesis
    by (simp add: healed_world_def heal_log led_world_def two_servers_def)
qed

lemma follow_world_steps: "follow_step\<^sup>*\<^sup>* w w' \<Longrightarrow> (world_step api lg)\<^sup>*\<^sup>* w w'"
  by (induction rule: rtranclp_induct) (auto intro: world_step.follow rtranclp.rtrancl_into_rtrancl)

lemma reachable_steps: "world_reachable api lg w \<Longrightarrow> (world_step api lg)\<^sup>*\<^sup>* w w' \<Longrightarrow> world_reachable api lg w'"
proof -
  assume w: "world_reachable api lg w" and s: "(world_step api lg)\<^sup>*\<^sup>* w w'"
  from s have "(any_step api lg)\<^sup>*\<^sup>* w w'"
    by (induction rule: rtranclp_induct) (auto simp: any_step_def intro: rtranclp.rtrancl_into_rtrancl)
  then show ?thesis using w unfolding world_reachable_def by (meson rtranclp_trans)
qed

lemma healed_world_ok:
  shows "world_inv healed_world" and "world_reachable log_raft snd healed_world"
    and "log_table (wlog healed_world) = {(''a'', ''x''), (''b'', ''y'')}"
proof -
  show r: "world_reachable log_raft snd healed_world"
    by (rule reachable_steps [OF led_world_reachable r_into_rtranclp [of "world_step log_raft snd", OF healed_world_step]])
  show "world_inv healed_world" by (rule world_reachable_inv [OF log_raft_ids log_raft_logs r])
  show "log_table (wlog healed_world) = {(''a'', ''x''), (''b'', ''y'')}"
    by (auto simp: healed_world_def heal_log early_log_def log_table_def)
qed

section \<open>Properties\<close>



text \<open>
  C2. After a tick without an error of a leader whose barrier has returned the cluster runs the repository, even where
  leaders that ticked too early had given configs to two hosts: the log assigns no config twice, and once the nodes have
  applied it, which they can always do, every config of the repository runs on exactly one alive node, but for at
  most \<open>N mod n\<close> of them, and no alive node runs anything else.
\<close>

theorem tick_runs_repository:
  assumes "raft_ids_distinct api" and "raft_logs api lg" and "world_reachable api lg w"
    and "wleader w = Some n" and "wbarrier w" and "lg r = wlog w"
    and "Peers api ((nodes w n)\<lparr>craft := Some r\<rparr>) = Inr hs" and "hs \<noteq> []"
    and "cluster_distributeTasks api ord (Inr cfgs) hs ((nodes w n)\<lparr>craft := Some r\<rparr>) =
      (c, None :: (string, 'e cluster_error) sched_error option)"
  shows "\<exists>w1. world_step api lg w w1 \<and> nodes w1 n = c \<and> one_host UNIV (log_table (wlog w1)) \<and>
    (\<exists>w2. follow_step\<^sup>*\<^sup>* w1 w2 \<and> (\<forall>h\<in>set hs. applied w2 h = length (wlog w2))) \<and>
    (\<forall>w2. follow_step\<^sup>*\<^sup>* w1 w2 \<and> (\<forall>h\<in>set hs. applied w2 h = length (wlog w2)) \<longrightarrow>
      (\<forall>h\<in>set hs. fst ` running (cfsm (nodes w2 h)) \<subseteq> set cfgs) \<and>
      card {cfg \<in> set cfgs. \<not> (\<exists>!h. h \<in> set hs \<and> cfg \<in> fst ` running (cfsm (nodes w2 h)))}
        \<le> length cfgs mod length hs)"
proof -
  let ?c = "(nodes w n)\<lparr>craft := Some r\<rparr>"
  have w: "world_inv w" by (rule world_reachable_inv [OF assms(1-3)])
  note start = leader_logged [where lg = lg, OF w assms(4-6), where G = "prefix (wlog w)"]
  have hs: "distinct hs" by (rule Peers_ids_distinct [OF assms(1,7)])
  have part: "one_host UNIV (table c)" "table c \<subseteq> set hs \<times> set cfgs"
    "card (set cfgs - snd ` table c) \<le> length cfgs mod length hs"
    using tick_placed [OF start(2) _ hs assms(9)] assms(8) by blast+
  obtain r' where r': "craft c = Some r'" "table c = log_table (lg r')"
    using tick_logged [OF conjI [OF assms(2) log_closed_prefix] start(1) hs assms(9)] by (auto simp: logged_def)
  define w1 where "w1 = set_node n c (length (lg r')) w\<lparr>wlog := lg r'\<rparr>"
  have "leader_select api (UpdateTick ord (Inr cfgs)) (?c, False) = (c, False)"
    using assms(7,9) by (simp add: leader_select_def)
  from world_step.lead [where lg = lg, OF assms(4-6) this r'(1)] have step: "world_step api lg w w1" unfolding w1_def .
  have w1: "world_inv w1" "wlog w1 = lg r'" "nodes w1 n = c"
    using world_step_keeps [OF assms(1,2) step w] by (simp_all add: w1_def)
  have "(\<forall>h\<in>set hs. fst ` running (cfsm (nodes w2 h)) \<subseteq> set cfgs) \<and>
      card {cfg \<in> set cfgs. \<not> (\<exists>!h. h \<in> set hs \<and> cfg \<in> fst ` running (cfsm (nodes w2 h)))} \<le> length cfgs mod length hs"
    if f: "follow_step\<^sup>*\<^sup>* w1 w2" "\<forall>h\<in>set hs. applied w2 h = length (wlog w2)" for w2
  proof -
    have w2: "world_inv w2" "wlog w2 = lg r'" using follow_steps_inv [OF f(1) w1(1)] w1(2) by simp_all
    have runs: "cfg \<in> fst ` running (cfsm (nodes w2 h)) \<longleftrightarrow> (h, cfg) \<in> table c" if "h \<in> set hs" for h cfg
      using caught_up_runs [OF w2(1)] f(2) that by (simp add: w2(2) r'(2))
    show ?thesis by (rule placed_runs [OF part runs])
  qed
  moreover have "one_host UNIV (log_table (wlog w1))" using part(1) w1(2) r'(2) by simp
  ultimately show ?thesis using step w1(3) catch_up [OF w1(1), of hs] by blast
qed

theorem tick_runs_repository_witness:
  "{(''a'', ''x''), (''b'', ''x'')} \<subseteq> log_table (wlog led_world) \<and>
    (\<exists>w1 w2. world_step log_raft snd led_world w1 \<and> follow_step\<^sup>*\<^sup>* w1 w2 \<and>
      (\<exists>!h. h \<in> {''a'', ''b''} \<and> ''x'' \<in> fst ` running (cfsm (nodes w2 h))))"
proof -
  have t: "cluster_distributeTasks log_raft sample_orders (Inr [''x'', ''y'']) [''a'', ''b'']
      ((nodes led_world ''a'')\<lparr>craft := Some two_servers\<rparr>) =
      (fst heal_tick, None :: (string, string cluster_error) sched_error option)"
    unfolding heal_tick_def [symmetric] by (rule prod_eqI) (simp_all only: fst_conv snd_conv heal_tick_runs)
  have l: "wleader led_world = Some ''a''" "wbarrier led_world" "snd two_servers = wlog led_world"
    by (simp_all add: led_world_def two_servers_def)
  from tick_runs_repository [OF log_raft_ids log_raft_logs led_world_reachable l heal_peers list.distinct(2) t]
  obtain w1 w2 where w: "world_step log_raft snd led_world w1" "follow_step\<^sup>*\<^sup>* w1 w2"
    "card {cfg \<in> set [''x'', ''y'']. \<not> (\<exists>!h. h \<in> set [''a'', ''b''] \<and> cfg \<in> fst ` running (cfsm (nodes w2 h)))}
      \<le> length [''x'', ''y''] mod length [''a'', ''b'']" by blast
  have all: "P x" if "card {cfg \<in> set cfgs. \<not> P cfg} \<le> 0" "x \<in> set cfgs" for P x and cfgs :: "string list"
    using that by auto
  have "\<exists>!h. h \<in> set [''a'', ''b''] \<and> ''x'' \<in> fst ` running (cfsm (nodes w2 h))"
    by (rule all [OF order_trans [OF w(3)]]) simp_all
  then have "\<exists>!h. h \<in> {''a'', ''b''} \<and> ''x'' \<in> fst ` running (cfsm (nodes w2 h))" unfolding list.set .
  moreover have "{(''a'', ''x''), (''b'', ''x'')} \<subseteq> log_table (wlog led_world)"
    by (simp add: led_world_def early_log_def log_table_def)
  ultimately show ?thesis using w(1,2) by (intro conjI exI)
qed

text \<open>
  The barrier is needed: the tick of a leader that has not applied the one entry of the log, which gives \<open>x\<close> to the other node,
  gives it to itself as well.
\<close>

definition stale_log :: "json list" where
  "stale_log = [assign_entry ''b'' ''x'']"

lemma stale_tick_doubles:
  "let r = craft (fst (cluster_distributeTasks log_raft sample_orders (Inr [''x'']) [''a'', ''b'']
      ((nodes two_nodes ''a'')\<lparr>craft := Some (fst two_servers, stale_log)\<rparr>)
      :: _ \<times> (string, string cluster_error) sched_error option))
   in {(''a'', ''x''), (''b'', ''x'')} \<subseteq> log_table (snd (the r))"
proof -
  have "craft (fst (cluster_distributeTasks log_raft sample_orders (Inr [''x'']) [''a'', ''b'']
      ((nodes two_nodes ''a'')\<lparr>craft := Some (fst two_servers, stale_log)\<rparr>)
      :: _ \<times> (string, string cluster_error) sched_error option)) =
    Some (fst two_servers, stale_log @ [assign_entry ''a'' ''x''])"
    by code_simp
  then show ?thesis by (simp add: log_table_def stale_log_def)
qed

end
