(* ===== verification/Repository.thy ===== *)
theory Repository
  imports Cluster
begin

text \<open>
  \<open>repository/repository.go\<close> and \<open>repository/configs.go\<close>: the configuration files of combaine.
  The file system is an argument, a function from directory and file name to the content of the
  file, with the listing of a directory; so are the YAML decoders, which belong to a library. A
  Go map that may be nil is an option: writing to a nil map panics, reading one finds nothing.
\<close>

section \<open>Data\<close>

text \<open>The dynamic types a decoded YAML value may have.\<close>

datatype val = VNil | VBool bool | VInt int | VFloat string | VString string | VBytes string
  | VList "val list" | VMap "(string \<times> val) list"

type_synonym PluginConfig = "(string, val) gomap option"

record CacheConfig =
  TTL :: int
  Interval :: int

record MainSection =
  ms_Cluster :: ClusterConfig
  ms_ParallelParsings :: int
  ms_DistributeAggregation :: string
  ms_IterationDuration :: "64 word"
  ms_CloudGroups :: "string list"
  ms_HostFetcher :: PluginConfig
  ms_Cache :: CacheConfig

record CloudSection =
  cs_DataFetcher :: PluginConfig
  cs_HostFetcher :: PluginConfig

record CombainerConfig =
  cc_MainSection :: MainSection
  cc_CloudSection :: CloudSection

record AggregationConfig =
  ac_Data :: "(string, PluginConfig) gomap"
  ac_Senders :: "(string, PluginConfig) gomap"

text \<open>\<open>HostFetcher\<close> of a parsing config is its own field; the one of its main section is hidden.\<close>

record ParsingConfig =
  pc_Groups :: "string list"
  pc_AggConfigs :: "string list"
  pc_DataFetcher :: PluginConfig
  pc_Metahost :: string
  pc_MainSection :: MainSection
  pc_HostFetcher :: PluginConfig

section \<open>Reading the repository\<close>

definition typeKey :: string where "typeKey = ''type''"
definition classKey :: string where "classKey = ''class''"
definition parsingSuffix :: string where "parsingSuffix = ''parsing''"
definition aggregateSuffix :: string where "aggregateSuffix = ''aggregate''"
definition combaineConfig :: string where "combaineConfig = ''combaine.yaml''"

text \<open>The repository directory, seen through \<open>ioutil.ReadFile\<close> and \<open>ioutil.ReadDir\<close>; the root is \<open>[]\<close>.\<close>

record 'e filesystem =
  ReadFile :: "string \<Rightarrow> string \<Rightarrow> 'e + string"
  ReadDir :: "string \<Rightarrow> 'e + (string \<times> bool) list"

definition readConfig :: "'e filesystem \<Rightarrow> string \<Rightarrow> string \<Rightarrow> 'e + string" where
  "readConfig fs dir name = ReadFile fs dir name"

definition GetParsingConfig :: "'e filesystem \<Rightarrow> string \<Rightarrow> 'e + string" where
  "GetParsingConfig fs name = readConfig fs parsingSuffix (name @ ''.yaml'')"

definition GetAggregationConfig :: "'e filesystem \<Rightarrow> string \<Rightarrow> 'e + string" where
  "GetAggregationConfig fs name = readConfig fs aggregateSuffix (name @ ''.yaml'')"

text \<open>
  \<open>yaml.Unmarshal\<close> fills the value it is given; with an error it leaves what it had decoded by
  then, which \<open>GetCombainerConfig\<close> returns. The decoder gives both.
\<close>

definition NewCombaineConfig :: "'e filesystem \<Rightarrow> (string \<Rightarrow> CombainerConfig \<times> 'e option) \<Rightarrow>
    CombainerConfig \<Rightarrow> CombainerConfig \<times> 'e option" where
  "NewCombaineConfig fs decode zero =
     (case readConfig fs [] combaineConfig of
        Inl err \<Rightarrow> (zero, Some err)
      | Inr data \<Rightarrow> decode data)"

definition GetCombainerConfig :: "'e filesystem \<Rightarrow> (string \<Rightarrow> CombainerConfig \<times> 'e option) \<Rightarrow>
    CombainerConfig \<Rightarrow> CombainerConfig" where
  "GetCombainerConfig fs decode zero = fst (NewCombaineConfig fs decode zero)"

definition isConfig :: "string \<Rightarrow> bool" where
  "isConfig name = (if HasSuffix name ''.yaml'' then True else False)"

text \<open>\<open>path.Ext\<close>: from the last dot on, if no slash follows it.\<close>

definition Ext :: "string \<Rightarrow> string" where
  "Ext name =
     (let k = takeWhile (\<lambda>c. c \<noteq> CHR ''.'' \<and> c \<noteq> CHR ''/'') (rev name) in
      if length k < length name \<and> rev name ! length k = CHR ''.'' then CHR ''.'' # rev k else [])"

definition lsConfigs :: "'e filesystem \<Rightarrow> string \<Rightarrow> 'e + string list" where
  "lsConfigs fs dir =
     (case ReadDir fs dir of
        Inl err \<Rightarrow> Inl err
      | Inr listing \<Rightarrow> Inr (map (\<lambda>(name, isDir). TrimSuffix name (Ext name))
          (filter (\<lambda>(name, isDir). isConfig name \<and> \<not> isDir) listing)))"

definition ListParsingConfigs :: "'e filesystem \<Rightarrow> 'e + string list" where
  "ListParsingConfigs fs = lsConfigs fs parsingSuffix"

definition ListAggregationConfigs :: "'e filesystem \<Rightarrow> 'e + string list" where
  "ListAggregationConfigs fs = lsConfigs fs aggregateSuffix"

text \<open>\<open>GetAggregationConfigs\<close> also sets the default list of names in the parsing config.\<close>

fun load_aggregations :: "'e filesystem \<Rightarrow> (string \<Rightarrow> 'e + AggregationConfig) \<Rightarrow> string list \<Rightarrow>
    (string, AggregationConfig) gomap \<Rightarrow> 'e + (string, AggregationConfig) gomap" where
  "load_aggregations fs decode [] m = Inr m"
| "load_aggregations fs decode (name # names) m =
     (case GetAggregationConfig fs name of
        Inl err \<Rightarrow> Inl err
      | Inr content \<Rightarrow> (case decode content of
          Inl err \<Rightarrow> Inl err
        | Inr aggConfig \<Rightarrow> load_aggregations fs decode names (AList.update name aggConfig m)))"

definition GetAggregationConfigs :: "'e filesystem \<Rightarrow> (string \<Rightarrow> 'e + AggregationConfig) \<Rightarrow> string \<Rightarrow>
    ParsingConfig \<Rightarrow> ParsingConfig \<times> ('e + (string, AggregationConfig) gomap)" where
  "GetAggregationConfigs fs decode pName p =
     (let p = (if pc_AggConfigs p = [] then p\<lparr>pc_AggConfigs := [pName]\<rparr> else p) in
      (p, load_aggregations fs decode (pc_AggConfigs p) []))"

section \<open>Checks and updates\<close>

text \<open>\<open>IterationDuration\<close> is unsigned: not positive means zero.\<close>

definition VerifyCombainerConfig :: "CombainerConfig \<Rightarrow> CombainerConfig \<times> string option" where
  "VerifyCombainerConfig cfg =
     (let ms = cc_MainSection cfg in
      if ms_IterationDuration ms \<le> 0 then (cfg, Some ''MINIMUM_PERIOD must be positive'')
      else
        let c = ms_Cache ms;
            c = (if TTL c \<le> 0 then c\<lparr>TTL := 5\<rparr> else c);
            c = (if Interval c \<le> 0 then c\<lparr>Interval := 15\<rparr> else c)
        in (cfg\<lparr>cc_MainSection := ms\<lparr>ms_Cache := c\<rparr>\<rparr>, None))"

fun plugin_updates :: "(string, val) gomap \<Rightarrow> string list \<Rightarrow> PluginConfig \<Rightarrow> gopanic + PluginConfig" where
  "plugin_updates source [] target = Inr target"
| "plugin_updates source (k # ks) target =
     (case target of
        None \<Rightarrow> Inl AssignmentToNilMap
      | Some t \<Rightarrow> plugin_updates source ks (Some (AList.update k (lookup_zero VNil source k) t)))"

definition PluginConfigsUpdate :: "nat list \<Rightarrow> PluginConfig \<Rightarrow> PluginConfig \<Rightarrow> gopanic + PluginConfig" where
  "PluginConfigsUpdate ord target source =
     (case source of
        None \<Rightarrow> Inr target
      | Some s \<Rightarrow> plugin_updates s (range_keys ord s) target)"

definition UpdateByCombainerConfig :: "nat list \<Rightarrow> nat list \<Rightarrow> CombainerConfig \<Rightarrow> ParsingConfig \<Rightarrow>
    gopanic + ParsingConfig \<times> CombainerConfig" where
  "UpdateByCombainerConfig dord hord config p =
     (let ms = pc_MainSection p;
          ms = (if ms_IterationDuration ms = 0
                then ms\<lparr>ms_IterationDuration := ms_IterationDuration (cc_MainSection config)\<rparr> else ms);
          ms = (if ms_DistributeAggregation ms = []
                then ms\<lparr>ms_DistributeAggregation := ms_DistributeAggregation (cc_MainSection config)\<rparr> else ms);
          p = p\<lparr>pc_MainSection := ms\<rparr>;
          cloud = cc_CloudSection config
      in bind_sum (PluginConfigsUpdate dord (cs_DataFetcher cloud) (pc_DataFetcher p)) (\<lambda>df.
         bind_sum (PluginConfigsUpdate hord (cs_HostFetcher cloud) (pc_HostFetcher p)) (\<lambda>hf.
           let p = p\<lparr>pc_DataFetcher := df, pc_HostFetcher := hf\<rparr>;
               p = (if pc_Metahost p = [] then
                      (case pc_Groups p of [] \<Rightarrow> p | g # _ \<Rightarrow> p\<lparr>pc_Metahost := g\<rparr>)
                    else p)
           in Inr (p, config\<lparr>cc_CloudSection := \<lparr>cs_DataFetcher = df, cs_HostFetcher = hf\<rparr>\<rparr>))))"

datatype plugin_error = MissingValue | InvalidArgumentType | NotBool

definition plugin_get :: "PluginConfig \<Rightarrow> string \<Rightarrow> val option" where
  "plugin_get p k = (case p of None \<Rightarrow> None | Some m \<Rightarrow> map_of m k)"

definition text_value :: "val option \<Rightarrow> plugin_error + string" where
  "text_value v = (case v of
     None \<Rightarrow> Inl MissingValue
   | Some (VString s) \<Rightarrow> Inr s
   | Some (VBytes s) \<Rightarrow> Inr s
   | Some _ \<Rightarrow> Inl InvalidArgumentType)"

definition PluginConfig_Type :: "PluginConfig \<Rightarrow> plugin_error + string" where
  "PluginConfig_Type p = text_value (plugin_get p typeKey)"

definition PluginConfig_Class :: "PluginConfig \<Rightarrow> plugin_error + string" where
  "PluginConfig_Class p = text_value (plugin_get p classKey)"

definition PluginConfig_GetBool :: "PluginConfig \<Rightarrow> string \<Rightarrow> plugin_error + bool" where
  "PluginConfig_GetBool p key = (case plugin_get p key of
     None \<Rightarrow> Inr False
   | Some (VBool b) \<Rightarrow> Inr b
   | Some _ \<Rightarrow> Inl NotBool)"

section \<open>Lemmas\<close>

lemma Ext_yaml: "isConfig name \<Longrightarrow> Ext name = ''.yaml''"
proof -
  assume "isConfig name"
  then obtain n where "name = n @ ''.yaml''" by (auto simp: isConfig_def HasSuffix_def suffix_def split: if_splits)
  then show ?thesis by (simp add: Ext_def Let_def nth_append)
qed

lemma config_name: "isConfig name \<Longrightarrow> TrimSuffix name (Ext name) @ ''.yaml'' = name"
  unfolding Ext_yaml by (auto simp: isConfig_def HasSuffix_def TrimSuffix_def suffix_def split: if_splits)

lemma lsConfigs_files:
  assumes "lsConfigs fs dir = Inr names" and "ReadDir fs dir = Inr listing"
  shows "map (\<lambda>n. n @ ''.yaml'') names = map fst (filter (\<lambda>(name, isDir). isConfig name \<and> \<not> isDir) listing)"
  using assms by (auto simp: lsConfigs_def config_name)

lemma plugin_updates_Some:
  "\<exists>t'. plugin_updates source ks (Some t) = Inr (Some t') \<and>
    map_of t' = (\<lambda>k. if k \<in> set ks then Some (lookup_zero VNil source k) else map_of t k) \<and>
    (go_map t \<longrightarrow> go_map t')"
proof (induction ks arbitrary: t)
  case (Cons k ks)
  obtain t' where "plugin_updates source ks (Some (AList.update k (lookup_zero VNil source k) t)) = Inr (Some t')"
    "map_of t' = (\<lambda>x. if x \<in> set ks then Some (lookup_zero VNil source x)
       else map_of (AList.update k (lookup_zero VNil source k) t) x)"
    "go_map (AList.update k (lookup_zero VNil source k) t) \<longrightarrow> go_map t'"
    using Cons.IH by blast
  then show ?case by (auto simp: fun_eq_iff)
qed auto

text \<open>A merge panics exactly when it would write to a nil map; otherwise the source wins.\<close>

lemma PluginConfigsUpdate_cases:
  shows "PluginConfigsUpdate ord target None = Inr target"
    and "PluginConfigsUpdate ord target (Some []) = Inr target"
    and "s \<noteq> [] \<Longrightarrow> PluginConfigsUpdate ord None (Some s) = Inl AssignmentToNilMap"
    and "\<exists>t'. PluginConfigsUpdate ord (Some t) (Some s) = Inr (Some t') \<and> map_of t' = map_of t ++ map_of s"
proof -
  show "PluginConfigsUpdate ord target None = Inr target" "PluginConfigsUpdate ord target (Some []) = Inr target"
    by (simp_all add: PluginConfigsUpdate_def range_keys_def)
  show "s \<noteq> [] \<Longrightarrow> PluginConfigsUpdate ord None (Some s) = Inl AssignmentToNilMap"
    by (cases "range_keys ord s") (auto simp: PluginConfigsUpdate_def range_keys_def)
  obtain t' where t': "plugin_updates s (range_keys ord s) (Some t) = Inr (Some t')"
    "map_of t' = (\<lambda>k. if k \<in> set (range_keys ord s) then Some (lookup_zero VNil s k) else map_of t k)"
    using plugin_updates_Some by blast
  have "map_of t' = map_of t ++ map_of s"
    unfolding t'(2) by (auto simp: fun_eq_iff map_add_def lookup_zero_def split: option.splits)
  then show "\<exists>t'. PluginConfigsUpdate ord (Some t) (Some s) = Inr (Some t') \<and> map_of t' = map_of t ++ map_of s"
    using t'(1) by (simp add: PluginConfigsUpdate_def)
qed

lemma load_aggregations_other:
  "load_aggregations fs decode names m = Inr m' \<Longrightarrow> x \<notin> set names \<Longrightarrow> map_of m' x = map_of m x"
  by (induction names arbitrary: m) (auto split: sum.splits)

lemma load_aggregations_ok:
  assumes "load_aggregations fs decode names m = Inr m'"
  shows "dom (map_of m') = dom (map_of m) \<union> set names \<and>
    (\<forall>name\<in>set names. \<exists>content a. GetAggregationConfig fs name = Inr content \<and>
      decode content = Inr a \<and> map_of m' name = Some a)"
  using assms
proof (induction names arbitrary: m)
  case (Cons name names)
  obtain content a where a: "GetAggregationConfig fs name = Inr content" "decode content = Inr a"
    and r: "load_aggregations fs decode names (AList.update name a m) = Inr m'"
    using Cons.prems by (auto split: sum.splits)
  note ih = Cons.IH [OF r]
  have other: "name \<notin> set names \<Longrightarrow> map_of m' name = Some a"
    using load_aggregations_other [OF r] by simp
  show ?case using ih a other by (cases "name \<in> set names") auto
qed auto

section \<open>Properties\<close>

definition merge_panics :: "PluginConfig \<Rightarrow> PluginConfig \<Rightarrow> bool" where
  "merge_panics server own \<longleftrightarrow> server = None \<and> (\<exists>s. own = Some s \<and> s \<noteq> [])"

lemma PluginConfigsUpdate_get:
  "if merge_panics target source then PluginConfigsUpdate ord target source = Inl AssignmentToNilMap
   else \<exists>t. PluginConfigsUpdate ord target source = Inr t \<and>
     (\<forall>k. plugin_get t k = (case plugin_get source k of Some v \<Rightarrow> Some v | None \<Rightarrow> plugin_get target k))"
proof (cases source)
  case None
  then show ?thesis by (simp add: merge_panics_def PluginConfigsUpdate_cases(1)) (simp add: plugin_get_def)
next
  case (Some s)
  show ?thesis
  proof (cases target)
    case None
    then show ?thesis
      using PluginConfigsUpdate_cases(2,3) Some
      by (cases "s = []") (auto simp: merge_panics_def plugin_get_def)
  next
    case (Some t)
    obtain t' where "PluginConfigsUpdate ord (Some t) (Some s) = Inr (Some t')" "map_of t' = map_of t ++ map_of s"
      using PluginConfigsUpdate_cases(4) by blast
    then show ?thesis
      using Some \<open>source = Some s\<close> by (auto simp: merge_panics_def plugin_get_def map_add_def split: option.split)
  qed
qed

text \<open>
  C13. Merging the server's configuration into a parsing config: it panics exactly when a plugin
  section of the parsing config would be written into a section the server does not have, and
  otherwise the settings of the parsing config win, key by key, and the server's fill in the rest: the duration of
  an iteration, the way the aggregation is distributed, both plugin sections, and nothing else of the main section.
  The merged plugin sections are also those of the server's configuration afterwards.
\<close>

theorem update_by_combainer_config:
  "if merge_panics (cs_DataFetcher (cc_CloudSection config)) (pc_DataFetcher p) \<or>
      merge_panics (cs_HostFetcher (cc_CloudSection config)) (pc_HostFetcher p)
   then UpdateByCombainerConfig dord hord config p = Inl AssignmentToNilMap
   else \<exists>p' config'. UpdateByCombainerConfig dord hord config p = Inr (p', config') \<and>
     (\<forall>k. plugin_get (pc_DataFetcher p') k = (case plugin_get (pc_DataFetcher p) k of
        Some v \<Rightarrow> Some v | None \<Rightarrow> plugin_get (cs_DataFetcher (cc_CloudSection config)) k)) \<and>
     (\<forall>k. plugin_get (pc_HostFetcher p') k = (case plugin_get (pc_HostFetcher p) k of
        Some v \<Rightarrow> Some v | None \<Rightarrow> plugin_get (cs_HostFetcher (cc_CloudSection config)) k)) \<and>
     pc_MainSection p' = (pc_MainSection p)
       \<lparr>ms_IterationDuration := (if ms_IterationDuration (pc_MainSection p) = 0
          then ms_IterationDuration (cc_MainSection config) else ms_IterationDuration (pc_MainSection p)),
        ms_DistributeAggregation := (if ms_DistributeAggregation (pc_MainSection p) = []
          then ms_DistributeAggregation (cc_MainSection config) else ms_DistributeAggregation (pc_MainSection p))\<rparr> \<and>
     pc_Metahost p' = (if pc_Metahost p = [] \<and> pc_Groups p \<noteq> [] then hd (pc_Groups p) else pc_Metahost p) \<and>
     pc_Groups p' = pc_Groups p \<and> pc_AggConfigs p' = pc_AggConfigs p \<and>
     config' = config\<lparr>cc_CloudSection := \<lparr>cs_DataFetcher = pc_DataFetcher p', cs_HostFetcher = pc_HostFetcher p'\<rparr>\<rparr>"
proof -
  let ?cloud = "cc_CloudSection config"
  note df = PluginConfigsUpdate_get [of "cs_DataFetcher ?cloud" "pc_DataFetcher p" dord]
  note hf = PluginConfigsUpdate_get [of "cs_HostFetcher ?cloud" "pc_HostFetcher p" hord]
  show ?thesis
  proof (cases "merge_panics (cs_DataFetcher ?cloud) (pc_DataFetcher p) \<or>
      merge_panics (cs_HostFetcher ?cloud) (pc_HostFetcher p)")
    case True
    then show ?thesis
      using df hf by (cases "merge_panics (cs_DataFetcher ?cloud) (pc_DataFetcher p)")
        (auto simp: UpdateByCombainerConfig_def Let_def)
  next
    case False
    then obtain d h where d: "PluginConfigsUpdate dord (cs_DataFetcher ?cloud) (pc_DataFetcher p) = Inr d"
      "\<forall>k. plugin_get d k = (case plugin_get (pc_DataFetcher p) k of
         Some v \<Rightarrow> Some v | None \<Rightarrow> plugin_get (cs_DataFetcher ?cloud) k)"
      and h: "PluginConfigsUpdate hord (cs_HostFetcher ?cloud) (pc_HostFetcher p) = Inr h"
      "\<forall>k. plugin_get h k = (case plugin_get (pc_HostFetcher p) k of
         Some v \<Rightarrow> Some v | None \<Rightarrow> plugin_get (cs_HostFetcher ?cloud) k)"
      using df hf by (auto split: if_splits)
    then show ?thesis
      using False by (auto simp: UpdateByCombainerConfig_def Let_def split: list.split)
  qed
qed

lemma UpdateByCombainerConfig_frame:
  assumes "UpdateByCombainerConfig dord hord config p = Inr (p', config')"
  shows "pc_Groups p' = pc_Groups p \<and> pc_AggConfigs p' = pc_AggConfigs p \<and>
    ms_ParallelParsings (pc_MainSection p') = ms_ParallelParsings (pc_MainSection p)"
proof -
  obtain df hf where
    "PluginConfigsUpdate dord (cs_DataFetcher (cc_CloudSection config)) (pc_DataFetcher p) = Inr df"
    "PluginConfigsUpdate hord (cs_HostFetcher (cc_CloudSection config)) (pc_HostFetcher p) = Inr hf"
    using assms
    by (cases "PluginConfigsUpdate dord (cs_DataFetcher (cc_CloudSection config)) (pc_DataFetcher p)";
        cases "PluginConfigsUpdate hord (cs_HostFetcher (cc_CloudSection config)) (pc_HostFetcher p)")
      (auto simp: UpdateByCombainerConfig_def Let_def)
  then show ?thesis using assms by (auto simp: UpdateByCombainerConfig_def Let_def split: list.splits if_splits)
qed

text \<open>
  The parsing configs the scheduler distributes are the regular files with the suffix
  \<open>.yaml\<close>, each listed once, under the name by which \<open>GetParsingConfig\<close> finds the file.
\<close>

lemma listed_parsing_configs:
  assumes "ReadDir fs ''parsing'' = Inr listing" and "distinct (map fst listing)"
  shows "\<exists>names. ListParsingConfigs fs = Inr names \<and> distinct names \<and>
    (\<forall>n. n \<in> set names \<longleftrightarrow> (n @ ''.yaml'', False) \<in> set listing) \<and>
    (\<forall>n. GetParsingConfig fs n = ReadFile fs ''parsing'' (n @ ''.yaml''))"
proof -
  obtain names where names: "lsConfigs fs ''parsing'' = Inr names" using assms(1) by (simp add: lsConfigs_def)
  note files = lsConfigs_files [OF names assms(1)]
  have "distinct (map (\<lambda>n. n @ ''.yaml'') names)"
    unfolding files using assms(2) by (rule distinct_map_filter)
  then have "distinct names" by (simp add: distinct_map)
  moreover have "n \<in> set names \<longleftrightarrow> (n @ ''.yaml'', False) \<in> set listing" for n
  proof -
    have "n \<in> set names \<longleftrightarrow> n @ ''.yaml'' \<in> set (map (\<lambda>n. n @ ''.yaml'') names)" by auto
    also have "\<dots> \<longleftrightarrow> (n @ ''.yaml'', False) \<in> set listing"
      unfolding files by (force simp: isConfig_def HasSuffix_def suffix_def)
    finally show ?thesis .
  qed
  ultimately show ?thesis
    using names by (simp add: ListParsingConfigs_def GetParsingConfig_def readConfig_def parsingSuffix_def)
qed

lemma listed_parsing_configs_example:
  "\<exists>names. ListParsingConfigs \<lparr>ReadFile = \<lambda>_ _. Inl (), ReadDir = \<lambda>_. Inr [(''a.yaml'', False), (''b'', False)]\<rparr> =
     Inr names \<and> distinct names"
  using listed_parsing_configs [of "\<lparr>ReadFile = \<lambda>_ _. Inl (), ReadDir = \<lambda>_. Inr [(''a.yaml'', False), (''b'', False)]\<rparr>"]
  by auto

end
