(* ===== verification/Hosts.thy ===== *)
theory Hosts
  imports Cluster
begin

text \<open>
  \<open>common/hosts/hostsfetcher.go\<close>: hosts by data centre. \<open>combainer/resolver.go\<close>: the gRPC
  resolver that turns the members of the cluster into worker addresses. \<open>utils/utils.go\<close>: the
  helpers on names shared by the senders. The name of the machine (\<open>utils.Hostname\<close>) is an
  argument.
\<close>

section \<open>Hosts by data centre\<close>

type_synonym Hosts = "(string, string list) gomap"

definition getHosts :: "nat list \<Rightarrow> string \<Rightarrow> bool \<Rightarrow> Hosts \<Rightarrow> string list" where
  "getHosts ord myname remote h =
     concat (map (\<lambda>dc. if remote then filter (\<lambda>host. myname \<noteq> host) (lookup_zero [] h dc)
                       else lookup_zero [] h dc) (range_keys ord h))"

definition AllHosts :: "nat list \<Rightarrow> string \<Rightarrow> Hosts \<Rightarrow> string list" where
  "AllHosts ord myname h = getHosts ord myname False h"

definition RemoteHosts :: "nat list \<Rightarrow> string \<Rightarrow> Hosts \<Rightarrow> string list" where
  "RemoteHosts ord myname h = getHosts ord myname True h"

fun merge_dcs :: "Hosts \<Rightarrow> string list \<Rightarrow> Hosts \<Rightarrow> Hosts" where
  "merge_dcs other [] h = h"
| "merge_dcs other (dc # dcs) h =
     merge_dcs other dcs (AList.update dc (lookup_zero [] h dc @ lookup_zero [] other dc) h)"

definition Merge :: "nat list \<Rightarrow> Hosts \<Rightarrow> Hosts \<Rightarrow> Hosts" where
  "Merge ord other h = merge_dcs other (range_keys ord other) h"

lemma lookup_zero_notin: "dc \<notin> dom (map_of m) \<Longrightarrow> lookup_zero z m dc = z"
  by (auto simp: lookup_zero_def split: option.split)

lemma merge_dcs_lookup:
  "distinct dcs \<Longrightarrow> lookup_zero [] (merge_dcs other dcs h) dc =
    lookup_zero [] h dc @ (if dc \<in> set dcs then lookup_zero [] other dc else [])"
  by (induction dcs arbitrary: h) auto

lemma merge_dcs_map: "go_map h \<Longrightarrow> go_map (merge_dcs other dcs h)"
  by (induction dcs arbitrary: h) auto

lemma merge_dcs_dom: "dom (map_of (merge_dcs other dcs h)) = dom (map_of h) \<union> set dcs"
  by (induction dcs arbitrary: h) auto

lemma Merge_lookup:
  "go_map other \<Longrightarrow> lookup_zero [] (Merge ord other h) dc = lookup_zero [] h dc @ lookup_zero [] other dc"
  using lookup_zero_notin [of dc other "[]"] by (simp add: Merge_def merge_dcs_lookup)

lemma Merge_map: "go_map h \<Longrightarrow> go_map (Merge ord other h)"
  by (simp add: Merge_def merge_dcs_map)

lemma set_getHosts: "set (getHosts ord myname remote h) =
    {x. \<exists>dc. x \<in> set (lookup_zero [] h dc) \<and> (remote \<longrightarrow> x \<noteq> myname)}"
proof -
  have "x \<in> set (lookup_zero [] h dc) \<Longrightarrow> dc \<in> dom (map_of h)" for x dc
    using lookup_zero_notin [of dc h "[]"] by fastforce
  then show ?thesis by (fastforce simp: getHosts_def)
qed

lemma mset_AllHosts_order: "mset (AllHosts ord myname h) = mset (AllHosts ord' myname h)"
proof -
  have "mset (concat (map f (range_keys o1 h))) = \<Sum>\<^sub># (image_mset (mset \<circ> f) (mset (map fst h)))"
    for f :: "string \<Rightarrow> string list" and o1
    by (simp add: mset_concat range_keys_def comp_def flip: sum_mset_sum_list mset_map) (simp add: multiset.map_comp comp_def)
  then show ?thesis by (simp add: AllHosts_def getHosts_def)
qed

section \<open>The resolver\<close>

definition defaultPort :: string where "defaultPort = ''10052''"

record Address =
  addr_Addr :: string
  addr_Metadata :: string

definition resolve :: "nat list \<Rightarrow> Member list \<Rightarrow> Address list" where
  "resolve code members =
     shuffle code (map (\<lambda>m. \<lparr>addr_Addr = JoinHostPort (m_Addr m) defaultPort, addr_Metadata = m_Name m\<rparr>) members)"

text \<open>
  \<open>Resolver\<close>: \<open>rs_rn\<close> says whether the channel \<open>rn\<close>, of capacity one, holds a request,
  \<open>rs_timer\<close> whether the timer has fired, \<open>rs_published\<close> what the client connection was given.
\<close>

record Resolver =
  rs_rn :: bool
  rs_timer :: bool
  rs_done :: bool
  rs_published :: "Address list list"

definition Resolver_Build :: Resolver where
  "Resolver_Build = \<lparr>rs_rn = False, rs_timer = True, rs_done = False, rs_published = []\<rparr>"

definition ResolveNow :: "Resolver \<Rightarrow> Resolver" where
  "ResolveNow r = (if rs_rn r then r else r\<lparr>rs_rn := True\<rparr>)"

definition Resolver_Close :: "Resolver \<Rightarrow> Resolver" where
  "Resolver_Close r = r\<lparr>rs_done := True, rs_timer := False\<rparr>"

datatype watcher_case = CtxDone | TimerFired | RnReceived

definition watcher_ready :: "Resolver \<Rightarrow> watcher_case \<Rightarrow> bool" where
  "watcher_ready r w = (case w of CtxDone \<Rightarrow> rs_done r | TimerFired \<Rightarrow> rs_timer r | RnReceived \<Rightarrow> rs_rn r)"

text \<open>One round of \<open>watcher\<close>; \<open>None\<close> when it returns. The timer is set to fire later.\<close>

definition watcher_round :: "nat list \<Rightarrow> Member list \<Rightarrow> watcher_case \<Rightarrow> Resolver \<Rightarrow> Resolver option" where
  "watcher_round code members w r =
     (let publish = (\<lambda>r. r\<lparr>rs_published := rs_published r @ [resolve code members]\<rparr>) in
      case w of
        CtxDone \<Rightarrow> None
      | TimerFired \<Rightarrow> Some (publish (r\<lparr>rs_timer := False\<rparr>))
      | RnReceived \<Rightarrow> Some (publish (r\<lparr>rs_rn := False, rs_timer := False\<rparr>)))"

section \<open>Names\<close>

type_synonym NameStack = "string list"

definition NameStack_Push :: "string \<Rightarrow> NameStack \<Rightarrow> NameStack" where
  "NameStack_Push item n = n @ [item]"

definition NameStack_Pop :: "NameStack \<Rightarrow> gopanic + string \<times> NameStack" where
  "NameStack_Pop n = (if n = [] then Inl IndexOutOfRange else Inr (last n, butlast n))"

datatype subgroup_error = NoTagName | NoTagType | NoTagMetahost

definition GetSubgroupName :: "(string, string) gomap \<Rightarrow> subgroup_error + string" where
  "GetSubgroupName tags =
     (case map_of tags ''name'' of
        None \<Rightarrow> Inl NoTagName
      | Some subgroup \<Rightarrow> (case map_of tags ''type'' of
          None \<Rightarrow> Inl NoTagType
        | Some t \<Rightarrow>
            if t = ''datacenter'' then
              (case map_of tags ''metahost'' of
                 None \<Rightarrow> Inl NoTagMetahost
               | Some meta \<Rightarrow> Inr (meta @ ''-'' @ subgroup))
            else Inr subgroup))"

lemma NameStack_Pop_Push [simp]: "NameStack_Pop (NameStack_Push item n) = Inr (item, n)"
  by (simp add: NameStack_Pop_def NameStack_Push_def)

section \<open>Properties\<close>

text \<open>
  Merging the hosts of a group keeps, for every data centre, the hosts already there and
  appends the new ones; the hosts of the result are those of both, whatever order Go visits the
  maps in, and \<open>RemoteHosts\<close> only leaves out this machine.
\<close>

lemma merge_hosts:
  assumes "go_map h" and "go_map other"
  shows "lookup_zero [] (Merge ord other h) dc = lookup_zero [] h dc @ lookup_zero [] other dc \<and>
    set (AllHosts ord1 myname (Merge ord other h)) = set (AllHosts ord2 myname h) \<union> set (AllHosts ord3 myname other) \<and>
    set (RemoteHosts ord1 myname (Merge ord other h)) = set (AllHosts ord1 myname (Merge ord other h)) - {myname}"
  using Merge_lookup [OF assms(2)]
  by (auto simp: AllHosts_def RemoteHosts_def set_getHosts)

lemma JoinHostPort_inject:
  assumes "JoinHostPort h p = JoinHostPort h' p"
  shows "h = h'"
  using assms
proof (cases "CHR '':'' \<in> set h \<or> CHR ''%'' \<in> set h"; cases "CHR '':'' \<in> set h' \<or> CHR ''%'' \<in> set h'")
  assume a: "CHR '':'' \<in> set h \<or> CHR ''%'' \<in> set h" "\<not> (CHR '':'' \<in> set h' \<or> CHR ''%'' \<in> set h')"
  then have e: "''['' @ h @ '']'' = h'" using assms by (simp add: JoinHostPort_def)
  then show ?thesis using a by (auto simp flip: e)
next
  assume a: "\<not> (CHR '':'' \<in> set h \<or> CHR ''%'' \<in> set h)" "CHR '':'' \<in> set h' \<or> CHR ''%'' \<in> set h'"
  then have e: "h = ''['' @ h' @ '']''" using assms by (simp add: JoinHostPort_def)
  then show ?thesis using a by (auto simp: e)
qed (simp_all add: JoinHostPort_def)

text \<open>
  The resolver publishes one address for every alive member, in some order: only the order of
  the list is random, no worker is lost or doubled, and members with distinct addresses get
  distinct targets.
\<close>

lemma resolve_publishes_members:
  "mset (resolve code members) =
    mset (map (\<lambda>m. \<lparr>addr_Addr = JoinHostPort (m_Addr m) ''10052'', addr_Metadata = m_Name m\<rparr>) members) \<and>
   (distinct (map m_Addr members) = distinct (map addr_Addr (resolve code members)))"
proof -
  have m: "mset (resolve code members) =
      mset (map (\<lambda>m. \<lparr>addr_Addr = JoinHostPort (m_Addr m) ''10052'', addr_Metadata = m_Name m\<rparr>) members)"
    by (simp add: resolve_def defaultPort_def)
  have "mset (map addr_Addr (resolve code members)) =
      mset (map (\<lambda>a. JoinHostPort a ''10052'') (map m_Addr members))"
    using arg_cong [OF m, of "image_mset addr_Addr"] by (simp add: multiset.map_comp comp_def)
  then have "distinct (map addr_Addr (resolve code members)) =
      distinct (map (\<lambda>a. JoinHostPort a ''10052'') (map m_Addr members))"
    by (rule mset_eq_imp_distinct_iff)
  also have "\<dots> = distinct (map m_Addr members)"
    unfolding distinct_map [of "\<lambda>a. JoinHostPort a ''10052''"]
    using JoinHostPort_inject by (auto simp: inj_on_def)
  finally show ?thesis using m by blast
qed

end
