(* ===== verification/Observer.thy ===== *)
theory Observer
  imports Prelude "HOL-Library.Word"
begin

text \<open>
  \<open>combainer/stats.go\<close>, the registry of \<open>combainer/observer.go\<close>, and \<open>handleTask\<close> of
  \<open>combainer/scheduler.go\<close>, which registers a client for its config. A client is a shared object: the
  registry holds its ID, and \<open>ob_stats\<close> are the counters of every client, by ID. Counters
  are \<open>int64\<close> and wrap.
\<close>

section \<open>Statistics\<close>

record clientStats =
  successParsing :: "64 word"
  failedParsing :: "64 word"
  successAggregate :: "64 word"
  failedAggregate :: "64 word"
  last_unix :: "64 word"

definition zero_stats :: clientStats where
  "zero_stats = \<lparr>successParsing = 0, failedParsing = 0, successAggregate = 0, failedAggregate = 0, last_unix = 0\<rparr>"

definition AddSuccessParsing :: "64 word \<Rightarrow> clientStats \<Rightarrow> clientStats" where
  "AddSuccessParsing now cs = cs\<lparr>successParsing := successParsing cs + 1, last_unix := now\<rparr>"

definition AddFailedParsing :: "64 word \<Rightarrow> clientStats \<Rightarrow> clientStats" where
  "AddFailedParsing now cs = cs\<lparr>failedParsing := failedParsing cs + 1, last_unix := now\<rparr>"

definition AddSuccessAggregate :: "64 word \<Rightarrow> clientStats \<Rightarrow> clientStats" where
  "AddSuccessAggregate now cs = cs\<lparr>successAggregate := successAggregate cs + 1, last_unix := now\<rparr>"

definition AddFailedAggregate :: "64 word \<Rightarrow> clientStats \<Rightarrow> clientStats" where
  "AddFailedAggregate now cs = cs\<lparr>failedAggregate := failedAggregate cs + 1, last_unix := now\<rparr>"

record StatInfo =
  ParsingSuccess :: "64 word"
  ParsingFailed :: "64 word"
  ParsingTotal :: "64 word"
  AggregateSuccess :: "64 word"
  AggregateFailed :: "64 word"
  AggregateTotal :: "64 word"
  Heartbeated :: "64 word"

definition GetStats :: "clientStats \<Rightarrow> StatInfo" where
  "GetStats cs =
     \<lparr>ParsingSuccess = successParsing cs, ParsingFailed = failedParsing cs,
      ParsingTotal = successParsing cs + failedParsing cs,
      AggregateSuccess = successAggregate cs, AggregateFailed = failedAggregate cs,
      AggregateTotal = successAggregate cs + failedAggregate cs,
      Heartbeated = last_unix cs\<rparr>"

text \<open>\<open>CopyStats\<close> writes the counters of \<open>cs\<close> into \<open>to\<close>; \<open>last\<close> is not among them.\<close>

definition CopyStats :: "clientStats \<Rightarrow> clientStats \<Rightarrow> clientStats" where
  "CopyStats cs to =
     to\<lparr>successParsing := successParsing cs, failedParsing := failedParsing cs,
        successAggregate := successAggregate cs, failedAggregate := failedAggregate cs\<rparr>"

section \<open>The registry\<close>

record Observer =
  ob_clients :: "(string, 64 word) gomap"
  ob_stats :: "64 word \<Rightarrow> clientStats"

definition GlobalObserver :: Observer where
  "GlobalObserver = \<lparr>ob_clients = [], ob_stats = \<lambda>_. zero_stats\<rparr>"

definition RegisterClient :: "64 word \<Rightarrow> string \<Rightarrow> Observer \<Rightarrow> Observer" where
  "RegisterClient cl config ob =
     (let ob = (case map_of (ob_clients ob) config of
                  None \<Rightarrow> ob
                | Some oldCl \<Rightarrow>
                    ob\<lparr>ob_stats := (ob_stats ob)(cl := CopyStats (ob_stats ob oldCl) (ob_stats ob cl))\<rparr>)
      in ob\<lparr>ob_clients := AList.update config cl (ob_clients ob)\<rparr>)"

definition UnregisterClient :: "64 word \<Rightarrow> string \<Rightarrow> Observer \<Rightarrow> Observer" where
  "UnregisterClient ident config ob =
     (case map_of (ob_clients ob) config of
        Some cl \<Rightarrow> if cl = ident then ob\<lparr>ob_clients := AList.delete config (ob_clients ob)\<rparr> else ob
      | None \<Rightarrow> ob)"

fun collect_stats :: "Observer \<Rightarrow> string list \<Rightarrow> (string, StatInfo) gomap \<Rightarrow> (string, StatInfo) gomap" where
  "collect_stats ob [] stats = stats"
| "collect_stats ob (config # configs) stats =
     collect_stats ob configs
       (AList.update config (GetStats (ob_stats ob (lookup_zero 0 (ob_clients ob) config))) stats)"

definition GetClientsStats :: "nat list \<Rightarrow> Observer \<Rightarrow> (string, StatInfo) gomap" where
  "GetClientsStats ord ob = collect_stats ob (range_keys ord (ob_clients ob)) []"

section \<open>handleTask\<close>

text \<open>
  The goroutine of one config. Every round it looks at its stop channel; \<open>NewClient\<close> gives a
  client with a new ID or fails, and \<open>Dispatch\<close> succeeds or fails. \<open>tk_dispatched\<close> are the
  iterations dispatched so far.
\<close>

datatype task_pc = Reclient | Dispatching "64 word" | Exited

record task =
  tk_pc :: task_pc
  tk_iteration :: "64 word"
  tk_dispatched :: "64 word list"

definition start_task :: task where
  "start_task = \<lparr>tk_pc = Reclient, tk_iteration = 0, tk_dispatched = []\<rparr>"

definition handleTask :: "string \<Rightarrow> bool \<Rightarrow> 'e + 64 word \<Rightarrow> task \<times> Observer \<Rightarrow> task \<times> Observer" where
  "handleTask config stopped newClient st =
     (case st of (t, ob) \<Rightarrow>
        (case tk_pc t of
           Exited \<Rightarrow> st
         | Reclient \<Rightarrow>
             if stopped then (t\<lparr>tk_pc := Exited\<rparr>, ob)
             else (case newClient of
               Inl err \<Rightarrow> st
             | Inr cl \<Rightarrow> (t\<lparr>tk_pc := Dispatching cl\<rparr>, RegisterClient cl config ob))
         | Dispatching cl \<Rightarrow>
             if stopped then (t\<lparr>tk_pc := Exited\<rparr>, UnregisterClient cl config ob)
             else
               let i = tk_iteration t + 1 in
               (t\<lparr>tk_iteration := i, tk_dispatched := tk_dispatched t @ [i]\<rparr>, ob)))"

fun task_rounds :: "string \<Rightarrow> (bool \<times> ('e + 64 word)) list \<Rightarrow> task \<times> Observer \<Rightarrow> task \<times> Observer" where
  "task_rounds config [] st = st"
| "task_rounds config ((stopped, cl) # rs) st = task_rounds config rs (handleTask config stopped cl st)"

section \<open>Lemmas\<close>

lemma collect_stats_lookup:
  "map_of (collect_stats ob cfgs m) k =
    (if k \<in> set cfgs then Some (GetStats (ob_stats ob (lookup_zero 0 (ob_clients ob) k))) else map_of m k)"
  by (induction cfgs arbitrary: m) auto

lemma GetClientsStats_lookup:
  "map_of (GetClientsStats ord ob) k = map_option (\<lambda>cl. GetStats (ob_stats ob cl)) (map_of (ob_clients ob) k)"
  by (auto simp: GetClientsStats_def collect_stats_lookup lookup_zero_def split: option.splits)

lemma RegisterClient_lookup [simp]:
  "map_of (ob_clients (RegisterClient cl config ob)) = (map_of (ob_clients ob))(config \<mapsto> cl)"
  by (simp add: RegisterClient_def Let_def split: option.splits)

lemma UnregisterClient_lookup [simp]:
  "map_of (ob_clients (UnregisterClient cl config ob)) =
    (if map_of (ob_clients ob) config = Some cl then (map_of (ob_clients ob))(config := None)
     else map_of (ob_clients ob))"
  by (auto simp: UnregisterClient_def split: option.splits)

lemma UnregisterClient_stats [simp]: "ob_stats (UnregisterClient cl config ob) = ob_stats ob"
  by (simp add: UnregisterClient_def split: option.splits)

lemma handleTask_exited [simp]: "tk_pc (fst st) = Exited \<Longrightarrow> handleTask config stopped cl st = st"
  by (cases st) (simp add: handleTask_def)

lemma task_rounds_exited: "tk_pc (fst st) = Exited \<Longrightarrow> task_rounds config rs st = st"
  by (induction rs) auto

section \<open>Properties\<close>

text \<open>
  Handing a config over from an old client to a new one: the new client continues the old
  counters, the old client's deregistration does not remove it, its own does, and other configs are
  not touched. (The time of the last heartbeat is not handed over.)
\<close>

lemma observer_handover:
  assumes "map_of (ob_clients ob) config = Some old" and "new \<noteq> old"
  shows "let ob' = UnregisterClient old config (RegisterClient new config ob) in
    map_of (ob_clients ob') config = Some new \<and>
    map_of (ob_clients (UnregisterClient new config ob')) config = None \<and>
    (\<forall>c. c = config \<or> map_of (ob_clients ob') c = map_of (ob_clients ob) c) \<and>
    map_of (GetClientsStats ord ob') config =
      Some ((GetStats (ob_stats ob old))\<lparr>Heartbeated := last_unix (ob_stats ob new)\<rparr>)"
  using assms
  by (simp add: Let_def GetClientsStats_lookup)
    (simp add: RegisterClient_def CopyStats_def GetStats_def Let_def)

text \<open>A task that has dispatched \<open>n\<close> iterations, and its rounds up to the first that finds the stop channel closed.\<close>

definition iterations :: "nat \<Rightarrow> 64 word list" where
  "iterations n = map (\<lambda>k. word_of_nat (Suc k)) [0..<n]"

definition open_rounds :: "(bool \<times> ('e + 64 word)) list \<Rightarrow> (bool \<times> ('e + 64 word)) list" where
  "open_rounds rs = takeWhile (\<lambda>r. \<not> fst r) rs"

definition served_rounds :: "(bool \<times> ('e + 64 word)) list \<Rightarrow> (bool \<times> ('e + 64 word)) list" where
  "served_rounds rs = dropWhile (\<lambda>r. isl (snd r)) (open_rounds rs)"

lemma iterations_Suc [simp]: "iterations (Suc n) = iterations n @ [word_of_nat (Suc n)]"
  by (simp add: iterations_def)

lemma iterations_0 [simp]: "iterations 0 = []"
  by (simp add: iterations_def)

lemma open_rounds_simps [simp]:
  "open_rounds [] = []" "open_rounds ((True, cl) # rs) = []" "open_rounds ((False, cl) # rs) = (False, cl) # open_rounds rs"
  by (simp_all add: open_rounds_def)

text \<open>How rounds end that dispatch \<open>d\<close>, with the client \<open>reg\<close> registered if they end before the stop.\<close>

definition rounds_end :: "string \<Rightarrow> (bool \<times> ('e + 64 word)) list \<Rightarrow> 64 word list \<Rightarrow> 64 word option \<Rightarrow> task \<times> Observer \<Rightarrow> bool" where
  "rounds_end config rs d reg st \<longleftrightarrow> tk_dispatched (fst st) = d \<and>
     (if \<exists>r\<in>set rs. fst r then tk_pc (fst st) = Exited \<and> map_of (ob_clients (snd st)) config = None
      else map_of (ob_clients (snd st)) config = reg)"

lemma rounds_end_open:
  "rounds_end config ((False, cl) # rs) d reg st \<longleftrightarrow> rounds_end config rs d reg st"
  by (simp add: rounds_end_def)

lemma dispatching_rounds:
  "map_of (ob_clients ob) config = Some cl \<Longrightarrow>
    rounds_end config rs (iterations (n + length (open_rounds rs))) (Some cl)
      (task_rounds config rs
        (\<lparr>tk_pc = Dispatching cl, tk_iteration = word_of_nat n, tk_dispatched = iterations n\<rparr>, ob))"
proof (induction rs arbitrary: n)
  case (Cons r rs)
  obtain stopped c where r: "r = (stopped, c)" by (cases r)
  show ?case
  proof (cases stopped)
    case True
    then show ?thesis using Cons.prems r by (simp add: handleTask_def task_rounds_exited rounds_end_def)
  next
    case False
    have "handleTask config stopped c
        (\<lparr>tk_pc = Dispatching cl, tk_iteration = word_of_nat n, tk_dispatched = iterations n\<rparr>, ob) =
      (\<lparr>tk_pc = Dispatching cl, tk_iteration = word_of_nat (Suc n), tk_dispatched = iterations (Suc n)\<rparr>, ob)"
      using False by (simp add: handleTask_def Let_def add.commute)
    then show ?thesis using Cons.IH [OF Cons.prems, of "Suc n"] r False by (simp add: rounds_end_open del: of_nat_Suc)
  qed
qed (simp add: rounds_end_def)

lemma client_rounds:
  "map_of (ob_clients ob) config = None \<Longrightarrow>
    rounds_end config rs (iterations (length (served_rounds rs) - 1))
      (case served_rounds rs of [] \<Rightarrow> None | r # _ \<Rightarrow> Some (projr (snd r))) (task_rounds config rs (start_task, ob))"
proof (induction rs)
  case (Cons r rs)
  obtain stopped c where r: "r = (stopped, c)" by (cases r)
  consider stopped | err where "\<not> stopped" "c = Inl err" | cl where "\<not> stopped" "c = Inr cl" by (cases c) auto
  then show ?case
  proof cases
    case 1
    then show ?thesis
      using Cons.prems r by (simp add: handleTask_def start_task_def task_rounds_exited served_rounds_def rounds_end_def)
  next
    case 2
    then have "handleTask config stopped c (start_task, ob) = (start_task, ob)"
      by (simp add: handleTask_def start_task_def)
    moreover have "served_rounds ((False, Inl err) # rs) = served_rounds rs" by (simp add: served_rounds_def)
    ultimately show ?thesis using Cons r 2 by (simp add: rounds_end_open)
  next
    case (3 cl)
    have h: "handleTask config stopped c (start_task, ob) =
        (\<lparr>tk_pc = Dispatching cl, tk_iteration = word_of_nat 0, tk_dispatched = iterations 0\<rparr>, RegisterClient cl config ob)"
      using 3 by (simp add: handleTask_def start_task_def)
    have "map_of (ob_clients (RegisterClient cl config ob)) config = Some cl" by simp
    from dispatching_rounds [OF this, of rs 0] show ?thesis
      unfolding r task_rounds.simps h by (simp add: 3 served_rounds_def rounds_end_open)
  qed
qed (simp add: start_task_def served_rounds_def rounds_end_def)

text \<open>
  C16. A task dispatches, numbered from one, exactly one iteration for every round between the one in which it got its
  client and the first that finds the stop channel closed; from that round on it dispatches nothing and has left the
  registry, whether or not it ever got a client. Until then the registry holds its client.
\<close>

theorem task_stops:
  "tk_dispatched (fst (task_rounds config rs (start_task, GlobalObserver))) =
      map (\<lambda>k. word_of_nat (Suc k)) [0..<length (served_rounds rs) - 1] \<and>
    (if list_ex fst rs
     then tk_pc (fst (task_rounds config rs (start_task, GlobalObserver))) = Exited \<and>
       map_of (ob_clients (snd (task_rounds config rs (start_task, GlobalObserver)))) config = None
     else map_of (ob_clients (snd (task_rounds config rs (start_task, GlobalObserver)))) config =
       (case served_rounds rs of [] \<Rightarrow> None | r # _ \<Rightarrow> Some (projr (snd r))))"
proof -
  have "map_of (ob_clients GlobalObserver) config = None" by (simp add: GlobalObserver_def)
  from client_rounds [OF this, of rs] show ?thesis by (simp add: rounds_end_def iterations_def list_ex_iff)
qed

theorem task_stops_witness:
  "tk_dispatched (fst (task_rounds ''c'' [(False, Inl ()), (False, Inr 7), (False, Inr 0), (True, Inr 0), (False, Inr 0)]
     (start_task, GlobalObserver))) = [1] \<and>
   tk_pc (fst (task_rounds ''c'' [(False, Inl ()), (False, Inr 7), (False, Inr 0), (True, Inr 0), (False, Inr 0)]
     (start_task, GlobalObserver))) = Exited"
  using task_stops [of "''c''" "[(False, Inl ()), (False, Inr 7), (False, Inr 0), (True, Inr 0), (False, Inr 0)]"]
  by (simp add: served_rounds_def del: task_rounds.simps)

end
