(* ===== verification/Client.thy ===== *)
theory Client
  imports Repository Hosts Observer
begin

text \<open>
  \<open>combainer/client.go\<close>: one iteration of a config. \<open>updateSessionParams\<close> reads the
  configuration and the hosts and makes the tasks; \<open>Dispatch\<close> sends the parsing tasks to the
  workers, at most \<open>ParallelParsings\<close> at a time, then the aggregation tasks.

  The file system, the YAML decoders, the host fetcher and the msgpack encoder are arguments
  (\<open>session_env\<close>). The parsing phase is a step relation over the tasks not yet started, those in
  flight and the replies collected.
\<close>

section \<open>Time frames\<close>

text \<open>
  A float64 is a whole number of at most 53 bits times a power of two. \<open>round53\<close> rounds a
  natural number to 53 significant bits, ties to even; 0.7 is \<open>6305039478318694 / 2^53\<close>, so the
  product of a number with it is exact before one rounding.
\<close>

fun bit_len :: "nat \<Rightarrow> nat" where
  "bit_len n = (if n = 0 then 0 else Suc (bit_len (n div 2)))"

declare bit_len.simps [simp del]

definition round53 :: "nat \<Rightarrow> nat" where
  "round53 n =
     (let s = bit_len n - 53;
          q = n div 2 ^ s;
          r = n mod 2 ^ s
      in (if 2 * r > 2 ^ s \<or> (2 * r = 2 ^ s \<and> odd q) then q + 1 else q) * 2 ^ s)"

definition float_7_tenths :: nat where "float_7_tenths = 6305039478318694"

definition times_07 :: "nat \<Rightarrow> nat" where
  "times_07 n = round53 (round53 n * float_7_tenths) div 2 ^ 53"

text \<open>Durations are \<open>int64\<close> nanoseconds.\<close>

definition SecondW :: "64 word" where "SecondW = 1000000000"

definition generateSessionTimeFrame :: "64 word \<Rightarrow> 64 word \<times> 64 word" where
  "generateSessionTimeFrame sessionDuration =
     (word_of_nat (times_07 (unat sessionDuration)) * SecondW, sessionDuration * SecondW)"

section \<open>Session parameters\<close>

record TimeFrame =
  tf_Previous :: int
  tf_Current :: int

record ParsingTask =
  pt_Frame :: TimeFrame
  pt_Host :: string
  pt_ParsingConfigName :: string
  pt_EncodedParsingConfig :: string
  pt_EncodedAggregationConfigs :: string
  pt_Id :: string

record AggregatingTask =
  at_Frame :: TimeFrame
  at_Config :: string
  at_ParsingConfigName :: string
  at_EncodedParsingConfig :: string
  at_EncodedAggregationConfig :: string
  at_EncodedHosts :: string
  at_Id :: string
  at_ParsingResult :: "(string, string) gomap"

record sessionParams =
  aggregateLocally :: bool
  ParallelParsings :: int
  ParsingTime :: "64 word"
  WholeTime :: "64 word"
  PTasks :: "ParsingTask list"
  AggTasks :: "AggregatingTask list"

record 'e session_env =
  env_fs :: "'e filesystem"
  env_decodeParsing :: "string \<Rightarrow> 'e + ParsingConfig"
  env_decodeCombainer :: "string \<Rightarrow> CombainerConfig \<times> 'e option"
  env_zeroConfig :: CombainerConfig
  env_decodeAggregation :: "string \<Rightarrow> 'e + AggregationConfig"
  env_hostFetcher :: "PluginConfig \<Rightarrow> 'e + (string \<Rightarrow> 'e + Hosts)"
  env_packParsing :: "ParsingConfig \<Rightarrow> string"
  env_packAggregations :: "(string, AggregationConfig) gomap \<Rightarrow> string"
  env_packAggregation :: "AggregationConfig \<Rightarrow> string"
  env_packHosts :: "Hosts \<Rightarrow> string"
  env_zeroAggregation :: AggregationConfig
  env_dord :: "nat list"
  env_hord :: "nat list"
  env_mord :: "nat list"
  env_aord :: "nat list"

datatype 'e session_error = SessionError 'e | NoHostsInGroups

fun fetch_groups :: "nat list \<Rightarrow> (string \<Rightarrow> 'e + Hosts) \<Rightarrow> string list \<Rightarrow> Hosts \<Rightarrow> Hosts" where
  "fetch_groups mord fetch [] allHosts = allHosts"
| "fetch_groups mord fetch (item # items) allHosts =
     (case fetch item of
        Inl err \<Rightarrow> fetch_groups mord fetch items allHosts
      | Inr hostsForGroup \<Rightarrow> fetch_groups mord fetch items (Merge mord hostsForGroup allHosts))"

definition zero_frame :: TimeFrame where "zero_frame = \<lparr>tf_Previous = 0, tf_Current = 0\<rparr>"

definition make_session :: "'e session_env \<Rightarrow> string \<Rightarrow> ParsingConfig \<Rightarrow> (string, AggregationConfig) gomap \<Rightarrow>
    Hosts \<Rightarrow> string list \<Rightarrow> sessionParams" where
  "make_session env config p aggs allHosts listOfHosts =
     (let n = int (length listOfHosts);
          parallel = (if ms_ParallelParsings (pc_MainSection p) > 0 \<and> n > ms_ParallelParsings (pc_MainSection p)
                      then ms_ParallelParsings (pc_MainSection p) else n);
          packedP = env_packParsing env p;
          packedA = env_packAggregations env aggs;
          packedH = env_packHosts env allHosts;
          (parsingTime, wholeTime) = generateSessionTimeFrame (ms_IterationDuration (pc_MainSection p))
      in \<lparr>aggregateLocally = (ms_DistributeAggregation (pc_MainSection p) \<noteq> ''cluster''),
          ParallelParsings = parallel, ParsingTime = parsingTime, WholeTime = wholeTime,
          PTasks = map (\<lambda>host. \<lparr>pt_Frame = zero_frame, pt_Host = host, pt_ParsingConfigName = config,
            pt_EncodedParsingConfig = packedP, pt_EncodedAggregationConfigs = packedA, pt_Id = []\<rparr>) listOfHosts,
          AggTasks = map (\<lambda>name. \<lparr>at_Frame = zero_frame, at_Config = name, at_ParsingConfigName = config,
            at_EncodedParsingConfig = packedP,
            at_EncodedAggregationConfig = env_packAggregation env (lookup_zero (env_zeroAggregation env) aggs name),
            at_EncodedHosts = packedH, at_Id = [], at_ParsingResult = []\<rparr>) (pc_AggConfigs p)\<rparr>)"

definition updateSessionParams :: "'e session_env \<Rightarrow> string \<Rightarrow> string \<Rightarrow>
    gopanic + ('e session_error + sessionParams)" where
  "updateSessionParams env myname config =
     (case GetParsingConfig (env_fs env) config of
        Inl err \<Rightarrow> Inr (Inl (SessionError err))
      | Inr encoded \<Rightarrow> (case env_decodeParsing env encoded of
          Inl err \<Rightarrow> Inr (Inl (SessionError err))
        | Inr parsingConfig \<Rightarrow>
            bind_sum (UpdateByCombainerConfig (env_dord env) (env_hord env)
                (GetCombainerConfig (env_fs env) (env_decodeCombainer env) (env_zeroConfig env)) parsingConfig)
              (\<lambda>(parsingConfig, cfg).
                case GetAggregationConfigs (env_fs env) (env_decodeAggregation env) config parsingConfig of
                  (parsingConfig, Inl err) \<Rightarrow> Inr (Inl (SessionError err))
                | (parsingConfig, Inr aggs) \<Rightarrow>
                   (case env_hostFetcher env (pc_HostFetcher parsingConfig) of
                      Inl err \<Rightarrow> Inr (Inl (SessionError err))
                    | Inr fetch \<Rightarrow>
                       (let allHosts = fetch_groups (env_mord env) fetch (pc_Groups parsingConfig) [];
                            listOfHosts = AllHosts (env_aord env) myname allHosts
                        in if listOfHosts = [] then Inr (Inl NoHostsInGroups)
                           else Inr (Inr (make_session env config parsingConfig aggs allHosts listOfHosts)))))))"

section \<open>The parsing phase\<close>

definition unix :: "int \<Rightarrow> int" where
  "unix t = t div 1000000000"

definition frame_task :: "int \<Rightarrow> 64 word \<Rightarrow> string \<Rightarrow> ParsingTask \<Rightarrow> ParsingTask" where
  "frame_task startTime whole session t =
     t\<lparr>pt_Frame := \<lparr>tf_Previous = unix startTime, tf_Current = unix (startTime + sint whole)\<rparr>, pt_Id := session\<rparr>"

record parsing_phase =
  ph_todo :: "ParsingTask list"
  ph_running :: "ParsingTask list"
  ph_data :: "(string, string) gomap"
  ph_stats :: clientStats

definition phase_start :: "sessionParams \<Rightarrow> clientStats \<Rightarrow> parsing_phase" where
  "phase_start sp stats = \<lparr>ph_todo = PTasks sp, ph_running = [], ph_data = [], ph_stats = stats\<rparr>"

text \<open>The main goroutine: acquire a token, start the next task. \<open>None\<close>: no token, or none left.\<close>

definition start_parsing :: "sessionParams \<Rightarrow> int \<Rightarrow> string \<Rightarrow> parsing_phase \<Rightarrow> parsing_phase option" where
  "start_parsing sp startTime session ph =
     (case ph_todo ph of
        [] \<Rightarrow> None
      | task # rest \<Rightarrow>
          if int (length (ph_running ph)) < ParallelParsings sp
          then Some (ph\<lparr>ph_todo := rest,
            ph_running := ph_running ph @ [frame_task startTime (WholeTime sp) session task]\<rparr>)
          else None)"

text \<open>The reply to a task: its data is merged into the result, or the failure counted.\<close>

fun merge_data :: "(string \<times> string) list \<Rightarrow> (string, string) gomap \<Rightarrow> (string, string) gomap" where
  "merge_data [] data = data"
| "merge_data ((k, v) # kvs) data = merge_data kvs (AList.update k v data)"

definition doParsing :: "64 word \<Rightarrow> ParsingTask \<Rightarrow> 'e + (string, string) gomap \<Rightarrow> parsing_phase \<Rightarrow>
    parsing_phase option" where
  "doParsing now task reply ph =
     (if task \<notin> set (ph_running ph) then None
      else
        let ph = ph\<lparr>ph_running := remove1 task (ph_running ph)\<rparr> in
        case reply of
          Inl err \<Rightarrow> Some (ph\<lparr>ph_stats := AddFailedParsing now (ph_stats ph)\<rparr>)
        | Inr data \<Rightarrow> Some (ph\<lparr>ph_data := merge_data data (ph_data ph),
            ph_stats := AddSuccessParsing now (ph_stats ph)\<rparr>))"

inductive phase_step :: "sessionParams \<Rightarrow> int \<Rightarrow> string \<Rightarrow> (ParsingTask \<Rightarrow> 'e + (string, string) gomap) \<Rightarrow>
    parsing_phase \<Rightarrow> parsing_phase \<Rightarrow> bool" for sp startTime session worker where
  start: "start_parsing sp startTime session ph = Some ph' \<Longrightarrow> phase_step sp startTime session worker ph ph'"
| reply: "doParsing now task (worker task) ph = Some ph' \<Longrightarrow> phase_step sp startTime session worker ph ph'"

section \<open>The aggregation phase\<close>

definition frame_agg :: "int \<Rightarrow> 64 word \<Rightarrow> string \<Rightarrow> (string, string) gomap \<Rightarrow> AggregatingTask \<Rightarrow> AggregatingTask" where
  "frame_agg startTime whole session data t =
     t\<lparr>at_Frame := \<lparr>tf_Previous = unix startTime, tf_Current = unix (startTime + sint whole)\<rparr>, at_Id := session,
       at_ParsingResult := data\<rparr>"

text \<open>Aggregation tasks only count their outcome, so the order of their replies does not matter.\<close>

definition doAggregation :: "64 word \<Rightarrow> 'e option \<Rightarrow> clientStats \<Rightarrow> clientStats" where
  "doAggregation now err stats =
     (case err of Some _ \<Rightarrow> AddFailedAggregate now stats | None \<Rightarrow> AddSuccessAggregate now stats)"

fun aggregate_all :: "64 word \<Rightarrow> (AggregatingTask \<Rightarrow> 'e option) \<Rightarrow> AggregatingTask list \<Rightarrow> clientStats \<Rightarrow> clientStats" where
  "aggregate_all now worker [] stats = stats"
| "aggregate_all now worker (t # ts) stats = aggregate_all now worker ts (doAggregation now (worker t) stats)"

section \<open>Lemmas on the time frame\<close>

lemma bit_len_upper: "n < 2 ^ bit_len n"
proof (induction n rule: bit_len.induct)
  case (1 n)
  show ?case
  proof (cases "n = 0")
    case False
    then have "n div 2 < 2 ^ bit_len (n div 2)" using 1 by blast
    then have "n < 2 * 2 ^ bit_len (n div 2)" by linarith
    then show ?thesis using False by (subst bit_len.simps) simp
  qed (simp add: bit_len.simps)
qed

lemma bit_len_lower: "0 < n \<Longrightarrow> 2 ^ (bit_len n - 1) \<le> n"
proof (induction n rule: bit_len.induct)
  case (1 n)
  show ?case
  proof (cases "n div 2 = 0")
    case True
    then have "n = 1" using 1(2) by linarith
    then show ?thesis by (simp add: bit_len.simps)
  next
    case False
    then have ih: "2 ^ (bit_len (n div 2) - 1) \<le> n div 2" using 1 by auto
    have "bit_len (n div 2) \<noteq> 0" using False by (subst bit_len.simps) simp
    then obtain b where b: "bit_len (n div 2) = Suc b" by (cases "bit_len (n div 2)") auto
    then have "2 * 2 ^ b \<le> n" using ih by simp
    then show ?thesis using b False by (subst bit_len.simps) auto
  qed
qed

text \<open>Rounding moves a number by at most half a unit of its last place.\<close>

lemma round53_error:
  "9007199254740992 * round53 n \<le> 9007199254740992 * n + n \<and>
   9007199254740992 * n \<le> 9007199254740992 * round53 n + n"
proof (cases "bit_len n \<le> 53")
  case True
  then have "round53 n = n" by (simp add: round53_def)
  then show ?thesis by simp
next
  case False
  define s where "s = bit_len n - 53"
  have s: "bit_len n - 1 = s + 52" using False s_def by simp
  have "0 < n" using False by (cases n) (simp_all add: bit_len.simps)
  from bit_len_lower [OF this] have big: "2 ^ s * 2 ^ 52 \<le> n" unfolding s power_add by simp
  let ?q = "n div 2 ^ s" and ?r = "n mod 2 ^ s"
  have n: "?q * 2 ^ s + ?r = n" by (rule div_mult_mod_eq)
  have r: "?r < 2 ^ s" by simp
  have "2 * round53 n \<le> 2 * n + 2 ^ s \<and> 2 * n \<le> 2 * round53 n + 2 ^ s"
  proof (cases "2 * ?r > 2 ^ s \<or> (2 * ?r = 2 ^ s \<and> odd ?q)")
    case True
    then have "round53 n = ?q * 2 ^ s + 2 ^ s"
      by (simp add: round53_def s_def [symmetric] Let_def algebra_simps)
    moreover have "2 ^ s \<le> 2 * ?r" using True by auto
    ultimately show ?thesis using n r by linarith
  next
    case False
    then have "round53 n = ?q * 2 ^ s" by (simp add: round53_def s_def [symmetric] Let_def)
    moreover have "2 * ?r \<le> 2 ^ s" using False by linarith
    ultimately show ?thesis using n by linarith
  qed
  moreover have "9007199254740992 * 2 ^ s \<le> 2 * n" using big by simp
  ultimately show ?thesis by (elim conjE, intro conjI; linarith)
qed

lemma round53_small: "n < 2 ^ 53 \<Longrightarrow> round53 n = n"
proof -
  assume n: "n < 2 ^ 53"
  have "bit_len n \<le> 53"
  proof (rule ccontr)
    assume a: "\<not> bit_len n \<le> 53"
    then have "0 < n" by (cases n) (simp_all add: bit_len.simps)
    from bit_len_lower [OF this] have "2 ^ (bit_len n - 1) \<le> n" .
    moreover have "(2::nat) ^ 53 \<le> 2 ^ (bit_len n - 1)" using a by (intro power_increasing) auto
    ultimately show False using n by linarith
  qed
  then show ?thesis by (simp add: round53_def)
qed

lemma times_07_bounds:
  assumes "n < 2 ^ 32"
  shows "times_07 n \<le> 7 * n div 10 \<and> 7 * n div 10 \<le> Suc (times_07 n)"
proof -
  define x where "x = round53 (n * 6305039478318694)"
  have n: "n < 4294967296" using assms by simp
  have "round53 n = n" by (rule round53_small) (use n in simp)
  then have t: "times_07 n = x div 9007199254740992"
    by (simp add: times_07_def float_7_tenths_def x_def)
  note e = round53_error [of "n * 6305039478318694", folded x_def]
  have u: "x \<le> 6305039478318694 * n + n" using conjunct1 [OF e] by linarith
  have l: "6305039478318694 * n \<le> x + n" using conjunct2 [OF e] by linarith
  define k where "k = 7 * n div 10"
  have k: "10 * k \<le> 7 * n" "7 * n < 10 * k + 10" unfolding k_def by linarith+
  have "x < 9007199254740992 * k + 9007199254740992" using u k(2) n by linarith
  moreover have "9007199254740992 * k \<le> x + 9007199254740992" using l k(1) n by linarith
  ultimately show ?thesis unfolding t k_def [symmetric] by (intro conjI; linarith)
qed

lemma times_07_of_90: "times_07 90 = 62"
  by (simp add: times_07_def round53_def bit_len.simps float_7_tenths_def)

lemma seconds_sint:
  assumes "n * 1000000000 < 2 ^ 63"
  shows "sint (word_of_nat n * SecondW) = int n * 1000000000"
proof -
  have "word_of_nat n * SecondW = (word_of_nat (n * 1000000000) :: 64 word)" by (simp add: SecondW_def)
  moreover have "signed_take_bit 63 (int (n * 1000000000)) = int (n * 1000000000)"
    by (rule signed_take_bit_int_eq_self) (use assms in simp_all)
  then have "sint (word_of_nat (n * 1000000000) :: 64 word) = int (n * 1000000000)"
    by (simp add: signed_of_nat del: of_nat_mult)
  ultimately show ?thesis by simp
qed

section \<open>Lemmas on the session\<close>

lemma fetch_groups_map: "go_map h \<Longrightarrow> go_map (fetch_groups mord fetch items h)"
  by (induction items arbitrary: h) (auto split: sum.split intro: Merge_map)

lemma fetch_groups_hosts:
  assumes "\<And>item hs. fetch item = Inr hs \<Longrightarrow> go_map hs"
  shows "x \<in> set (lookup_zero [] (fetch_groups mord fetch items h) dc) \<longleftrightarrow>
    x \<in> set (lookup_zero [] h dc) \<or>
    (\<exists>item\<in>set items. \<exists>hs. fetch item = Inr hs \<and> x \<in> set (lookup_zero [] hs dc))"
proof (induction items arbitrary: h)
  case (Cons item items)
  show ?case
  proof (cases "fetch item")
    case (Inl err)
    then show ?thesis using Cons.IH [of h] by auto
  next
    case (Inr hs)
    then show ?thesis using Cons.IH [of "Merge mord hs h"] Merge_lookup [OF assms [OF Inr]] by auto
  qed
qed simp

section \<open>Lemmas on the parsing phase\<close>

definition replied :: "(ParsingTask \<Rightarrow> 'e + (string, string) gomap) \<Rightarrow> ParsingTask \<Rightarrow> bool" where
  "replied worker t \<longleftrightarrow> (\<exists>r. worker t = Inr r)"

text \<open>
  \<open>phase_inv ... finished\<close>: the tasks are split between those waiting, in flight and finished; the
  counters and the collected data are those of the finished ones.
\<close>

definition phase_inv :: "sessionParams \<Rightarrow> int \<Rightarrow> string \<Rightarrow> (ParsingTask \<Rightarrow> 'e + (string, string) gomap) \<Rightarrow>
    clientStats \<Rightarrow> parsing_phase \<Rightarrow> ParsingTask list \<Rightarrow> bool" where
  "phase_inv sp startTime session worker stats ph finished \<longleftrightarrow>
     (let frame = frame_task startTime (WholeTime sp) session in
      mset (map frame (ph_todo ph)) + mset (ph_running ph) + mset finished = mset (map frame (PTasks sp)) \<and>
      int (length (ph_running ph)) \<le> max 0 (ParallelParsings sp) \<and>
      successParsing (ph_stats ph) = successParsing stats + of_nat (length (filter (replied worker) finished)) \<and>
      failedParsing (ph_stats ph) =
        failedParsing stats + of_nat (length (filter (\<lambda>t. \<not> replied worker t) finished)) \<and>
      dom (map_of (ph_data ph)) = (\<Union>t\<in>set finished. \<Union>r\<in>{r. worker t = Inr r}. fst ` set r) \<and>
      (\<forall>k v. map_of (ph_data ph) k = Some v \<longrightarrow>
        (\<exists>t\<in>set finished. \<exists>r. worker t = Inr r \<and> (k, v) \<in> set r)))"

lemma merge_data_dom: "dom (map_of (merge_data kvs data)) = fst ` set kvs \<union> dom (map_of data)"
  by (induction kvs data rule: merge_data.induct) auto

lemma merge_data_value:
  "map_of (merge_data kvs data) k = Some v \<Longrightarrow> (k, v) \<in> set kvs \<or> map_of data k = Some v"
  by (induction kvs data rule: merge_data.induct) (auto split: if_splits)

lemma phase_start_inv: "phase_inv sp startTime session worker stats (phase_start sp stats) []"
  by (simp add: phase_inv_def phase_start_def Let_def)

lemma start_parsing_inv:
  assumes "phase_inv sp startTime session worker stats ph finished"
    and "start_parsing sp startTime session ph = Some ph'"
  shows "phase_inv sp startTime session worker stats ph' finished"
proof -
  obtain task rest where t: "ph_todo ph = task # rest" "int (length (ph_running ph)) < ParallelParsings sp"
    and ph': "ph' = ph\<lparr>ph_todo := rest,
      ph_running := ph_running ph @ [frame_task startTime (WholeTime sp) session task]\<rparr>"
    using assms(2) by (auto simp: start_parsing_def split: list.splits if_splits)
  have d: "ph_data ph' = ph_data ph" "ph_stats ph' = ph_stats ph" by (simp_all add: ph')
  let ?f = "frame_task startTime (WholeTime sp) session"
  have "mset (map ?f (ph_todo ph')) + mset (ph_running ph') + mset finished =
      mset (map ?f (ph_todo ph)) + mset (ph_running ph) + mset finished"
    by (simp add: ph' t(1))
  moreover have "int (length (ph_running ph')) \<le> max 0 (ParallelParsings sp)" using t(2) by (simp add: ph')
  ultimately show ?thesis using assms(1) unfolding phase_inv_def Let_def d by metis
qed

lemma doParsing_inv:
  assumes inv: "phase_inv sp startTime session worker stats ph finished"
    and r: "doParsing now task (worker task) ph = Some ph'"
  shows "phase_inv sp startTime session worker stats ph' (finished @ [task])"
proof -
  have t: "task \<in> set (ph_running ph)" using r by (auto simp: doParsing_def split: if_splits)
  have m: "mset (remove1 task (ph_running ph)) + {#task#} = mset (ph_running ph)" using t by simp
  have len: "length (remove1 task (ph_running ph)) \<le> length (ph_running ph)" by (simp add: length_remove1)
  have run: "ph_running ph' = remove1 task (ph_running ph)" "ph_todo ph' = ph_todo ph"
    using r t by (auto simp: doParsing_def Let_def split: sum.splits)
  let ?f = "frame_task startTime (WholeTime sp) session"
  have split: "mset (map ?f (ph_todo ph')) + mset (ph_running ph') + mset (finished @ [task]) = mset (map ?f (PTasks sp))"
  proof -
    have "mset (map ?f (ph_todo ph)) + mset (ph_running ph) + mset finished = mset (map ?f (PTasks sp))"
      using inv by (simp only: phase_inv_def Let_def)
    then show ?thesis unfolding run m [symmetric] mset_append by (simp add: ac_simps)
  qed
  have bound: "int (length (ph_running ph')) \<le> max 0 (ParallelParsings sp)"
    using inv len unfolding phase_inv_def Let_def run by linarith
  have old: "successParsing (ph_stats ph) = successParsing stats + of_nat (length (filter (replied worker) finished))"
    "failedParsing (ph_stats ph) = failedParsing stats + of_nat (length (filter (\<lambda>t. \<not> replied worker t) finished))"
    "dom (map_of (ph_data ph)) = (\<Union>t\<in>set finished. \<Union>r\<in>{r. worker t = Inr r}. fst ` set r)"
    "\<forall>k v. map_of (ph_data ph) k = Some v \<longrightarrow> (\<exists>t\<in>set finished. \<exists>r. worker t = Inr r \<and> (k, v) \<in> set r)"
    using inv by (simp_all add: phase_inv_def Let_def)
  show ?thesis
  proof (cases "worker task")
    case (Inl err)
    then have "ph_data ph' = ph_data ph" "ph_stats ph' = AddFailedParsing now (ph_stats ph)"
      using r t by (auto simp: doParsing_def Let_def)
    then show ?thesis
      using split bound old Inl unfolding phase_inv_def Let_def
      by (simp add: AddFailedParsing_def replied_def)
  next
    case (Inr data)
    then have d: "ph_data ph' = merge_data data (ph_data ph)" "ph_stats ph' = AddSuccessParsing now (ph_stats ph)"
      using r t by (auto simp: doParsing_def Let_def)
    have "dom (map_of (ph_data ph')) = (\<Union>t\<in>set (finished @ [task]). \<Union>r\<in>{r. worker t = Inr r}. fst ` set r)"
      unfolding d(1) merge_data_dom old(3) using Inr by auto
    moreover have "\<exists>t\<in>set (finished @ [task]). \<exists>r. worker t = Inr r \<and> (k, v) \<in> set r"
      if "map_of (ph_data ph') k = Some v" for k v
      using merge_data_value [OF that [unfolded d(1)]] old(4) Inr by auto
    moreover have "successParsing (ph_stats ph') =
        successParsing stats + of_nat (length (filter (replied worker) (finished @ [task])))"
      "failedParsing (ph_stats ph') =
        failedParsing stats + of_nat (length (filter (\<lambda>t. \<not> replied worker t) (finished @ [task])))"
      unfolding d(2) using old(1,2) Inr by (simp_all add: AddSuccessParsing_def replied_def)
    ultimately show ?thesis using split bound unfolding phase_inv_def Let_def by blast
  qed
qed

lemma phase_step_inv:
  assumes "\<exists>finished. phase_inv sp startTime session worker stats ph finished" and "phase_step sp startTime session worker ph ph'"
  shows "\<exists>finished. phase_inv sp startTime session worker stats ph' finished"
  using assms(2)
proof (cases rule: phase_step.cases)
  case start
  then show ?thesis using assms(1) start_parsing_inv by blast
next
  case (reply now task)
  then show ?thesis using assms(1) doParsing_inv by blast
qed

interpretation collecting: guarded_steps "phase_step sp startTime session worker"
  "\<lambda>ph. \<exists>finished. phase_inv sp startTime session worker stats ph finished"
  by unfold_locales (rule phase_step_inv)

lemma phase_steps_inv:
  "(phase_step sp startTime session worker)\<^sup>*\<^sup>* (phase_start sp stats) ph \<Longrightarrow>
    \<exists>finished. phase_inv sp startTime session worker stats ph finished"
  using phase_start_inv by (blast intro: collecting.steps_inv)

lemma phase_progress:
  assumes "0 < ParallelParsings sp" and "ph_todo ph \<noteq> [] \<or> ph_running ph \<noteq> []"
  shows "\<exists>ph'. phase_step sp startTime session worker ph ph'"
proof (cases "ph_running ph")
  case Nil
  then obtain task rest where "ph_todo ph = task # rest" using assms(2) by (cases "ph_todo ph") auto
  then have "\<exists>ph'. start_parsing sp startTime session ph = Some ph'"
    using Nil assms(1) by (simp add: start_parsing_def)
  then show ?thesis using phase_step.start by blast
next
  case (Cons task rest)
  then have "\<exists>ph'. doParsing 0 task (worker task) ph = Some ph'"
    by (cases "worker task") (simp_all add: doParsing_def Let_def)
  then show ?thesis using phase_step.reply by blast
qed

definition phase_measure :: "parsing_phase \<Rightarrow> nat" where
  "phase_measure ph = 2 * length (ph_todo ph) + length (ph_running ph)"

lemma phase_step_measure:
  "phase_step sp startTime session worker ph ph' \<Longrightarrow> phase_measure ph' < phase_measure ph"
proof (induction rule: phase_step.induct)
  case (start ph ph')
  then show ?case by (auto simp: start_parsing_def phase_measure_def split: list.splits if_splits)
next
  case (reply now task ph ph')
  then have t: "task \<in> set (ph_running ph)" by (auto simp: doParsing_def split: if_splits)
  then have "0 < length (ph_running ph)" by (cases "ph_running ph") auto
  then show ?case
    using reply t by (auto simp: doParsing_def phase_measure_def Let_def length_remove1 split: sum.splits)
qed

interpretation parsing: ending_steps "phase_step sp startTime session worker" "\<lambda>ph. 0 < ParallelParsings sp"
  phase_measure "\<lambda>ph. ph_todo ph = [] \<and> ph_running ph = []"
  by unfold_locales (auto intro: phase_step_measure dest: phase_progress)

section \<open>Properties\<close>

text \<open>
  C17. The time frame of an iteration of \<open>d\<close> seconds, below \<open>2^32\<close>: the whole time is
  exactly \<open>d\<close> seconds, the parsing time a whole number of seconds, at most seven tenths of it and
  less than two seconds below that (the float product may round 63 down to 62, as for 90), so the
  parsing deadline is before the end of the iteration.
\<close>

theorem session_time_frame:
  assumes "unat d < 2 ^ 32"
  shows "\<exists>s. sint (fst (generateSessionTimeFrame d)) = int s * 1000000000 \<and>
    s \<le> 7 * unat d div 10 \<and> 7 * unat d div 10 \<le> s + 1 \<and>
    sint (snd (generateSessionTimeFrame d)) = int (unat d) * 1000000000 \<and>
    (d = 0 \<or> sint (fst (generateSessionTimeFrame d)) < sint (snd (generateSessionTimeFrame d)))"
proof -
  let ?n = "unat d" and ?s = "times_07 (unat d)"
  have n: "?n < 4294967296" using assms by simp
  have b: "?s \<le> 7 * ?n div 10" "7 * ?n div 10 \<le> Suc ?s" using times_07_bounds [OF assms] by blast+
  have le: "?s \<le> ?n" using b(1) by linarith
  have f: "sint (fst (generateSessionTimeFrame d)) = int ?s * 1000000000"
    using seconds_sint [of ?s] le n by (simp add: generateSessionTimeFrame_def)
  have w: "sint (snd (generateSessionTimeFrame d)) = int ?n * 1000000000"
    using seconds_sint [of ?n] n by (simp add: generateSessionTimeFrame_def)
  have "?s < ?n" if "d \<noteq> 0"
  proof -
    have "0 < ?n" using that by (simp add: unat_gt_0)
    then show ?thesis using b(1) by linarith
  qed
  then have "d = 0 \<or> sint (fst (generateSessionTimeFrame d)) < sint (snd (generateSessionTimeFrame d))"
    unfolding f w by linarith
  then show ?thesis using b f w by (intro exI [of _ ?s]) simp
qed

theorem session_time_frame_witness:
  "sint (snd (generateSessionTimeFrame 90)) = 90000000000 \<and> sint (fst (generateSessionTimeFrame 90)) = 62000000000"
proof -
  have "times_07 (unat (90 :: 64 word)) = 62" using times_07_of_90 by simp
  then have "sint (fst (generateSessionTimeFrame 90)) = int 62 * 1000000000"
    using seconds_sint [of 62] by (simp add: generateSessionTimeFrame_def)
  then show ?thesis using session_time_frame [of 90] by auto
qed

text \<open>
  C18. The parsing phase of an iteration, whatever the order in which the workers answer: at most
  \<open>ParallelParsings\<close> tasks are in flight; it does not block and ends; when it has ended, every
  task was sent exactly once, the counters of the client grew by the numbers of successful and failed
  tasks, and the collected data has exactly the keys of the successful replies, each with a value one
  of them gave.
\<close>

theorem parsing_phase_collects:
  assumes "0 < ParallelParsings sp"
    and "(phase_step sp startTime session worker)\<^sup>*\<^sup>* (phase_start sp stats) ph"
  shows "int (length (ph_running ph)) \<le> ParallelParsings sp \<and>
    wfP (phase_step sp startTime session worker)\<inverse>\<inverse> \<and>
    (if ph_todo ph \<noteq> [] \<or> ph_running ph \<noteq> []
     then \<exists>ph'. phase_step sp startTime session worker ph ph'
     else let sent = map (frame_task startTime (WholeTime sp) session) (PTasks sp) in
       successParsing (ph_stats ph) = successParsing stats + of_nat (length (filter (replied worker) sent)) \<and>
       failedParsing (ph_stats ph) =
         failedParsing stats + of_nat (length (filter (\<lambda>t. \<not> replied worker t) sent)) \<and>
       dom (map_of (ph_data ph)) = (\<Union>t\<in>set sent. \<Union>r\<in>{r. worker t = Inr r}. fst ` set r) \<and>
       (\<forall>k v. map_of (ph_data ph) k = Some v \<longrightarrow> (\<exists>t\<in>set sent. \<exists>r. worker t = Inr r \<and> (k, v) \<in> set r)))"
proof -
  obtain finished where inv: "phase_inv sp startTime session worker stats ph finished"
    using phase_steps_inv [OF assms(2)] by blast
  have "int (length (ph_running ph)) \<le> ParallelParsings sp"
    using inv assms(1) by (simp add: phase_inv_def Let_def)
  moreover have "wfP (phase_step sp startTime session worker)\<inverse>\<inverse>"
    by (rule parsing.terminates)
  moreover have "let sent = map (frame_task startTime (WholeTime sp) session) (PTasks sp) in
       successParsing (ph_stats ph) = successParsing stats + of_nat (length (filter (replied worker) sent)) \<and>
       failedParsing (ph_stats ph) =
         failedParsing stats + of_nat (length (filter (\<lambda>t. \<not> replied worker t) sent)) \<and>
       dom (map_of (ph_data ph)) = (\<Union>t\<in>set sent. \<Union>r\<in>{r. worker t = Inr r}. fst ` set r) \<and>
       (\<forall>k v. map_of (ph_data ph) k = Some v \<longrightarrow> (\<exists>t\<in>set sent. \<exists>r. worker t = Inr r \<and> (k, v) \<in> set r))"
    if e: "ph_todo ph = []" "ph_running ph = []"
  proof -
    let ?sent = "map (frame_task startTime (WholeTime sp) session) (PTasks sp)"
    have m: "mset finished = mset ?sent" using inv e by (simp add: phase_inv_def Let_def)
    have "length (filter P finished) = length (filter P ?sent)" for P
      using m by (metis mset_filter size_mset)
    moreover have "set finished = set ?sent" using m by (rule mset_eq_setD)
    ultimately show ?thesis using inv unfolding phase_inv_def Let_def by metis
  qed
  moreover have "\<exists>ph'. phase_step sp startTime session worker ph ph'"
    if "ph_todo ph \<noteq> [] \<or> ph_running ph \<noteq> []"
    by (rule phase_progress [OF assms(1) that])
  ultimately show ?thesis by auto
qed

definition sample_task :: ParsingTask where
  "sample_task = \<lparr>pt_Frame = zero_frame, pt_Host = ''h'', pt_ParsingConfigName = ''c'', pt_EncodedParsingConfig = [],
     pt_EncodedAggregationConfigs = [], pt_Id = []\<rparr>"

definition sample_session :: sessionParams where
  "sample_session = \<lparr>aggregateLocally = True, ParallelParsings = 1, ParsingTime = 0, WholeTime = 0,
     PTasks = [sample_task], AggTasks = []\<rparr>"

definition sample_worker :: "ParsingTask \<Rightarrow> string + (string, string) gomap" where
  "sample_worker t = Inr [(''k'', pt_Host t)]"

theorem parsing_phase_collects_witness:
  "\<exists>ph. (phase_step sample_session 0 ''s'' sample_worker)\<^sup>*\<^sup>* (phase_start sample_session zero_stats) ph \<and>
    successParsing (ph_stats ph) = 1 \<and> dom (map_of (ph_data ph)) = {''k''}"
proof -
  let ?t = "frame_task 0 0 ''s'' sample_task"
  let ?ph1 = "\<lparr>ph_todo = [], ph_running = [?t], ph_data = [], ph_stats = zero_stats\<rparr>"
  let ?ph2 = "\<lparr>ph_todo = [], ph_running = [], ph_data = merge_data [(''k'', ''h'')] [],
    ph_stats = AddSuccessParsing 5 zero_stats\<rparr>"
  have "phase_step sample_session 0 ''s'' sample_worker (phase_start sample_session zero_stats) ?ph1"
    by (rule phase_step.start) (simp add: start_parsing_def phase_start_def sample_session_def)
  moreover have "phase_step sample_session 0 ''s'' sample_worker ?ph1 ?ph2"
    by (rule phase_step.reply [of 5 ?t])
      (simp add: doParsing_def sample_worker_def frame_task_def sample_task_def Let_def)
  ultimately have r: "(phase_step sample_session 0 ''s'' sample_worker)\<^sup>*\<^sup>* (phase_start sample_session zero_stats) ?ph2"
    by (meson converse_rtranclp_into_rtranclp rtranclp.rtrancl_refl)
  moreover have "successParsing (ph_stats ?ph2) = 1 \<and> dom (map_of (ph_data ?ph2)) = {''k''}"
    using parsing_phase_collects [OF _ r]
    by (simp add: sample_session_def sample_worker_def replied_def zero_stats_def Let_def)
  ultimately show ?thesis by blast
qed

lemma parallel_bounds:
  fixes n m :: int
  assumes "1 \<le> n"
  shows "1 \<le> (if m > 0 \<and> n > m then m else n) \<and> (if m > 0 \<and> n > m then m else n) \<le> n \<and>
    (m \<le> 0 \<or> (if m > 0 \<and> n > m then m else n) \<le> m)"
  using assms by auto

text \<open>What a host fetcher returns is a Go map.\<close>

definition fetchers_give_maps :: "'e session_env \<Rightarrow> bool" where
  "fetchers_give_maps env \<longleftrightarrow>
     (\<forall>c fetch item hs. env_hostFetcher env c = Inr fetch \<and> fetch item = Inr hs \<longrightarrow> go_map hs)"

text \<open>What \<open>updateSessionParams\<close> went through when it succeeds.\<close>

lemma updateSessionParams_ok:
  assumes "updateSessionParams env myname config = Inr (Inr sp)"
  obtains content p p2 aggs fetch where
    "GetParsingConfig (env_fs env) config = Inr content" "env_decodeParsing env content = Inr p"
    "pc_Groups p2 = pc_Groups p" "pc_AggConfigs p2 = (if pc_AggConfigs p = [] then [config] else pc_AggConfigs p)"
    "ms_ParallelParsings (pc_MainSection p2) = ms_ParallelParsings (pc_MainSection p)"
    "load_aggregations (env_fs env) (env_decodeAggregation env) (pc_AggConfigs p2) [] = Inr aggs"
    "env_hostFetcher env (pc_HostFetcher p2) = Inr fetch"
    "AllHosts (env_aord env) myname (fetch_groups (env_mord env) fetch (pc_Groups p2) []) \<noteq> []"
    "sp = make_session env config p2 aggs (fetch_groups (env_mord env) fetch (pc_Groups p2) [])
      (AllHosts (env_aord env) myname (fetch_groups (env_mord env) fetch (pc_Groups p2) []))"
proof -
  let ?cfg = "GetCombainerConfig (env_fs env) (env_decodeCombainer env) (env_zeroConfig env)"
  obtain content p where p: "GetParsingConfig (env_fs env) config = Inr content" "env_decodeParsing env content = Inr p"
    using assms by (auto simp: updateSessionParams_def split: sum.splits)
  obtain p1 cfg1 where u: "UpdateByCombainerConfig (env_dord env) (env_hord env) ?cfg p = Inr (p1, cfg1)"
    using assms p
    by (cases "UpdateByCombainerConfig (env_dord env) (env_hord env) ?cfg p") (auto simp: updateSessionParams_def)
  have same: "pc_Groups p1 = pc_Groups p" "pc_AggConfigs p1 = pc_AggConfigs p"
    "ms_ParallelParsings (pc_MainSection p1) = ms_ParallelParsings (pc_MainSection p)"
    using UpdateByCombainerConfig_frame [OF u] by blast+
  obtain p2 aggs where a: "GetAggregationConfigs (env_fs env) (env_decodeAggregation env) config p1 = (p2, Inr aggs)"
    using assms p u by (auto simp: updateSessionParams_def split: prod.splits sum.splits)
  have p2: "pc_Groups p2 = pc_Groups p" "pc_AggConfigs p2 = (if pc_AggConfigs p = [] then [config] else pc_AggConfigs p)"
    "ms_ParallelParsings (pc_MainSection p2) = ms_ParallelParsings (pc_MainSection p)"
    "load_aggregations (env_fs env) (env_decodeAggregation env) (pc_AggConfigs p2) [] = Inr aggs"
    using a same by (auto simp: GetAggregationConfigs_def Let_def split: if_splits)
  obtain fetch where f: "env_hostFetcher env (pc_HostFetcher p2) = Inr fetch"
    using assms p u a by (auto simp: updateSessionParams_def split: sum.splits)
  have sp: "AllHosts (env_aord env) myname (fetch_groups (env_mord env) fetch (pc_Groups p2) []) \<noteq> []"
    "sp = make_session env config p2 aggs (fetch_groups (env_mord env) fetch (pc_Groups p2) [])
      (AllHosts (env_aord env) myname (fetch_groups (env_mord env) fetch (pc_Groups p2) []))"
    using assms p u a f by (auto simp: updateSessionParams_def Let_def split: if_splits)
  show ?thesis by (rule that [OF p p2 f sp])
qed

lemma make_session_fields:
  "map pt_Host (PTasks (make_session env config p aggs all hosts)) = hosts"
  "map at_Config (AggTasks (make_session env config p aggs all hosts)) = pc_AggConfigs p"
  "ParallelParsings (make_session env config p aggs all hosts) =
    (if ms_ParallelParsings (pc_MainSection p) > 0 \<and> int (length hosts) > ms_ParallelParsings (pc_MainSection p)
     then ms_ParallelParsings (pc_MainSection p) else int (length hosts))"
  by (simp_all add: make_session_def Let_def comp_def split: prod.split)

lemma make_session_sets:
  "pt_Host ` set (PTasks (make_session env config p aggs all hosts)) = set hosts"
  "length (PTasks (make_session env config p aggs all hosts)) = length hosts"
  "at_Config ` set (AggTasks (make_session env config p aggs all hosts)) = set (pc_AggConfigs p)"
  using make_session_fields [of env config p aggs all hosts] by (metis list.set_map, metis length_map, metis list.set_map)

lemma session_parallel:
  assumes "updateSessionParams env myname config = Inr (Inr sp)"
  shows "1 \<le> ParallelParsings sp"
  using assms
proof (rule updateSessionParams_ok)
  fix p2 aggs all fetch
  assume "AllHosts (env_aord env) myname (fetch_groups (env_mord env) fetch (pc_Groups p2) []) \<noteq> []"
    and "sp = make_session env config p2 aggs (fetch_groups (env_mord env) fetch (pc_Groups p2) [])
      (AllHosts (env_aord env) myname (fetch_groups (env_mord env) fetch (pc_Groups p2) []))"
  then show ?thesis by (simp add: make_session_fields(3) Suc_leI)
qed

lemma session_hosts:
  assumes "fetchers_give_maps env" and "env_hostFetcher env c = Inr fetch"
  shows "set (AllHosts ord myname (fetch_groups mord fetch items [])) =
    {h. \<exists>g\<in>set items. \<exists>hs dc. fetch g = Inr hs \<and> h \<in> set (lookup_zero [] hs dc)}"
proof -
  have gm: "fetch item = Inr hs \<Longrightarrow> go_map hs" for item hs using assms unfolding fetchers_give_maps_def by blast
  have "x \<in> set (lookup_zero [] (fetch_groups mord fetch items []) dc) \<longleftrightarrow>
      (\<exists>g\<in>set items. \<exists>hs. fetch g = Inr hs \<and> x \<in> set (lookup_zero [] hs dc))" for x dc
    using fetch_groups_hosts [OF gm, where x = x and mord = mord and items = items and h = "[]" and dc = dc]
    by (simp add: lookup_zero_notin [of dc "[]" "[]"])
  then show ?thesis unfolding AllHosts_def set_getHosts by blast
qed

text \<open>
  C19. When \<open>updateSessionParams\<close> succeeds, the parsing tasks are for exactly the hosts of the
  groups of the config whose fetch succeeded, at least one; the number of tasks sent at once is between
  one and their number and no more than the config allows; there is one aggregation task for every
  aggregation config, and each was found and decoded.
\<close>

theorem session_params_complete:
  assumes "updateSessionParams env myname config = Inr (Inr sp)" and "fetchers_give_maps env"
  shows "\<exists>content p fetch c. GetParsingConfig (env_fs env) config = Inr content \<and>
    env_decodeParsing env content = Inr p \<and> env_hostFetcher env c = Inr fetch \<and>
    pt_Host ` set (PTasks sp) = {h. \<exists>g\<in>set (pc_Groups p). \<exists>hs dc. fetch g = Inr hs \<and> h \<in> set (lookup_zero [] hs dc)} \<and>
    1 \<le> ParallelParsings sp \<and> ParallelParsings sp \<le> int (length (PTasks sp)) \<and>
    (ms_ParallelParsings (pc_MainSection p) \<le> 0 \<or> ParallelParsings sp \<le> ms_ParallelParsings (pc_MainSection p)) \<and>
    map at_Config (AggTasks sp) = (if pc_AggConfigs p = [] then [config] else pc_AggConfigs p) \<and>
    (\<forall>name. name \<notin> at_Config ` set (AggTasks sp) \<or> (\<exists>text a.
      GetAggregationConfig (env_fs env) name = Inr text \<and> env_decodeAggregation env text = Inr a))"
proof -
  obtain content p p2 aggs fetch where p: "GetParsingConfig (env_fs env) config = Inr content" "env_decodeParsing env content = Inr p"
    and p2: "pc_Groups p2 = pc_Groups p" "pc_AggConfigs p2 = (if pc_AggConfigs p = [] then [config] else pc_AggConfigs p)"
      "ms_ParallelParsings (pc_MainSection p2) = ms_ParallelParsings (pc_MainSection p)"
    and load: "load_aggregations (env_fs env) (env_decodeAggregation env) (pc_AggConfigs p2) [] = Inr aggs"
    and f: "env_hostFetcher env (pc_HostFetcher p2) = Inr fetch"
    and ne: "AllHosts (env_aord env) myname (fetch_groups (env_mord env) fetch (pc_Groups p2) []) \<noteq> []"
    and sp: "sp = make_session env config p2 aggs (fetch_groups (env_mord env) fetch (pc_Groups p2) [])
      (AllHosts (env_aord env) myname (fetch_groups (env_mord env) fetch (pc_Groups p2) []))"
    by (rule updateSessionParams_ok [OF assms(1)])
  have hosts: "pt_Host ` set (PTasks sp) = {h. \<exists>g\<in>set (pc_Groups p). \<exists>hs dc. fetch g = Inr hs \<and> h \<in> set (lookup_zero [] hs dc)}"
    unfolding sp make_session_sets session_hosts [OF assms(2) f] p2(1) ..
  have par: "1 \<le> ParallelParsings sp \<and> ParallelParsings sp \<le> int (length (PTasks sp)) \<and>
    (ms_ParallelParsings (pc_MainSection p) \<le> 0 \<or> ParallelParsings sp \<le> ms_ParallelParsings (pc_MainSection p))"
    unfolding sp make_session_sets make_session_fields p2(3) by (rule parallel_bounds) (use ne in \<open>simp add: Suc_leI\<close>)
  have names: "map at_Config (AggTasks sp) = (if pc_AggConfigs p = [] then [config] else pc_AggConfigs p)"
    unfolding sp make_session_fields by (rule p2(2))
  have found: "\<forall>name. name \<notin> at_Config ` set (AggTasks sp) \<or> (\<exists>text a.
      GetAggregationConfig (env_fs env) name = Inr text \<and> env_decodeAggregation env text = Inr a)"
    unfolding sp make_session_sets using load_aggregations_ok [OF load] by blast
  show ?thesis using p f hosts par names found by (intro exI conjI) simp_all
qed

definition sample_main :: MainSection where
  "sample_main = \<lparr>ms_Cluster = \<lparr>BindAddr = [], RaftPort = 0, BootstrapExpect = 0, StartAsLeader = False,
       RaftUpdateInterval = 0\<rparr>,
     ms_ParallelParsings = 1, ms_DistributeAggregation = [], ms_IterationDuration = 60, ms_CloudGroups = [],
     ms_HostFetcher = None, ms_Cache = \<lparr>TTL = 5, Interval = 15\<rparr>\<rparr>"

definition sample_env :: "string session_env" where
  "sample_env =
     \<lparr>env_fs = \<lparr>ReadFile = \<lambda>dir name. Inr name, ReadDir = \<lambda>dir. Inr []\<rparr>,
      env_decodeParsing = \<lambda>text. Inr \<lparr>pc_Groups = [''g''], pc_AggConfigs = [], pc_DataFetcher = None,
        pc_Metahost = [], pc_MainSection = sample_main, pc_HostFetcher = None\<rparr>,
      env_decodeCombainer = \<lambda>text. (\<lparr>cc_MainSection = sample_main,
        cc_CloudSection = \<lparr>cs_DataFetcher = None, cs_HostFetcher = None\<rparr>\<rparr>, None),
      env_zeroConfig = \<lparr>cc_MainSection = sample_main,
        cc_CloudSection = \<lparr>cs_DataFetcher = None, cs_HostFetcher = None\<rparr>\<rparr>,
      env_decodeAggregation = \<lambda>text. Inr \<lparr>ac_Data = [], ac_Senders = []\<rparr>,
      env_hostFetcher = \<lambda>c. Inr (\<lambda>item. Inr [(''dc'', [''h1'', ''h2''])]),
      env_packParsing = \<lambda>p. [], env_packAggregations = \<lambda>a. [], env_packAggregation = \<lambda>a. [],
      env_packHosts = \<lambda>h. [], env_zeroAggregation = \<lparr>ac_Data = [], ac_Senders = []\<rparr>,
      env_dord = [], env_hord = [], env_mord = [], env_aord = []\<rparr>"

lemma sample_params_exist: "\<exists>sp. updateSessionParams sample_env ''me'' ''c'' = Inr (Inr sp)"
  by (simp add: updateSessionParams_def sample_env_def GetParsingConfig_def readConfig_def UpdateByCombainerConfig_def
      PluginConfigsUpdate_def GetCombainerConfig_def NewCombaineConfig_def GetAggregationConfigs_def
      GetAggregationConfig_def AllHosts_def getHosts_def Merge_def range_keys_def lookup_zero_def Let_def)

lemma sample_params:
  "\<exists>sp. updateSessionParams sample_env ''me'' ''c'' = Inr (Inr sp) \<and> map pt_Host (PTasks sp) = [''h1'', ''h2''] \<and>
    map at_Config (AggTasks sp) = [''c'']"
proof -
  obtain sp where sp: "updateSessionParams sample_env ''me'' ''c'' = Inr (Inr sp)" using sample_params_exist by blast
  obtain content p p2 aggs fetch where p: "env_decodeParsing sample_env content = Inr p" "pc_Groups p2 = pc_Groups p"
      "pc_AggConfigs p2 = (if pc_AggConfigs p = [] then [''c''] else pc_AggConfigs p)"
      "env_hostFetcher sample_env (pc_HostFetcher p2) = Inr fetch"
    and make: "sp = make_session sample_env ''c'' p2 aggs (fetch_groups (env_mord sample_env) fetch (pc_Groups p2) [])
      (AllHosts (env_aord sample_env) ''me'' (fetch_groups (env_mord sample_env) fetch (pc_Groups p2) []))"
    by (rule updateSessionParams_ok [OF sp])
  have "pc_Groups p2 = [''g'']" "pc_AggConfigs p2 = [''c'']" "fetch = (\<lambda>item. Inr [(''dc'', [''h1'', ''h2''])])"
    using p by (auto simp: sample_env_def)
  moreover have "AllHosts [] ''me'' (fetch_groups [] (\<lambda>item. Inr [(''dc'', [''h1'', ''h2''])] :: string + _) [''g''] []) = [''h1'', ''h2'']"
    by code_simp
  moreover have "env_mord sample_env = []" "env_aord sample_env = []" by (simp_all add: sample_env_def)
  ultimately show ?thesis using sp make make_session_fields by metis
qed

theorem session_params_complete_witness:
  "\<exists>sp. updateSessionParams sample_env ''me'' ''c'' = Inr (Inr sp) \<and> ParallelParsings sp \<le> 1 \<and>
    map at_Config (AggTasks sp) = [''c'']"
proof -
  obtain sp where sp: "updateSessionParams sample_env ''me'' ''c'' = Inr (Inr sp)" using sample_params_exist by blast
  have "fetchers_give_maps sample_env" by (auto simp: fetchers_give_maps_def sample_env_def go_map_def)
  from session_params_complete [OF sp this] obtain content p where
    p: "env_decodeParsing sample_env content = Inr p"
      "ms_ParallelParsings (pc_MainSection p) \<le> 0 \<or> ParallelParsings sp \<le> ms_ParallelParsings (pc_MainSection p)"
      "map at_Config (AggTasks sp) = (if pc_AggConfigs p = [] then [''c''] else pc_AggConfigs p)"
    by (elim exE conjE)
  have "pc_AggConfigs p = []" "ms_ParallelParsings (pc_MainSection p) = 1"
    using p(1) by (auto simp: sample_env_def sample_main_def)
  then have "ParallelParsings sp \<le> 1 \<and> map at_Config (AggTasks sp) = [''c'']" using p(2,3) by simp
  then show ?thesis by (intro exI [of _ sp] conjI sp) simp_all
qed

end
