(* ===== verification/Cache.thy ===== *)
theory Cache
  imports Prelude
begin

text \<open>
  \<open>common/cache/cache.go\<close>: the cache the host fetchers share. A \<open>get\<close> of an absent key makes an
  item that is not ready, runs the fetch function, and closes the item's channel; other calls for
  the key wait for it. An expired item is still served while one more fetch runs in the background,
  and the cleaner drops items that have been expired for long.

  The goroutines interleave between the places where they hold the lock, wait or call the fetch
  function. \<open>cache_step\<close> is one such action; the state lists what is under way. Times are in
  nanoseconds. \<open>it_key\<close> and \<open>c_log\<close>, the fetches that have ended, are read by no action: they
  are there for the invariant.
\<close>

section \<open>State\<close>

record ('v, 'e) item =
  it_key :: string
  it_expires :: int
  it_result :: "('e + 'v) option"
  it_ready :: bool

record ('v, 'e) TTLCache =
  c_ttl :: int
  c_interval :: int
  c_cleanupAfter :: int
  c_store :: "(string, nat) gomap"
  c_items :: "('v, 'e) item list"
  c_fetching :: "nat list"
  c_waiting :: "nat list"
  c_refreshing :: "string list"
  c_updated :: "nat list"
  c_stale :: "string list"
  c_log :: "(string \<times> ('e + 'v)) list"

definition NewCache :: "int \<Rightarrow> int \<Rightarrow> int \<Rightarrow> ('v, 'e) TTLCache" where
  "NewCache ttl interval cleanupAfter =
     \<lparr>c_ttl = ttl, c_interval = interval, c_cleanupAfter = cleanupAfter, c_store = [], c_items = [],
      c_fetching = [], c_waiting = [], c_refreshing = [], c_updated = [], c_stale = [], c_log = []\<rparr>"

definition TuneCache :: "int \<Rightarrow> int \<Rightarrow> int \<Rightarrow> ('v, 'e) TTLCache \<Rightarrow> ('v, 'e) TTLCache" where
  "TuneCache ttl interval cleanupAfter c =
     c\<lparr>c_ttl := ttl, c_interval := interval, c_cleanupAfter := cleanupAfter\<rparr>"

section \<open>The actions of get\<close>

text \<open>Lines 57 to 76: find the item of the key or make one; then the call waits for it.\<close>

definition get_begin :: "string \<Rightarrow> int \<Rightarrow> ('v, 'e) TTLCache \<Rightarrow> ('v, 'e) TTLCache" where
  "get_begin key now c =
     (case map_of (c_store c) key of
        Some i \<Rightarrow> c\<lparr>c_waiting := c_waiting c @ [i]\<rparr>
      | None \<Rightarrow>
          let i = length (c_items c);
              item = \<lparr>it_key = key, it_expires = now + c_ttl c, it_result = None, it_ready = False\<rparr>
          in c\<lparr>c_items := c_items c @ [item], c_store := AList.update key i (c_store c),
               c_fetching := c_fetching c @ [i], c_waiting := c_waiting c @ [i]\<rparr>)"

text \<open>\<open>close(item.ready)\<close>\<close>

definition close_ready :: "nat \<Rightarrow> ('v, 'e) TTLCache \<Rightarrow> gopanic + ('v, 'e) TTLCache" where
  "close_ready i c =
     (if it_ready (c_items c ! i) then Inl CloseOfClosedChannel
      else Inr (c\<lparr>c_items := (c_items c)[i := (c_items c ! i)\<lparr>it_ready := True\<rparr>]\<rparr>))"

text \<open>
  Lines 66 to 72: the fetch function has returned. An error takes the key out of the store before
  the waiting calls are released.
\<close>

definition fetch_done :: "nat \<Rightarrow> 'e + 'v \<Rightarrow> ('v, 'e) TTLCache \<Rightarrow> gopanic + ('v, 'e) TTLCache" where
  "fetch_done i result c =
     (let key = it_key (c_items c ! i);
          c = c\<lparr>c_items := (c_items c)[i := (c_items c ! i)\<lparr>it_result := Some result\<rparr>],
                c_fetching := remove1 i (c_fetching c), c_log := c_log c @ [(key, result)]\<rparr>;
          c = (case result of Inl err \<Rightarrow> c\<lparr>c_store := AList.delete key (c_store c)\<rparr> | Inr v \<Rightarrow> c)
      in close_ready i c)"

text \<open>Lines 77 to 98: an expired item starts a refresh; the result is returned in any case.\<close>

definition get_return :: "nat \<Rightarrow> int \<Rightarrow> ('v, 'e) TTLCache \<Rightarrow> ('v, 'e) TTLCache \<times> ('e + 'v) option" where
  "get_return i now c =
     (let item = c_items c ! i;
          c = c\<lparr>c_waiting := remove1 i (c_waiting c)\<rparr>;
          c = (if now - it_expires item > 0 then c\<lparr>c_refreshing := c_refreshing c @ [it_key item]\<rparr> else c)
      in (c, it_result item))"

text \<open>Lines 80 to 94: the refresh stores a new item, or keeps the old one after an error.\<close>

definition refresh_done :: "string \<Rightarrow> 'e + 'v \<Rightarrow> int \<Rightarrow> ('v, 'e) TTLCache \<Rightarrow> ('v, 'e) TTLCache" where
  "refresh_done key result now c =
     (let c = c\<lparr>c_refreshing := remove1 key (c_refreshing c), c_log := c_log c @ [(key, result)]\<rparr> in
      case result of
        Inl err \<Rightarrow> c
      | Inr v \<Rightarrow>
          let i = length (c_items c);
              updated = \<lparr>it_key = key, it_expires = now + c_ttl c, it_result = Some result, it_ready = False\<rparr>
          in c\<lparr>c_items := c_items c @ [updated], c_store := AList.update key i (c_store c),
               c_updated := c_updated c @ [i]\<rparr>)"

definition refresh_close :: "nat \<Rightarrow> ('v, 'e) TTLCache \<Rightarrow> gopanic + ('v, 'e) TTLCache" where
  "refresh_close i c = close_ready i (c\<lparr>c_updated := remove1 i (c_updated c)\<rparr>)"

definition cache_Delete :: "string \<Rightarrow> ('v, 'e) TTLCache \<Rightarrow> ('v, 'e) TTLCache" where
  "cache_Delete key c = c\<lparr>c_store := AList.delete key (c_store c)\<rparr>"

text \<open>One round of \<open>cleaner\<close>: collect the stale keys, then delete them under a new lock.\<close>

definition cleaner_scan :: "nat list \<Rightarrow> int \<Rightarrow> ('v, 'e) TTLCache \<Rightarrow> ('v, 'e) TTLCache" where
  "cleaner_scan ord now c =
     c\<lparr>c_stale := filter (\<lambda>key. now - it_expires (c_items c ! lookup_zero 0 (c_store c) key) > c_cleanupAfter c)
        (range_keys ord (c_store c))\<rparr>"

definition cleaner_delete :: "('v, 'e) TTLCache \<Rightarrow> ('v, 'e) TTLCache" where
  "cleaner_delete c = c\<lparr>c_store := fold AList.delete (c_stale c) (c_store c), c_stale := []\<rparr>"

section \<open>Interleaving\<close>

datatype ('v, 'e) cache_event = Begin string int | FetchDone nat "'e + 'v" | Return nat int
  | RefreshDone string "'e + 'v" int | RefreshClose nat | Del string | Scan "nat list" int | Clean
  | Tune int int int

text \<open>\<open>None\<close>: no goroutine is at that point.\<close>

definition cache_step :: "('v, 'e) cache_event \<Rightarrow> ('v, 'e) TTLCache \<Rightarrow> (gopanic + ('v, 'e) TTLCache) option" where
  "cache_step ev c =
     (case ev of
        Begin key now \<Rightarrow> Some (Inr (get_begin key now c))
      | FetchDone i result \<Rightarrow> if i \<in> set (c_fetching c) then Some (fetch_done i result c) else None
      | Return i now \<Rightarrow>
          if i \<in> set (c_waiting c) \<and> it_ready (c_items c ! i) then Some (Inr (fst (get_return i now c))) else None
      | RefreshDone key result now \<Rightarrow>
          if key \<in> set (c_refreshing c) then Some (Inr (refresh_done key result now c)) else None
      | RefreshClose i \<Rightarrow> if i \<in> set (c_updated c) then Some (refresh_close i c) else None
      | Del key \<Rightarrow> Some (Inr (cache_Delete key c))
      | Scan ord now \<Rightarrow> Some (Inr (cleaner_scan ord now c))
      | Clean \<Rightarrow> Some (Inr (cleaner_delete c))
      | Tune ttl interval cleanupAfter \<Rightarrow> Some (Inr (TuneCache ttl interval cleanupAfter c)))"

inductive cache_reachable :: "('v, 'e) TTLCache \<Rightarrow> bool" where
  new: "cache_reachable (NewCache ttl interval cleanupAfter)"
| step: "cache_reachable c \<Longrightarrow> cache_step ev c = Some (Inr c') \<Longrightarrow> cache_reachable c'"

section \<open>Typed access\<close>

datatype cached = CBytes string | CStrings "string list" | CMapStringStrings "(string, string list) gomap"

datatype 'e get_error = FetchError 'e | WrongType

definition GetBytes :: "'e + cached \<Rightarrow> 'e get_error + string" where
  "GetBytes r = (case r of Inl err \<Rightarrow> Inl (FetchError err) | Inr (CBytes b) \<Rightarrow> Inr b | Inr _ \<Rightarrow> Inl WrongType)"

definition GetStrings :: "'e + cached \<Rightarrow> 'e get_error + string list" where
  "GetStrings r = (case r of Inl err \<Rightarrow> Inl (FetchError err) | Inr (CStrings s) \<Rightarrow> Inr s | Inr _ \<Rightarrow> Inl WrongType)"

definition GetMapStringStrings :: "'e + cached \<Rightarrow> 'e get_error + (string, string list) gomap" where
  "GetMapStringStrings r =
     (case r of Inl err \<Rightarrow> Inl (FetchError err) | Inr (CMapStringStrings m) \<Rightarrow> Inr m | Inr _ \<Rightarrow> Inl WrongType)"

section \<open>Invariant\<close>

text \<open>
  An item is ready or exactly one goroutine is going to close it; what an item holds some fetch of
  its key returned; an item of the store that is ready does not hold an error.
\<close>

definition item_ok :: "('v, 'e) TTLCache \<Rightarrow> nat \<Rightarrow> bool" where
  "item_ok c i \<longleftrightarrow> (let item = c_items c ! i in
     (it_ready item \<longrightarrow> i \<notin> set (c_fetching c) \<and> i \<notin> set (c_updated c) \<and> it_result item \<noteq> None) \<and>
     (\<not> it_ready item \<longrightarrow> (i \<in> set (c_fetching c)) \<noteq> (i \<in> set (c_updated c))) \<and>
     (i \<in> set (c_fetching c) \<longrightarrow> it_result item = None) \<and>
     (i \<in> set (c_updated c) \<longrightarrow> (\<exists>v. it_result item = Some (Inr v))) \<and>
     (\<forall>r. it_result item = Some r \<longrightarrow> (it_key item, r) \<in> set (c_log c)) \<and>
     (\<forall>key. map_of (c_store c) key = Some i \<longrightarrow> it_key item = key \<and> (\<forall>err. it_result item \<noteq> Some (Inl err))))"

definition cache_inv :: "('v, 'e) TTLCache \<Rightarrow> bool" where
  "cache_inv c \<longleftrightarrow> go_map (c_store c) \<and> distinct (c_fetching c) \<and> distinct (c_updated c) \<and>
     set (c_fetching c) \<union> set (c_updated c) \<union> set (c_waiting c) \<union> ran (map_of (c_store c)) \<subseteq> {..<length (c_items c)} \<and>
     (\<forall>i<length (c_items c). item_ok c i)"

lemma cache_invD:
  assumes "cache_inv c"
  shows "go_map (c_store c)" "distinct (c_fetching c)" "distinct (c_updated c)"
    "i \<in> set (c_fetching c) \<Longrightarrow> i < length (c_items c)" "i \<in> set (c_updated c) \<Longrightarrow> i < length (c_items c)"
    "i \<in> set (c_waiting c) \<Longrightarrow> i < length (c_items c)" "map_of (c_store c) k = Some i \<Longrightarrow> i < length (c_items c)"
    "i < length (c_items c) \<Longrightarrow> item_ok c i"
  using assms unfolding cache_inv_def by (auto simp: ran_def)

lemma NewCache_inv: "cache_inv (NewCache ttl interval cleanupAfter)"
  by (simp add: cache_inv_def NewCache_def)

text \<open>Adding an item, with a goroutine that will close it.\<close>

lemma add_item_inv:
  assumes inv: "cache_inv c" and i: "i = length (c_items c)"
    and it: "\<not> it_ready item" "it_key item = key" "\<forall>r. it_result item = Some r \<longrightarrow> (key, r) \<in> set (c_log c)"
    and fu: "(fs = [i] \<and> us = [] \<and> it_result item = None) \<or> (fs = [] \<and> us = [i] \<and> (\<exists>v. it_result item = Some (Inr v)))"
    and w: "set ws \<subseteq> {i}"
  shows "cache_inv (c\<lparr>c_items := c_items c @ [item], c_store := AList.update key i (c_store c),
    c_fetching := c_fetching c @ fs, c_updated := c_updated c @ us, c_waiting := c_waiting c @ ws\<rparr>)"
    (is "cache_inv ?c")
proof -
  have lt: "i \<notin> set (c_fetching c)" "i \<notin> set (c_updated c)" "map_of (c_store c) k \<noteq> Some i" for k
    using cache_invD(4,5,7) [OF inv] i by blast+
  have old: "item_ok ?c j" if "j < length (c_items c)" for j
  proof -
    have "j \<noteq> i" using that i by simp
    then show ?thesis
      using cache_invD(8) [OF inv that] fu that by (auto simp: item_ok_def Let_def nth_append)
  qed
  have new: "item_ok ?c i"
    using it fu lt i by (auto simp: item_ok_def Let_def nth_append)
  have "item_ok ?c j" if "j < length (c_items ?c)" for j
    using old new that i by (cases "j = i") auto
  moreover have "set (c_fetching ?c) \<union> set (c_updated ?c) \<union> set (c_waiting ?c) \<union> ran (map_of (c_store ?c))
      \<subseteq> {..<length (c_items ?c)}"
    using cache_invD(4-7) [OF inv] fu w i by (auto simp: ran_def less_Suc_eq split: if_splits)
  ultimately show ?thesis
    using cache_invD(1-3) [OF inv] fu lt unfolding cache_inv_def by auto
qed

text \<open>An item whose only goroutine closes it.\<close>

lemma close_item_inv:
  assumes inv: "cache_inv c" and i: "i < length (c_items c)"
    and fu: "(i \<in> set (c_fetching c) \<and> fs = remove1 i (c_fetching c) \<and> us = c_updated c \<and> res = Some result \<and>
        lg = c_log c @ [(it_key (c_items c ! i), result)] \<and>
        st = (case result of Inl err \<Rightarrow> AList.delete (it_key (c_items c ! i)) (c_store c) | Inr v \<Rightarrow> c_store c)) \<or>
      (i \<in> set (c_updated c) \<and> fs = c_fetching c \<and> us = remove1 i (c_updated c) \<and>
        res = it_result (c_items c ! i) \<and> lg = c_log c \<and> st = c_store c)"
  shows "\<not> it_ready (c_items c ! i) \<and> cache_inv (c\<lparr>c_items := (c_items c)[i :=
      (c_items c ! i)\<lparr>it_result := res, it_ready := True\<rparr>],
    c_store := st, c_fetching := fs, c_updated := us, c_log := lg\<rparr>)" (is "_ \<and> cache_inv ?c")
proof -
  have oki: "item_ok c i" by (rule cache_invD(8) [OF inv i])
  have nr: "\<not> it_ready (c_items c ! i)" using oki fu by (auto simp: item_ok_def Let_def)
  have sub: "map_of st k = Some j \<Longrightarrow> map_of (c_store c) k = Some j" for k j
    using fu by (cases result) (auto split: if_splits)
  have old: "item_ok ?c j" if j: "j < length (c_items c)" "j \<noteq> i" for j
  proof -
    have m: "j \<in> set fs \<longleftrightarrow> j \<in> set (c_fetching c)" "j \<in> set us \<longleftrightarrow> j \<in> set (c_updated c)"
      "p \<in> set (c_log c) \<Longrightarrow> p \<in> set lg" for p
      using fu j(2) by auto
    have it: "c_items ?c ! j = c_items c ! j" using j(2) by simp
    have st: "c_store ?c = st" "c_fetching ?c = fs" "c_updated ?c = us" "c_log ?c = lg" by simp_all
    show ?thesis
      using cache_invD(8) [OF inv j(1)] m sub unfolding item_ok_def Let_def it st by blast
  qed
  have excl: "i \<notin> set fs" "i \<notin> set us"
    using fu oki nr cache_invD(2,3) [OF inv] by (auto simp: item_ok_def Let_def)
  have err: "map_of st k = Some i \<Longrightarrow> res \<noteq> Some (Inl e)" for k e
  proof
    assume a: "map_of st k = Some i" "res = Some (Inl e)"
    have k: "it_key (c_items c ! i) = k" "it_result (c_items c ! i) \<noteq> Some (Inl e)"
      using oki sub [OF a(1)] unfolding item_ok_def Let_def by blast+
    with fu a(2) have "result = Inl e \<and> st = AList.delete k (c_store c)" by auto
    then show False using a(1) by simp
  qed
  have res: "res \<noteq> None" "\<forall>r. res = Some r \<longrightarrow> (it_key (c_items c ! i), r) \<in> set lg"
    using fu oki unfolding item_ok_def Let_def by auto
  have key: "map_of st k = Some i \<Longrightarrow> it_key (c_items c ! i) = k" for k
    using oki sub unfolding item_ok_def Let_def by blast
  have new: "item_ok ?c i"
    using i by (simp add: item_ok_def Let_def excl res(1) [unfolded not_None_eq] res(2) err key)
  have "item_ok ?c j" if "j < length (c_items ?c)" for j
    using old new that by (cases "j = i") auto
  moreover have "set fs \<subseteq> set (c_fetching c)" "set us \<subseteq> set (c_updated c)"
    using fu set_remove1_subset by fastforce+
  then have "set (c_fetching ?c) \<union> set (c_updated ?c) \<union> set (c_waiting ?c) \<union> ran (map_of (c_store ?c))
      \<subseteq> {..<length (c_items ?c)}"
    using cache_invD(4-7) [OF inv] by (auto simp: ran_def dest!: sub)
  moreover have "go_map st" "distinct fs" "distinct us"
    using fu cache_invD(1-3) [OF inv] by (cases result; auto)+
  ultimately show ?thesis using nr unfolding cache_inv_def by auto
qed

text \<open>Removing keys from the store, or forgetting a call that waits, keeps everything.\<close>

lemma shrink_inv:
  assumes inv: "cache_inv c" and "go_map st" and "\<And>k i. map_of st k = Some i \<Longrightarrow> map_of (c_store c) k = Some i"
    and "set ws \<subseteq> set (c_waiting c)"
  shows "cache_inv (c\<lparr>c_store := st, c_waiting := ws, c_refreshing := rs, c_stale := sl, c_ttl := t,
    c_interval := n, c_cleanupAfter := a\<rparr>)" (is "cache_inv ?c")
proof -
  have "item_ok ?c i" if "i < length (c_items c)" for i
    using cache_invD(8) [OF inv that] by (auto simp: item_ok_def Let_def dest!: assms(3))
  then show ?thesis
    using cache_invD(2-7) [OF inv] assms(2,4) unfolding cache_inv_def
    by (auto simp: ran_def dest!: assms(3))
qed

lemma fold_delete_map: "go_map m \<Longrightarrow> go_map (fold AList.delete ks m)"
  by (induction ks arbitrary: m) auto

lemma fold_delete_sub: "map_of (fold AList.delete ks m) k = Some v \<Longrightarrow> map_of m k = Some v"
proof (induction ks arbitrary: m)
  case (Cons a ks)
  have "map_of (fold AList.delete ks (AList.delete a m)) k = Some v" using Cons.prems by simp
  from Cons.IH [OF this] show ?case by (simp split: if_splits)
qed simp

lemma log_inv:
  assumes "cache_inv c"
  shows "cache_inv (c\<lparr>c_refreshing := rs, c_log := c_log c @ l\<rparr>)" (is "cache_inv ?c")
proof -
  have "item_ok ?c i" if "i < length (c_items c)" for i
    using cache_invD(8) [OF assms that] by (auto simp: item_ok_def Let_def)
  then show ?thesis using cache_invD(1-7) [OF assms] unfolding cache_inv_def by (auto simp: ran_def)
qed

lemma get_begin_inv:
  assumes inv: "cache_inv c"
  shows "cache_inv (get_begin key now c)"
proof (cases "map_of (c_store c) key")
  case None
  let ?item = "\<lparr>it_key = key, it_expires = now + c_ttl c, it_result = None, it_ready = False\<rparr>"
  show ?thesis
    using add_item_inv [OF inv refl, of ?item key "[length (c_items c)]" "[]" "[length (c_items c)]"] None
    by (simp add: get_begin_def Let_def)
next
  case (Some i)
  have "item_ok (c\<lparr>c_waiting := c_waiting c @ [i]\<rparr>) j" if "j < length (c_items c)" for j
    using cache_invD(8) [OF inv that] by (simp add: item_ok_def)
  then show ?thesis
    using cache_invD(1-7) [OF inv] Some unfolding cache_inv_def get_begin_def by (auto simp: ran_def)
qed

lemma refresh_done_inv:
  assumes inv: "cache_inv c"
  shows "cache_inv (refresh_done key result now c)"
proof (cases result)
  case (Inl err)
  then show ?thesis using log_inv [OF inv] by (simp add: refresh_done_def Let_def)
next
  case (Inr v)
  let ?c = "c\<lparr>c_refreshing := remove1 key (c_refreshing c), c_log := c_log c @ [(key, result)]\<rparr>"
  let ?item = "\<lparr>it_key = key, it_expires = now + c_ttl c, it_result = Some result, it_ready = False\<rparr>"
  have "cache_inv ?c" by (rule log_inv [OF inv])
  from add_item_inv [OF this refl, of ?item key "[]" "[length (c_items c)]" "[]"]
  show ?thesis using Inr by (simp add: refresh_done_def Let_def)
qed

lemma fetch_done_inv:
  assumes inv: "cache_inv c" and i: "i \<in> set (c_fetching c)"
  shows "\<exists>c'. fetch_done i result c = Inr c' \<and> cache_inv c' \<and> it_ready (c_items c' ! i)"
proof -
  have lt: "i < length (c_items c)" by (rule cache_invD(4) [OF inv i])
  let ?st = "case result of Inl err \<Rightarrow> AList.delete (it_key (c_items c ! i)) (c_store c) | Inr v \<Rightarrow> c_store c"
  let ?c = "c\<lparr>c_items := (c_items c)[i := (c_items c ! i)\<lparr>it_result := Some result, it_ready := True\<rparr>],
    c_store := ?st, c_fetching := remove1 i (c_fetching c), c_updated := c_updated c,
    c_log := c_log c @ [(it_key (c_items c ! i), result)]\<rparr>"
  have "\<not> it_ready (c_items c ! i) \<and> cache_inv ?c" by (rule close_item_inv [OF inv lt]) (use i in blast)
  moreover from this have "fetch_done i result c = Inr ?c"
    using lt by (cases result) (simp_all add: fetch_done_def close_ready_def Let_def)
  ultimately show ?thesis using lt by auto
qed

lemma refresh_close_inv:
  assumes inv: "cache_inv c" and i: "i \<in> set (c_updated c)"
  shows "\<exists>c'. refresh_close i c = Inr c' \<and> cache_inv c' \<and> it_ready (c_items c' ! i)"
proof -
  have lt: "i < length (c_items c)" by (rule cache_invD(5) [OF inv i])
  let ?c = "c\<lparr>c_items := (c_items c)[i := (c_items c ! i)\<lparr>it_result := it_result (c_items c ! i), it_ready := True\<rparr>],
    c_store := c_store c, c_fetching := c_fetching c, c_updated := remove1 i (c_updated c), c_log := c_log c\<rparr>"
  have "\<not> it_ready (c_items c ! i) \<and> cache_inv ?c" by (rule close_item_inv [OF inv lt]) (use i in blast)
  moreover from this have "refresh_close i c = Inr ?c"
    by (simp add: refresh_close_def close_ready_def)
  ultimately show ?thesis using lt by auto
qed

lemma shrink_store_inv:
  assumes "cache_inv c" and "go_map st" and "\<And>k i. map_of st k = Some i \<Longrightarrow> map_of (c_store c) k = Some i"
  shows "cache_inv (c\<lparr>c_store := st, c_stale := sl\<rparr>)"
  using shrink_inv [OF assms, where ws = "c_waiting c" and rs = "c_refreshing c" and sl = sl and
    t = "c_ttl c" and n = "c_interval c" and a = "c_cleanupAfter c"] by simp

lemma get_return_inv:
  assumes "cache_inv c"
  shows "cache_inv (fst (get_return i now c))"
proof -
  have "cache_inv (c\<lparr>c_store := c_store c, c_waiting := remove1 i (c_waiting c), c_refreshing := rs,
    c_stale := c_stale c, c_ttl := c_ttl c, c_interval := c_interval c, c_cleanupAfter := c_cleanupAfter c\<rparr>)" for rs
    by (rule shrink_inv [OF assms cache_invD(1) [OF assms]]) (simp_all add: set_remove1_subset)
  from this [of "c_refreshing c"] this [of "c_refreshing c @ [it_key (c_items c ! i)]"]
  show ?thesis by (simp add: get_return_def Let_def)
qed

text \<open>No action of any goroutine panics, and every one keeps the invariant.\<close>

lemma cache_step_inv:
  assumes inv: "cache_inv c" and st: "cache_step ev c = Some r"
  shows "\<exists>c'. r = Inr c' \<and> cache_inv c'"
proof (cases ev)
  case (Begin key now)
  then show ?thesis using st get_begin_inv [OF inv] by (auto simp: cache_step_def)
next
  case (FetchDone i result)
  then show ?thesis
    using st fetch_done_inv [OF inv] by (fastforce simp: cache_step_def split: if_splits)
next
  case (Return i now)
  then show ?thesis using st get_return_inv [OF inv] by (auto simp: cache_step_def split: if_splits)
next
  case (RefreshDone key result now)
  then show ?thesis using st refresh_done_inv [OF inv] by (auto simp: cache_step_def split: if_splits)
next
  case (RefreshClose i)
  then show ?thesis
    using st refresh_close_inv [OF inv] by (fastforce simp: cache_step_def split: if_splits)
next
  case (Del key)
  have "cache_inv (c\<lparr>c_store := AList.delete key (c_store c), c_stale := c_stale c\<rparr>)"
    by (rule shrink_store_inv [OF inv]) (use cache_invD(1) [OF inv] in \<open>auto split: if_splits\<close>)
  then show ?thesis using Del st by (auto simp: cache_step_def cache_Delete_def)
next
  case (Scan ord now)
  have "cache_inv (c\<lparr>c_store := c_store c, c_stale := sl\<rparr>)" for sl
    by (rule shrink_store_inv [OF inv]) (use cache_invD(1) [OF inv] in auto)
  then show ?thesis using Scan st by (auto simp: cache_step_def cleaner_scan_def)
next
  case Clean
  have "cache_inv (c\<lparr>c_store := fold AList.delete (c_stale c) (c_store c), c_stale := []\<rparr>)"
    by (rule shrink_store_inv [OF inv])
      (use cache_invD(1) [OF inv] fold_delete_map fold_delete_sub in auto)
  then show ?thesis using Clean st by (auto simp: cache_step_def cleaner_delete_def)
next
  case (Tune ttl interval cleanupAfter)
  have "cache_inv (c\<lparr>c_store := c_store c, c_waiting := c_waiting c, c_refreshing := c_refreshing c,
    c_stale := c_stale c, c_ttl := ttl, c_interval := interval, c_cleanupAfter := cleanupAfter\<rparr>)"
    by (rule shrink_inv [OF inv]) (use cache_invD(1) [OF inv] in auto)
  then show ?thesis using Tune st by (auto simp: cache_step_def TuneCache_def)
qed

interpretation cache_run: panicking_steps "\<lambda>c r. \<exists>ev. cache_step ev c = Some r" cache_inv "\<lambda>p. False"
  by unfold_locales (use cache_step_inv in blast)

lemma cache_reachable_inv: "cache_reachable c \<Longrightarrow> cache_inv c"
  by (induction rule: cache_reachable.induct) (blast intro: NewCache_inv cache_run.calm.step_inv)+

lemma served_logged:
  assumes "cache_reachable c" and "i \<in> set (c_waiting c)" and "it_ready (c_items c ! i)"
  shows "\<exists>r. snd (get_return i now c) = Some r \<and> (it_key (c_items c ! i), r) \<in> set (c_log c)"
  using cache_invD(8) [OF cache_reachable_inv [OF assms(1)] cache_invD(6) [OF cache_reachable_inv [OF assms(1)] assms(2)]] assms(3)
  by (auto simp: item_ok_def Let_def get_return_def)

text \<open>Only the ends of fetches enter the log.\<close>

lemma cache_step_log:
  assumes "cache_step ev c = Some (Inr c')" and "(key, r) \<in> set (c_log c')"
  shows "(key, r) \<in> set (c_log c) \<or> (\<exists>i. ev = FetchDone i r \<and> key = it_key (c_items c ! i)) \<or>
    (\<exists>now. ev = RefreshDone key r now)"
  using assms
  by (cases ev) (auto simp: cache_step_def get_begin_def fetch_done_def close_ready_def get_return_def refresh_done_def
      refresh_close_def cache_Delete_def cleaner_scan_def cleaner_delete_def TuneCache_def Let_def
      split: if_splits option.splits sum.splits)

section \<open>Properties\<close>

text \<open>
  C14. However the calls, the refreshes, the cleaner and \<open>Delete\<close> interleave, a call that returns
  gives a result that a fetch of its own key produced; and a failure is never kept: no item that the
  next call would find is a finished one with an error.
\<close>

theorem cache_serves_fetched:
  assumes "cache_reachable c"
  shows "(\<forall>i. i \<notin> set (c_waiting c) \<or> \<not> it_ready (c_items c ! i) \<or>
      (\<exists>r. snd (get_return i now c) = Some r \<and> (it_key (c_items c ! i), r) \<in> set (c_log c))) \<and>
    (\<forall>key i err. map_of (c_store c) key = Some i \<longrightarrow>
      it_key (c_items c ! i) = key \<and> it_result (c_items c ! i) \<noteq> Some (Inl err))"
proof -
  note inv = cache_reachable_inv [OF assms]
  have "\<exists>r. snd (get_return i now c) = Some r \<and> (it_key (c_items c ! i), r) \<in> set (c_log c)"
    if "i \<in> set (c_waiting c)" "it_ready (c_items c ! i)" for i by (rule served_logged [OF assms that])
  moreover have "it_key (c_items c ! i) = key \<and> it_result (c_items c ! i) \<noteq> Some (Inl err)"
    if "map_of (c_store c) key = Some i" for key i err
    using cache_invD(8) [OF inv cache_invD(7) [OF inv that]] that by (auto simp: item_ok_def Let_def)
  ultimately show ?thesis by blast
qed

definition sample_cache :: "(string, string) TTLCache" where
  "sample_cache = get_begin ''k'' 0 (NewCache 10 10 100)"

lemma sample_cache_reachable: "cache_reachable sample_cache"
proof -
  have "cache_step (Begin ''k'' 0) (NewCache 10 10 100) = Some (Inr sample_cache)"
    by (simp add: cache_step_def sample_cache_def)
  then show ?thesis using cache_reachable.step [OF cache_reachable.new] by blast
qed

theorem cache_serves_fetched_witness:
  "map_of (c_store sample_cache) ''k'' = Some 0 \<and> it_key (c_items sample_cache ! 0) = ''k''"
proof -
  have "map_of (c_store sample_cache) ''k'' = Some 0"
    by (simp add: sample_cache_def get_begin_def NewCache_def Let_def)
  then show ?thesis using cache_serves_fetched [OF sample_cache_reachable] by blast
qed

text \<open>
  C15. No caller waits for ever: whatever happened before, an item a call waits for either is ready,
  or exactly one goroutine is about to make it ready, with whatever its fetch returns, an error
  included; no action that is possible panics.
\<close>

theorem cache_never_stuck:
  assumes "cache_reachable c" and "i \<in> set (c_waiting c)" and "\<not> it_ready (c_items c ! i)"
  shows "(i \<in> set (c_fetching c)) \<noteq> (i \<in> set (c_updated c)) \<and>
    (\<exists>ev c'. cache_step ev c = Some (Inr c') \<and> it_ready (c_items c' ! i)) \<and>
    (\<forall>ev p. cache_step ev c \<noteq> Some (Inl p))"
proof -
  note inv = cache_reachable_inv [OF assms(1)]
  have x: "(i \<in> set (c_fetching c)) \<noteq> (i \<in> set (c_updated c))"
    using cache_invD(8) [OF inv cache_invD(6) [OF inv assms(2)]] assms(3) by (auto simp: item_ok_def Let_def)
  have "\<exists>ev c'. cache_step ev c = Some (Inr c') \<and> it_ready (c_items c' ! i)"
  proof (cases "i \<in> set (c_fetching c)")
    case True
    then obtain c' where "fetch_done i undefined c = Inr c'" "it_ready (c_items c' ! i)"
      using fetch_done_inv [OF inv True] by blast
    then have "cache_step (FetchDone i undefined) c = Some (Inr c')" using True by (simp add: cache_step_def)
    then show ?thesis using \<open>it_ready (c_items c' ! i)\<close> by blast
  next
    case False
    then have u: "i \<in> set (c_updated c)" using x by blast
    then obtain c' where "refresh_close i c = Inr c'" "it_ready (c_items c' ! i)"
      using refresh_close_inv [OF inv u] by blast
    then have "cache_step (RefreshClose i) c = Some (Inr c')" using u by (simp add: cache_step_def)
    then show ?thesis using \<open>it_ready (c_items c' ! i)\<close> by blast
  qed
  moreover have "cache_step ev c \<noteq> Some (Inl p)" for ev p using cache_run.no_panic [OF inv] by blast
  ultimately show ?thesis using x by blast
qed

theorem cache_never_stuck_witness:
  "\<exists>ev c'. cache_step ev sample_cache = Some (Inr c') \<and> it_ready (c_items c' ! 0)"
  using cache_never_stuck [OF sample_cache_reachable, of 0]
  by (simp add: sample_cache_def get_begin_def NewCache_def Let_def)

end
