(* ===== verification/Discovery.thy ===== *)
theory Discovery
  imports Repository Hosts Cache GoJson
begin

text \<open>
  \<open>common/discovery.go\<close>: the registry of host fetchers and the five fetchers, each of which
  resolves the name of a group into hosts by data centre.

  The HTTP client, ZooKeeper, DNS, \<open>mapstructure.Decode\<close> and the JSON reader of bytes are
  arguments. The cache is what it answers: \<open>look gid key\<close> is \<open>None\<close> when the call runs the
  fetch function itself and \<open>Some\<close> of an outcome when the cache serves one (\<open>Cache\<close> proves
  that this is an outcome some earlier run of a fetch function gave for the key). Where the code
  returns an empty map beside \<open>ErrNoHosts\<close>, the model returns the error.
\<close>

section \<open>Errors and the outside world\<close>

datatype 'e fetch_error =
    MissingFormatSpecifier
  | NoHosts
  | Transport 'e
  | AnsweredWith int
  | BadJson
  | NotSpecified string
  | WrongCacheType

type_synonym 'e shared_cache = "(string \<Rightarrow> string \<Rightarrow> ('e fetch_error + cached) option) option"

datatype dns_rr = SRV string | OtherRR

record 'e network =
  HttpGet :: "int \<Rightarrow> string \<Rightarrow> 'e + int \<times> ('e + string)"
  JsonParse :: "string \<Rightarrow> json option"
  ZkConnect :: "string list \<Rightarrow> 'e option"
  ZkChildren :: "string list \<Rightarrow> string \<Rightarrow> 'e + string list"
  ClientExchange :: "int \<Rightarrow> string \<Rightarrow> string \<Rightarrow> 'e + dns_rr list"
  DnsExchange :: "string \<Rightarrow> string \<Rightarrow> 'e + dns_rr list"

definition from_cache :: "'e fetch_error get_error + 'a \<Rightarrow> 'e fetch_error + 'a" where
  "from_cache r = (case r of
     Inl (FetchError e) \<Rightarrow> Inl e
   | Inl WrongType \<Rightarrow> Inl WrongCacheType
   | Inr a \<Rightarrow> Inr a)"

definition through_cache :: "'e shared_cache \<Rightarrow> string \<Rightarrow> string \<Rightarrow> ('e fetch_error + cached) \<Rightarrow>
    'e fetch_error + cached" where
  "through_cache c gid key fetched =
     (case c of None \<Rightarrow> fetched
      | Some look \<Rightarrow> (case look gid key of Some r \<Rightarrow> r | None \<Rightarrow> fetched))"

text \<open>
  \<open>fmt.Sprintf\<close> with one string: verbs without flags or width. A verb that is neither \<open>%s\<close>,
  \<open>%v\<close> nor \<open>%%\<close> prints its complaint.
\<close>

fun Sprintf1 :: "string \<Rightarrow> string \<Rightarrow> bool \<Rightarrow> string" where
  "Sprintf1 [] arg used = (if used then [] else ''%!(EXTRA string='' @ arg @ '')'')"
| "Sprintf1 (c # cs) arg used =
     (if c \<noteq> CHR ''%'' then c # Sprintf1 cs arg used
      else case cs of
        [] \<Rightarrow> ''%!(NOVERB)'' @ Sprintf1 [] arg used
      | v # rest \<Rightarrow>
          if v = CHR ''%'' then CHR ''%'' # Sprintf1 rest arg used
          else if used then ''%!'' @ [v] @ ''(MISSING)'' @ Sprintf1 rest arg True
          else if v = CHR ''s'' \<or> v = CHR ''v'' then arg @ Sprintf1 rest arg True
          else ''%!'' @ [v] @ ''(string='' @ arg @ '')'' @ Sprintf1 rest arg True)"

definition Sprintf :: "string \<Rightarrow> string \<Rightarrow> string" where
  "Sprintf fmt arg = Sprintf1 fmt arg False"

text \<open>The closure both HTTP fetchers build: GET, a status other than 200 is an error, read the body.\<close>

definition http_fetch :: "'e network \<Rightarrow> int \<Rightarrow> string \<Rightarrow> 'e fetch_error + string" where
  "http_fetch net timeout url =
     (case HttpGet net timeout url of
        Inl err \<Rightarrow> Inl (Transport err)
      | Inr (status, body) \<Rightarrow>
          if status \<noteq> 200 then Inl (AnsweredWith status)
          else (case body of Inl err \<Rightarrow> Inl (Transport err) | Inr b \<Rightarrow> Inr b))"

section \<open>Predefined hosts\<close>

record PredefineFetcher =
  Clusters :: "(string, Hosts) gomap"

definition newPredefineFetcher :: "(PluginConfig \<Rightarrow> 'e + (string, Hosts) gomap) \<Rightarrow> PluginConfig \<Rightarrow>
    'e + PredefineFetcher" where
  "newPredefineFetcher decode config =
     (case decode config of Inl err \<Rightarrow> Inl err | Inr clusters \<Rightarrow> Inr \<lparr>Clusters = clusters\<rparr>)"

definition Predefine_Fetch :: "PredefineFetcher \<Rightarrow> string \<Rightarrow> 'e fetch_error + Hosts" where
  "Predefine_Fetch p groupname =
     (case map_of (Clusters p) groupname of
        None \<Rightarrow> Inl (NotSpecified groupname)
      | Some hostList \<Rightarrow> Inr hostList)"

section \<open>Hosts over HTTP\<close>

record 'e SimpleFetcher =
  sf_cache :: "'e shared_cache"
  Separator :: string
  sf_Format :: string
  sf_ReadTimeout :: int
  Options :: "(string, string) gomap option"
  sf_BasicURL :: string

definition default_option :: "string \<Rightarrow> string \<Rightarrow> (string, string) gomap \<Rightarrow> (string, string) gomap" where
  "default_option k v m = (if map_of m k = None then AList.update k v m else m)"

definition newHTTPFetcher :: "(PluginConfig \<Rightarrow> 'd + 'e SimpleFetcher) \<Rightarrow> PluginConfig \<Rightarrow> 'd + 'e SimpleFetcher" where
  "newHTTPFetcher decode config =
     (case decode config of
        Inl err \<Rightarrow> Inl err
      | Inr fetcher \<Rightarrow>
          let fetcher = (if Separator fetcher = [] then fetcher\<lparr>Separator := [CHR 0x09]\<rparr> else fetcher);
              fetcher = (if sf_ReadTimeout fetcher \<le> 0 then fetcher\<lparr>sf_ReadTimeout := 10\<rparr> else fetcher);
              options = (case Options fetcher of None \<Rightarrow> [] | Some m \<Rightarrow> m);
              options = default_option ''fqdn_key_name'' ''fqdn'' options;
              options = default_option ''dc_key_name'' ''root_datacenter_name'' options
          in Inr (fetcher\<lparr>Options := Some options\<rparr>))"

definition add_host :: "string \<Rightarrow> string \<Rightarrow> Hosts \<Rightarrow> Hosts" where
  "add_host dc host parsed = AList.update dc (lookup_zero [] parsed dc @ [host]) parsed"

definition tsv_line :: "string \<Rightarrow> string \<Rightarrow> Hosts \<Rightarrow> Hosts" where
  "tsv_line sep line parsed =
     (case Split line sep of
        [dc, host] \<Rightarrow> add_host (if dc = [] then ''NoDC'' else dc) host parsed
      | _ \<Rightarrow> parsed)"

definition parseTSV :: "'e SimpleFetcher \<Rightarrow> string \<Rightarrow> 'e fetch_error + Hosts" where
  "parseTSV s body =
     (let items = TrimSuffix body [CHR 0x0A];
          parsed = fold (tsv_line (Separator s)) (Split items [CHR 0x0A]) []
      in if length parsed = 0 then Inl NoHosts else Inr parsed)"

text \<open>Reading a missing key of a nil map gives the zero value.\<close>

definition option_name :: "'e SimpleFetcher \<Rightarrow> string \<Rightarrow> string" where
  "option_name s k = (case Options s of None \<Rightarrow> [] | Some m \<Rightarrow> lookup_zero [] m k)"

definition json_host :: "'e SimpleFetcher \<Rightarrow> (string, string) gomap \<Rightarrow> Hosts \<Rightarrow> Hosts" where
  "json_host s dcAndHost parsed =
     (case map_of dcAndHost (option_name s ''fqdn_key_name'') of
        None \<Rightarrow> parsed
      | Some fqdn \<Rightarrow>
          if fqdn = [] then parsed
          else (case map_of dcAndHost (option_name s ''dc_key_name'') of
              None \<Rightarrow> add_host ''NoDC'' fqdn parsed
            | Some dc \<Rightarrow> add_host (if dc = [] then ''NoDC'' else dc) fqdn parsed))"

text \<open>\<open>json.Unmarshal\<close> into a slice of maps; \<open>null\<close> gives no element, or a nil map.\<close>

definition decode_rows :: "json \<Rightarrow> json_error + (string, string) gomap list" where
  "decode_rows j =
     (case j of
        JArr xs \<Rightarrow> decode_all (decode_map decode_string) xs
      | JNull \<Rightarrow> Inr []
      | _ \<Rightarrow> Inl UnmarshalTypeError)"

definition parseJSON :: "'e network \<Rightarrow> 'e SimpleFetcher \<Rightarrow> string \<Rightarrow> 'e fetch_error + Hosts" where
  "parseJSON net s body =
     (case JsonParse net body of
        None \<Rightarrow> Inl BadJson
      | Some j \<Rightarrow> (case decode_rows j of
          Inl _ \<Rightarrow> Inl BadJson
        | Inr resp \<Rightarrow>
            let parsed = fold (json_host s) resp []
            in if length parsed = 0 then Inl NoHosts else Inr parsed))"

definition Simple_Fetch :: "'e network \<Rightarrow> 'e SimpleFetcher \<Rightarrow> string \<Rightarrow> 'e fetch_error + Hosts" where
  "Simple_Fetch net s groupname =
     (if \<not> Contains (sf_BasicURL s) ''%s'' then Inl MissingFormatSpecifier
      else
        let url = Sprintf (sf_BasicURL s) groupname in
        case from_cache (GetBytes (through_cache (sf_cache s) groupname url
               (map_sum (\<lambda>e. e) CBytes (http_fetch net (sf_ReadTimeout s) url)))) of
          Inl err \<Rightarrow> Inl err
        | Inr body \<Rightarrow> if sf_Format s = ''json'' then parseJSON net s body else parseTSV s body)"

section \<open>RTC groups\<close>

record 'e RTCFetcher =
  rtc_cache :: "'e shared_cache"
  rtc_ReadTimeout :: int
  Geo :: "string list"
  rtc_BasicURL :: string
  Delimiter :: string

definition newRTCFetcher :: "(PluginConfig \<Rightarrow> 'd + 'e RTCFetcher) \<Rightarrow> PluginConfig \<Rightarrow> 'd + 'e RTCFetcher" where
  "newRTCFetcher decode config =
     (case decode config of
        Inl err \<Rightarrow> Inl err
      | Inr fetcher \<Rightarrow>
          let fetcher = (if Delimiter fetcher = [] then fetcher\<lparr>Delimiter := ''_''\<rparr> else fetcher);
              fetcher = (if rtc_ReadTimeout fetcher \<le> 0 then fetcher\<lparr>rtc_ReadTimeout := 10\<rparr> else fetcher)
          in Inr fetcher)"

text \<open>
  The response: members other than \<open>result\<close> and \<open>container_hostname\<close> are skipped, a later
  one replaces an earlier one, \<open>null\<close> leaves the zero value.
\<close>

fun set_hostname :: "(string \<times> json) list \<Rightarrow> string \<Rightarrow> json_error + string" where
  "set_hostname [] hostname = Inr hostname"
| "set_hostname ((k, v) # kvs) hostname =
     (if json_key_matches ''container_hostname'' k then
        (case v of
           JStr s \<Rightarrow> set_hostname kvs s
         | JNull \<Rightarrow> set_hostname kvs hostname
         | _ \<Rightarrow> Inl UnmarshalTypeError)
      else set_hostname kvs hostname)"

fun rtcItem :: "json \<Rightarrow> json_error + string" where
  "rtcItem (JObj kvs) = set_hostname kvs []"
| "rtcItem JNull = Inr []"
| "rtcItem _ = Inl UnmarshalTypeError"

fun set_items :: "(string \<times> json) list \<Rightarrow> string list \<Rightarrow> json_error + string list" where
  "set_items [] items = Inr items"
| "set_items ((k, v) # kvs) items =
     (if json_key_matches ''result'' k then
        (case v of
           JArr xs \<Rightarrow> (case decode_all rtcItem xs of Inl e \<Rightarrow> Inl e | Inr ys \<Rightarrow> set_items kvs ys)
         | JNull \<Rightarrow> set_items kvs []
         | _ \<Rightarrow> Inl UnmarshalTypeError)
      else set_items kvs items)"

definition rtc_parseJSON :: "'e network \<Rightarrow> string \<Rightarrow> 'e fetch_error + string list" where
  "rtc_parseJSON net body =
     (case JsonParse net body of
        Some (JObj kvs) \<Rightarrow> (case set_items kvs [] of Inl _ \<Rightarrow> Inl BadJson | Inr hs \<Rightarrow> Inr hs)
      | Some JNull \<Rightarrow> Inr []
      | _ \<Rightarrow> Inl BadJson)"

text \<open>What one geo contributes: with an error of the fetch or of the parse, nothing.\<close>

definition rtc_geo :: "'e network \<Rightarrow> 'e RTCFetcher \<Rightarrow> string \<Rightarrow> string \<Rightarrow> string list" where
  "rtc_geo net s groupname geo =
     (let suffix = (if geo \<noteq> [] then Delimiter s @ geo else geo);
          urlGeo = Sprintf (rtc_BasicURL s) (groupname @ suffix)
      in case from_cache (GetBytes (through_cache (rtc_cache s) groupname urlGeo
               (map_sum (\<lambda>e. e) CBytes (http_fetch net (rtc_ReadTimeout s) urlGeo)))) of
           Inl err \<Rightarrow> []
         | Inr body \<Rightarrow> (case rtc_parseJSON net body of Inl _ \<Rightarrow> [] | Inr hostnames \<Rightarrow> hostnames))"

fun rtc_geos :: "'e network \<Rightarrow> 'e RTCFetcher \<Rightarrow> string \<Rightarrow> string list \<Rightarrow> Hosts \<Rightarrow> Hosts" where
  "rtc_geos net s groupname [] response = response"
| "rtc_geos net s groupname (geo # geos) response =
     (let hostnames = rtc_geo net s groupname geo in
      rtc_geos net s groupname geos
        (if length hostnames \<noteq> 0 then AList.update geo hostnames response else response))"

definition RTC_Fetch :: "'e network \<Rightarrow> 'e RTCFetcher \<Rightarrow> string \<Rightarrow> 'e fetch_error + Hosts" where
  "RTC_Fetch net s groupname =
     (if \<not> Contains (rtc_BasicURL s) ''%s'' then Inl MissingFormatSpecifier
      else
        let response = rtc_geos net s groupname (Geo s) []
        in if length response = 0 then Inl NoHosts else Inr response)"

section \<open>ZooKeeper\<close>

record 'e ZKFetcher =
  zk_cache :: "'e shared_cache"
  Servers :: "string list"
  StripPort :: bool

definition newZKFetcher :: "(PluginConfig \<Rightarrow> 'd + 'e ZKFetcher) \<Rightarrow> PluginConfig \<Rightarrow> 'd + 'e ZKFetcher" where
  "newZKFetcher decode config = decode config"

definition zk_list :: "'e network \<Rightarrow> string list \<Rightarrow> string \<Rightarrow> 'e fetch_error + string list" where
  "zk_list net servers path =
     (case ZkConnect net servers of
        Some err \<Rightarrow> Inl (Transport err)
      | None \<Rightarrow> (case ZkChildren net servers path of Inl err \<Rightarrow> Inl (Transport err) | Inr l \<Rightarrow> Inr l))"

definition strip_port :: "string \<Rightarrow> string" where
  "strip_port item = (case LastIndexByte item (CHR '':'') of None \<Rightarrow> item | Some i \<Rightarrow> take i item)"

text \<open>
  The list is stripped in place. With a cache it is the cached slice itself, so the second result,
  the slice after the call, is what the next call finds in the cache.
\<close>

definition ZK_Fetch :: "'e network \<Rightarrow> 'e ZKFetcher \<Rightarrow> string \<Rightarrow> ('e fetch_error + Hosts) \<times> string list option" where
  "ZK_Fetch net s path =
     (let url = ''zk://'' @ Join (Servers s) '','' @ ''/'' @ path in
      case from_cache (GetStrings (through_cache (zk_cache s) path url
             (map_sum (\<lambda>e. e) CStrings (zk_list net (Servers s) path)))) of
        Inl err \<Rightarrow> (Inl err, None)
      | Inr l \<Rightarrow>
          let l = (if StripPort s then map strip_port l else l)
          in (Inr [(''unk'', l)], Some l))"

section \<open>DNS discovery\<close>

record 'e QDNSFetcher =
  dns_cache :: "'e shared_cache"
  dns_Resolver :: string
  QueryTimeout :: int
  dns_timeout :: int

definition newQDNSFetcher :: "(PluginConfig \<Rightarrow> 'd + 'e QDNSFetcher) \<Rightarrow> PluginConfig \<Rightarrow> 'd + 'e QDNSFetcher" where
  "newQDNSFetcher decode config =
     (case decode config of
        Inl err \<Rightarrow> Inl err
      | Inr fetcher \<Rightarrow>
          let fetcher = (if dns_Resolver fetcher = [] then fetcher\<lparr>dns_Resolver := ''[::1]:53''\<rparr> else fetcher);
              fetcher = (if QueryTimeout fetcher = 0 then fetcher\<lparr>QueryTimeout := 10\<rparr> else fetcher)
          in Inr (fetcher\<lparr>dns_timeout := sint (word_of_int (QueryTimeout fetcher * 1000000000) :: 64 word)\<rparr>))"

definition dcIndex :: "char \<Rightarrow> bool" where
  "dcIndex ch =
     (let c = (of_char ch :: nat); c = (if c < 0x61 then c + 0x20 else c)
      in c < 97 \<or> c > 122)"

fun srv_targets :: "dns_rr list \<Rightarrow> string list" where
  "srv_targets [] = []"
| "srv_targets (SRV t # rs) = t # srv_targets rs"
| "srv_targets (OtherRR # rs) = srv_targets rs"

definition target_dc :: "string \<Rightarrow> string" where
  "target_dc target =
     (case IndexFunc target dcIndex of
        Some dcIdx \<Rightarrow> if dcIdx > 0 then take dcIdx target else ''NoDC''
      | None \<Rightarrow> ''NoDC'')"

fun discover :: "'e network \<Rightarrow> string \<Rightarrow> string list \<Rightarrow> Hosts \<Rightarrow> gopanic + Hosts" where
  "discover net server [] discovered = Inr discovered"
| "discover net server (t # ts) discovered =
     (case DnsExchange net (''_host_.'' @ t) server of
        Inl err \<Rightarrow> discover net server ts discovered
      | Inr [] \<Rightarrow> Inl IndexOutOfRange
      | Inr (SRV target # _) \<Rightarrow> discover net server ts (add_host (target_dc target) (TrimRight t ''.'') discovered)
      | Inr (OtherRR # _) \<Rightarrow> discover net server ts discovered)"

definition qdns_lookup :: "'e network \<Rightarrow> 'e QDNSFetcher \<Rightarrow> string \<Rightarrow> gopanic + ('e fetch_error + Hosts)" where
  "qdns_lookup net d entity =
     (case ClientExchange net (dns_timeout d) entity (dns_Resolver d) of
        Inl err \<Rightarrow> Inr (Inl (Transport err))
      | Inr answer \<Rightarrow>
          bind_sum (discover net (dns_Resolver d) (srv_targets answer) []) (\<lambda>discovered.
            if length discovered = 0 then Inr (Inl NoHosts) else Inr (Inr discovered)))"

definition QDNS_Fetch :: "'e network \<Rightarrow> 'e QDNSFetcher \<Rightarrow> string \<Rightarrow> gopanic + ('e fetch_error + Hosts)" where
  "QDNS_Fetch net d entity =
     (let entity = (if \<not> HasSuffix entity ''.'' then entity @ ''.'' else entity) in
      case (case dns_cache d of None \<Rightarrow> None | Some look \<Rightarrow> look entity entity) of
        Some r \<Rightarrow> Inr (from_cache (GetMapStringStrings r))
      | None \<Rightarrow> qdns_lookup net d entity)"

section \<open>The registry\<close>

datatype 'e HostFetcher =
    Predefine PredefineFetcher
  | Simple "'e SimpleFetcher"
  | RTC "'e RTCFetcher"
  | ZK "'e ZKFetcher"
  | QDNS "'e QDNSFetcher"

type_synonym ('d, 'e) FetcherLoader = "PluginConfig \<Rightarrow> 'd + 'e HostFetcher"

datatype 'd load_error = AlreadyRegistered string | NotRegistered string | NoType plugin_error | LoaderError 'd

definition RegisterFetcherLoader :: "string \<Rightarrow> 'f \<Rightarrow> (string, 'f) gomap \<Rightarrow> (string, 'f) gomap \<times> 'd load_error option" where
  "RegisterFetcherLoader name f fetchers =
     (if map_of fetchers name \<noteq> None then (fetchers, Some (AlreadyRegistered name))
      else (AList.update name f fetchers, None))"

text \<open>The five decoders are \<open>mapstructure.Decode\<close> at the five types.\<close>

record ('d, 'e) mapstructure =
  dec_predefine :: "PluginConfig \<Rightarrow> 'd + (string, Hosts) gomap"
  dec_simple :: "PluginConfig \<Rightarrow> 'd + 'e SimpleFetcher"
  dec_rtc :: "PluginConfig \<Rightarrow> 'd + 'e RTCFetcher"
  dec_zk :: "PluginConfig \<Rightarrow> 'd + 'e ZKFetcher"
  dec_qdns :: "PluginConfig \<Rightarrow> 'd + 'e QDNSFetcher"

fun register_all :: "(string \<times> 'f) list \<Rightarrow> (string, 'f) gomap \<Rightarrow> 'd load_error + (string, 'f) gomap" where
  "register_all [] fetchers = Inr fetchers"
| "register_all ((name, f) # loaders) fetchers =
     (case RegisterFetcherLoader name f fetchers of
        (_, Some err) \<Rightarrow> Inl err
      | (fetchers, None) \<Rightarrow> register_all loaders fetchers)"

text \<open>\<open>init\<close>: an error of a registration is a panic, the left value.\<close>

definition discovery_init :: "('d, 'e) mapstructure \<Rightarrow> 'd load_error + (string, ('d, 'e) FetcherLoader) gomap" where
  "discovery_init dec =
     register_all
       [(''http'', map_sum (\<lambda>e. e) Simple \<circ> newHTTPFetcher (dec_simple dec)),
        (''predefine'', map_sum (\<lambda>e. e) Predefine \<circ> newPredefineFetcher (dec_predefine dec)),
        (''rtc'', map_sum (\<lambda>e. e) RTC \<circ> newRTCFetcher (dec_rtc dec)),
        (''zk'', map_sum (\<lambda>e. e) ZK \<circ> newZKFetcher (dec_zk dec)),
        (''qloud'', map_sum (\<lambda>e. e) QDNS \<circ> newQDNSFetcher (dec_qdns dec))] []"

definition LoadHostFetcher :: "(string, ('d, 'e) FetcherLoader) gomap \<Rightarrow> PluginConfig \<Rightarrow>
    'd load_error + 'e HostFetcher" where
  "LoadHostFetcher fetchers config =
     (case PluginConfig_Type config of
        Inl err \<Rightarrow> Inl (NoType err)
      | Inr name \<Rightarrow> (case map_of fetchers name of
          Some initializer \<Rightarrow> (case initializer config of Inl err \<Rightarrow> Inl (LoaderError err) | Inr f \<Rightarrow> Inr f)
        | None \<Rightarrow> Inl (NotRegistered name)))"

fun setCache :: "'e shared_cache \<Rightarrow> 'e HostFetcher \<Rightarrow> 'e HostFetcher" where
  "setCache c (Predefine p) = Predefine p"
| "setCache c (Simple s) = Simple (s\<lparr>sf_cache := c\<rparr>)"
| "setCache c (RTC s) = RTC (s\<lparr>rtc_cache := c\<rparr>)"
| "setCache c (ZK s) = ZK (s\<lparr>zk_cache := c\<rparr>)"
| "setCache c (QDNS d) = QDNS (d\<lparr>dns_cache := c\<rparr>)"

definition LoadHostFetcherWithCache :: "(string, ('d, 'e) FetcherLoader) gomap \<Rightarrow> PluginConfig \<Rightarrow>
    'e shared_cache \<Rightarrow> 'd load_error + 'e HostFetcher" where
  "LoadHostFetcherWithCache fetchers config c =
     (case PluginConfig_Type config of
        Inl err \<Rightarrow> Inl (NoType err)
      | Inr name \<Rightarrow> (case map_of fetchers name of
          Some initializer \<Rightarrow>
            (case initializer config of Inl err \<Rightarrow> Inl (LoaderError err) | Inr f \<Rightarrow> Inr (setCache c f))
        | None \<Rightarrow> Inl (NotRegistered name)))"

fun Fetch :: "'e network \<Rightarrow> 'e HostFetcher \<Rightarrow> string \<Rightarrow> gopanic + ('e fetch_error + Hosts)" where
  "Fetch net (Predefine p) g = Inr (Predefine_Fetch p g)"
| "Fetch net (Simple s) g = Inr (Simple_Fetch net s g)"
| "Fetch net (RTC s) g = Inr (RTC_Fetch net s g)"
| "Fetch net (ZK s) g = Inr (fst (ZK_Fetch net s g))"
| "Fetch net (QDNS d) g = QDNS_Fetch net d g"

section \<open>Grouping hosts\<close>

lemma lookup_add_host:
  "lookup_zero [] (add_host dc host m) dc' = (if dc' = dc then lookup_zero [] m dc @ [host] else lookup_zero [] m dc')"
  by (simp add: add_host_def)

lemma add_host_map: "go_map m \<Longrightarrow> go_map (add_host dc host m)"
  by (simp add: add_host_def)

lemma add_host_nonempty: "add_host dc host m \<noteq> []"
  by (cases m) (auto simp: add_host_def)

text \<open>A map of hosts in which no data centre is without a host.\<close>

definition full_hosts :: "Hosts \<Rightarrow> bool" where
  "full_hosts m \<longleftrightarrow> go_map m \<and> (\<forall>dc. map_of m dc \<noteq> Some [])"

lemma full_hosts_Nil [simp]: "full_hosts []"
  by (simp add: full_hosts_def)

lemma full_hosts_update: "full_hosts m \<Longrightarrow> hs \<noteq> [] \<Longrightarrow> full_hosts (AList.update dc hs m)"
  by (simp add: full_hosts_def)

lemma full_hosts_add: "full_hosts m \<Longrightarrow> full_hosts (add_host dc host m)"
  by (simp add: add_host_def full_hosts_update)

definition group_rows :: "(string \<times> string) list \<Rightarrow> Hosts \<Rightarrow> Hosts" where
  "group_rows rows m = fold (\<lambda>(dc, host). add_host (if dc = [] then ''NoDC'' else dc) host) rows m"

lemma group_rows_simps [simp]:
  "group_rows [] m = m"
  "group_rows ((dc, host) # rows) m = group_rows rows (add_host (if dc = [] then ''NoDC'' else dc) host m)"
  by (simp_all add: group_rows_def)

lemma group_rows_map: "go_map m \<Longrightarrow> go_map (group_rows rows m)"
  by (induction rows arbitrary: m) (auto simp: add_host_map)

lemma group_rows_nonempty: "rows \<noteq> [] \<or> m \<noteq> [] \<Longrightarrow> group_rows rows m \<noteq> []"
proof (induction rows arbitrary: m)
  case (Cons r rows)
  obtain dc host where r: "r = (dc, host)" by fastforce
  show ?case unfolding r group_rows_simps by (rule Cons.IH) (simp add: add_host_nonempty)
qed simp

lemma group_rows_lookup:
  "lookup_zero [] (group_rows rows m) dc =
    lookup_zero [] m dc @ map snd (filter (\<lambda>(d, h). (if d = [] then ''NoDC'' else d) = dc) rows)"
  by (induction rows arbitrary: m) (auto simp: lookup_add_host)


lemma full_hosts_tsv: "full_hosts m \<Longrightarrow> full_hosts (fold (tsv_line sep) ls m)"
  by (induction ls arbitrary: m) (auto simp: tsv_line_def full_hosts_add split: list.splits)

lemma full_hosts_json: "full_hosts m \<Longrightarrow> full_hosts (fold (json_host s) rs m)"
  by (induction rs arbitrary: m) (auto simp: json_host_def full_hosts_add split: option.split)

lemma parseTSV_full: "parseTSV s body = Inr m \<Longrightarrow> m \<noteq> [] \<and> full_hosts m"
  using full_hosts_tsv [of "[]"] by (auto simp: parseTSV_def Let_def split: if_splits)

lemma parseJSON_full: "parseJSON net s body = Inr m \<Longrightarrow> m \<noteq> [] \<and> full_hosts m"
  using full_hosts_json [of "[]"]
  by (auto simp: parseJSON_def Let_def split: if_splits option.splits sum.splits)

lemma Simple_Fetch_full: "Simple_Fetch net s g = Inr m \<Longrightarrow> m \<noteq> [] \<and> full_hosts m"
  by (auto simp: Simple_Fetch_def Let_def dest: parseTSV_full parseJSON_full split: if_splits sum.splits)

lemma rtc_geos_lookup:
  "map_of (rtc_geos net s g geos m) geo =
     (if geo \<in> set geos \<and> rtc_geo net s g geo \<noteq> [] then Some (rtc_geo net s g geo) else map_of m geo)"
  by (induction geos arbitrary: m) (auto simp: Let_def)

lemma rtc_geos_full: "full_hosts m \<Longrightarrow> full_hosts (rtc_geos net s g geos m)"
  by (induction geos arbitrary: m) (auto simp: Let_def full_hosts_update)

text \<open>A geo is in the response exactly when it gave hosts, and then with those.\<close>

lemma RTC_Fetch_lookup:
  "RTC_Fetch net s g = Inr m \<Longrightarrow>
     map_of m geo = (if geo \<in> set (Geo s) \<and> rtc_geo net s g geo \<noteq> [] then Some (rtc_geo net s g geo) else None)"
  by (auto simp: RTC_Fetch_def Let_def rtc_geos_lookup split: if_splits)

lemma RTC_Fetch_full: "RTC_Fetch net s g = Inr m \<Longrightarrow> m \<noteq> [] \<and> full_hosts m"
  using rtc_geos_full [of "[]"] by (auto simp: RTC_Fetch_def Let_def split: if_splits)

lemma discover_full: "full_hosts m \<Longrightarrow> discover net server ts m = Inr m' \<Longrightarrow> full_hosts m'"
  by (induction net server ts m rule: discover.induct)
    (auto simp: full_hosts_add split: sum.splits list.splits dns_rr.splits)

lemma qdns_lookup_full: "qdns_lookup net d entity = Inr (Inr m) \<Longrightarrow> m \<noteq> [] \<and> full_hosts m"
  by (auto simp: qdns_lookup_def bind_sum_Inr_iff split: sum.splits if_splits dest: discover_full [rotated])

text \<open>
  The cache of the fetchers. \<open>fetch_gives\<close>: what one of their fetch functions returns for a key, on any network;
  \<open>fetchers_cache\<close>: the states of the cache of the theory \<open>Cache\<close> when only they use it, as \<open>combainerCache\<close> is.
  \<open>cache_answers\<close>: every answer of \<open>look\<close> is what a call of \<open>get\<close> for its key returns in such a state.
\<close>

definition fetch_gives :: "string \<Rightarrow> 'e fetch_error + cached \<Rightarrow> bool" where
  "fetch_gives key r \<longleftrightarrow>
     (\<exists>net t url. r = map_sum (\<lambda>e. e) CBytes (http_fetch net t url)) \<or>
     (\<exists>net servers path. r = map_sum (\<lambda>e. e) CStrings (zk_list net servers path)) \<or>
     (\<exists>net d x. qdns_lookup net d key = Inr x \<and> r = map_sum (\<lambda>e. e) CMapStringStrings x)"

inductive fetchers_cache :: "(cached, 'e fetch_error) TTLCache \<Rightarrow> bool" where
  new: "fetchers_cache (NewCache ttl interval cleanupAfter)"
| step: "fetchers_cache c \<Longrightarrow> cache_step ev c = Some (Inr c') \<Longrightarrow>
    (\<And>i r. ev = FetchDone i r \<Longrightarrow> fetch_gives (it_key (c_items c ! i)) r) \<Longrightarrow>
    (\<And>key r now. ev = RefreshDone key r now \<Longrightarrow> fetch_gives key r) \<Longrightarrow> fetchers_cache c'"

definition cache_answers :: "(string \<Rightarrow> string \<Rightarrow> ('e fetch_error + cached) option) \<Rightarrow> bool" where
  "cache_answers look \<longleftrightarrow> (\<forall>gid key r. look gid key = Some r \<longrightarrow>
     (\<exists>c i now. fetchers_cache c \<and> i \<in> set (c_waiting c) \<and> it_ready (c_items c ! i) \<and> it_key (c_items c ! i) = key \<and>
        snd (get_return i now c) = Some r))"

lemma fetchers_cache_log:
  "fetchers_cache c \<Longrightarrow> cache_reachable c \<and> (\<forall>(key, r)\<in>set (c_log c). fetch_gives key r)"
proof (induction rule: fetchers_cache.induct)
  case (new ttl interval cleanupAfter)
  show ?case using cache_reachable.new by (simp add: NewCache_def)
next
  case (step c ev c')
  have "fetch_gives key r" if "(key, r) \<in> set (c_log c')" for key r
    using cache_step_log [OF step.hyps(2) that] step.IH step.hyps(3,4) by blast
  then show ?case using step.IH cache_reachable.step [OF _ step.hyps(2)] by blast
qed

text \<open>So what it answers to a DNS fetcher, a lookup gave: the cache never makes up a map, nor takes one of another key.\<close>

lemma cache_answers_fetched:
  assumes "cache_answers look" and "look gid key = Some r"
  shows "fetch_gives key r"
proof -
  obtain c i now where c: "fetchers_cache c" "i \<in> set (c_waiting c)" "it_ready (c_items c ! i)"
    "it_key (c_items c ! i) = key" "snd (get_return i now c) = Some r"
    using assms unfolding cache_answers_def by blast
  then show ?thesis using served_logged [of c i now] fetchers_cache_log [OF c(1)] by auto
qed

lemma cached_lookup_full:
  assumes "fetch_gives key (Inr (CMapStringStrings m))"
  shows "m \<noteq> [] \<and> full_hosts m"
proof -
  have other: "map_sum (\<lambda>e. e) CBytes y \<noteq> Inr (CMapStringStrings m)" "map_sum (\<lambda>e. e) CStrings z \<noteq> Inr (CMapStringStrings m)"
    for y :: "'a fetch_error + string" and z :: "'a fetch_error + string list" by (cases y; simp) (cases z; simp)
  obtain net :: "'a network" and d x where "qdns_lookup net d key = Inr x" "Inr (CMapStringStrings m) = map_sum (\<lambda>e. e) CMapStringStrings x"
    using assms other unfolding fetch_gives_def by metis
  then have "qdns_lookup net d key = Inr (Inr m)" by (cases x) auto
  then show ?thesis by (rule qdns_lookup_full)
qed

lemma QDNS_Fetch_full:
  assumes "QDNS_Fetch net d g = Inr (Inr m)" and ok: "\<forall>look. dns_cache d = Some look \<longrightarrow> cache_answers look"
  shows "m \<noteq> [] \<and> full_hosts m"
proof -
  define e where "e = (if \<not> HasSuffix g ''.'' then g @ ''.'' else g)"
  define hit where "hit = (case dns_cache d of None \<Rightarrow> None | Some look \<Rightarrow> look e e)"
  have f: "(case hit of Some r \<Rightarrow> Inr (from_cache (GetMapStringStrings r)) | None \<Rightarrow> qdns_lookup net d e) = Inr (Inr m)"
    using assms(1) unfolding QDNS_Fetch_def Let_def hit_def e_def .
  show ?thesis
  proof (cases hit)
    case None
    then show ?thesis using f qdns_lookup_full by auto
  next
    case (Some r)
    then obtain look where look: "dns_cache d = Some look" "look e e = Some r"
      by (auto simp: hit_def split: option.splits)
    have "from_cache (GetMapStringStrings r) = Inr m" using f Some by simp
    then have "r = Inr (CMapStringStrings m)"
      by (cases r) (auto simp: from_cache_def GetMapStringStrings_def split: cached.splits)
    then show ?thesis using ok look cache_answers_fetched cached_lookup_full by blast
  qed
qed

text \<open>Rows of data centre and host, printed for the two formats of the HTTP fetcher.\<close>

definition clean_row :: "char \<Rightarrow> string \<times> string \<Rightarrow> bool" where
  "clean_row sep = (\<lambda>(dc, host). sep \<notin> set dc \<and> sep \<notin> set host \<and> CHR 0x0A \<notin> set dc \<and>
     CHR 0x0A \<notin> set host \<and> host \<noteq> [])"

definition tsv_rows :: "char \<Rightarrow> (string \<times> string) list \<Rightarrow> string" where
  "tsv_rows sep rows = Join (map (\<lambda>(dc, host). dc @ sep # host) rows) [CHR 0x0A]"

definition json_rows :: "string \<Rightarrow> string \<Rightarrow> (string \<times> string) list \<Rightarrow> json" where
  "json_rows fqdn dcname rows = JArr (map (\<lambda>(dc, host). JObj [(fqdn, JStr host), (dcname, JStr dc)]) rows)"

lemma tsv_line_row:
  "clean_row sep (dc, host) \<Longrightarrow>
    tsv_line [sep] (dc @ sep # host) m = add_host (if dc = [] then ''NoDC'' else dc) host m"
  by (simp add: clean_row_def tsv_line_def Split_char_append Split_char_notin)

lemma fold_tsv_rows:
  "\<forall>r\<in>set rows. clean_row sep r \<Longrightarrow>
    fold (tsv_line [sep]) (map (\<lambda>(dc, host). dc @ sep # host) rows) m = group_rows rows m"
  by (induction rows arbitrary: m) (auto simp: tsv_line_row)

lemma TrimSuffix_char: "TrimSuffix (s @ [c]) [c] = s" "s \<noteq> [] \<Longrightarrow> last s \<noteq> c \<Longrightarrow> TrimSuffix s [c] = s"
  by (auto simp: TrimSuffix_def HasSuffix_def suffix_def)

lemma parse_tsv_rows:
  assumes "rows \<noteq> []" "\<forall>r\<in>set rows. clean_row sep r" "sep \<noteq> CHR 0x0A" "Separator s = [sep]"
  shows "parseTSV s (tsv_rows sep rows) = Inr (group_rows rows [])"
    and "parseTSV s (tsv_rows sep rows @ [CHR 0x0A]) = Inr (group_rows rows [])"
proof -
  let ?ls = "map (\<lambda>(dc, host). dc @ sep # host) rows"
  have ls: "?ls \<noteq> []" "\<forall>x\<in>set ?ls. CHR 0x0A \<notin> set x" using assms(1-3) by (auto simp: clean_row_def)
  obtain dc host where l: "last rows = (dc, host)" "clean_row sep (dc, host)"
    using assms(1,2) by (metis last_in_set prod.collapse)
  have "last ?ls = dc @ sep # host" using assms(1) l(1) by (simp add: last_map)
  then have last: "tsv_rows sep rows \<noteq> [] \<and> last (tsv_rows sep rows) \<noteq> CHR 0x0A"
    using last_Join [OF ls(1), of "[CHR 0x0A]"] l(2) unfolding tsv_rows_def
    by (auto simp: clean_row_def dest: last_in_set)
  have "fold (tsv_line [sep]) (Split (tsv_rows sep rows) [CHR 0x0A]) [] = group_rows rows []"
    using Split_Join [OF ls] fold_tsv_rows [OF assms(2)] by (simp add: tsv_rows_def)
  moreover have "group_rows rows [] \<noteq> []" using assms(1) by (simp add: group_rows_nonempty)
  ultimately show "parseTSV s (tsv_rows sep rows) = Inr (group_rows rows [])"
    and "parseTSV s (tsv_rows sep rows @ [CHR 0x0A]) = Inr (group_rows rows [])"
    using last assms(4) by (simp_all add: parseTSV_def TrimSuffix_char)
qed

lemma decode_json_rows:
  "fqdn \<noteq> dcname \<Longrightarrow>
    decode_rows (json_rows fqdn dcname rows) = Inr (map (\<lambda>(dc, host). [(fqdn, host), (dcname, dc)]) rows)"
  unfolding decode_rows_def json_rows_def json.case
  by (induction rows) (auto simp: decode_map_def)

lemma fold_json_rows:
  assumes "option_name s ''fqdn_key_name'' = fqdn" "option_name s ''dc_key_name'' = dcname" "fqdn \<noteq> dcname"
  shows "\<forall>(dc, host)\<in>set rows. host \<noteq> [] \<Longrightarrow>
    fold (json_host s) (map (\<lambda>(dc, host). [(fqdn, host), (dcname, dc)]) rows) m = group_rows rows m"
  using assms by (induction rows arbitrary: m) (auto simp: json_host_def)

lemma parse_json_rows:
  assumes "rows \<noteq> []" "\<forall>(dc, host)\<in>set rows. host \<noteq> []"
    and "option_name s ''fqdn_key_name'' = fqdn" "option_name s ''dc_key_name'' = dcname" "fqdn \<noteq> dcname"
    and "JsonParse net body = Some (json_rows fqdn dcname rows)"
  shows "parseJSON net s body = Inr (group_rows rows [])"
proof -
  have "group_rows rows [] \<noteq> []" using assms(1) by (simp add: group_rows_nonempty)
  then show ?thesis
    using fold_json_rows [OF assms(3-5,2)] assms(5,6) by (simp add: parseJSON_def decode_json_rows)
qed

lemma strip_port_append: "CHR '':'' \<notin> set port \<Longrightarrow> strip_port (host @ CHR '':'' # port) = host"
  by (simp add: strip_port_def LastIndexByte_append)

lemma strip_port_none: "CHR '':'' \<notin> set item \<Longrightarrow> strip_port item = item"
  by (simp add: strip_port_def LastIndexByte_None [THEN iffD2])

lemma group_rows_hosts:
  "lookup_zero [] (group_rows rows []) dc = map snd (filter (\<lambda>(d, h). (if d = [] then ''NoDC'' else d) = dc) rows)"
  using group_rows_lookup [of rows "[]" dc] by (simp add: lookup_zero_def)

text \<open>What one target contributes to a DNS lookup.\<close>

definition srv_row :: "'e network \<Rightarrow> string \<Rightarrow> string \<Rightarrow> (string \<times> string) list" where
  "srv_row net server t =
     (case DnsExchange net (''_host_.'' @ t) server of
        Inr (SRV target # _) \<Rightarrow> [(target_dc target, TrimRight t ''.'')]
      | _ \<Rightarrow> [])"

lemma target_dc_nonempty: "target_dc target \<noteq> []"
  by (auto simp: target_dc_def dest: IndexFunc_Some split: option.splits if_splits)

lemma srv_row_named: "([], h) \<in> set (srv_row net server t) \<Longrightarrow> False"
  by (auto simp: srv_row_def target_dc_nonempty [symmetric] split: sum.splits list.splits dns_rr.splits)

lemma discover_rows:
  "\<forall>t\<in>set ts. DnsExchange net (''_host_.'' @ t) server \<noteq> Inr [] \<Longrightarrow>
    discover net server ts m = Inr (group_rows (concat (map (srv_row net server) ts)) m)"
proof (induction ts arbitrary: m)
  case (Cons t ts)
  then show ?case
    by (cases "DnsExchange net (''_host_.'' @ t) server")
      (auto simp: srv_row_def target_dc_nonempty split: list.split dns_rr.split)
qed simp

lemma discover_panics:
  "\<exists>t\<in>set ts. DnsExchange net (''_host_.'' @ t) server = Inr [] \<Longrightarrow>
    discover net server ts m = Inl IndexOutOfRange"
proof (induction ts arbitrary: m)
  case (Cons t ts)
  then show ?case by (auto split: sum.split list.split dns_rr.split)
qed simp

lemma colon_cases:
  obtains "CHR '':'' \<notin> set h" | a b where "h = a @ CHR '':'' # b" "CHR '':'' \<notin> set b"
  using split_list_last [of "CHR '':''" h] by blast

lemma strip_port_again: "strip_port (strip_port h) = strip_port h \<longleftrightarrow> count_list h (CHR '':'') \<le> 1"
proof (cases h rule: colon_cases)
  case 1
  then show ?thesis by (simp add: strip_port_none count_notin)
next
  case (2 a b)
  have h: "strip_port h = a" "count_list h (CHR '':'') = Suc (count_list a (CHR '':''))"
    using 2 by (simp_all add: strip_port_append count_notin)
  have "strip_port a = a \<longleftrightarrow> CHR '':'' \<notin> set a"
  proof (cases a rule: colon_cases)
    case (2 c d)
    then show ?thesis by (simp add: strip_port_append)
  qed (simp add: strip_port_none)
  then show ?thesis using h by (simp add: count_list_0_iff)
qed

text \<open>A small network on which the properties are evaluated.\<close>

definition sample_rows :: "(string \<times> string) list" where
  "sample_rows = [(''myt'', ''a1''), ([], ''b''), (''myt'', ''a2'')]"

definition sample_net :: "string network" where
  "sample_net = \<lparr>
     HttpGet = \<lambda>timeout url. if url = ''http://x/web'' then Inr (200, Inr (tsv_rows (CHR '';'') sample_rows))
       else Inr (404, Inr []),
     JsonParse = \<lambda>body. Some (json_rows ''fqdn'' ''dc'' sample_rows),
     ZkConnect = \<lambda>servers. None,
     ZkChildren = \<lambda>servers path. Inr [''h1:80''],
     ClientExchange = \<lambda>timeout entity server. Inr [SRV ''w1.'', OtherRR, SRV ''w2.''],
     DnsExchange = \<lambda>query server. if query = ''_host_.w1.'' then Inr [SRV ''vla1.net.''] else Inr [OtherRR]\<rparr>"

definition sample_simple :: "string SimpleFetcher" where
  "sample_simple = \<lparr>sf_cache = None, Separator = '';'', sf_Format = [], sf_ReadTimeout = 10,
     Options = Some [(''fqdn_key_name'', ''fqdn''), (''dc_key_name'', ''dc'')], sf_BasicURL = ''http://x/%s''\<rparr>"

definition sample_qdns :: "string QDNSFetcher" where
  "sample_qdns = \<lparr>dns_cache = None, dns_Resolver = ''r'', QueryTimeout = 10, dns_timeout = 10000000000\<rparr>"

section \<open>Properties\<close>

text \<open>
  C20. A fetcher over HTTP, RTC or DNS that succeeds gives at least one data centre and no data
  centre without a host; so a group that resolves adds at least one host to the session. (ZooKeeper
  and predefined groups may be empty.) The answers of the cache are those of a cache that the fetchers alone use,
  in any state its calls, refreshes and the cleaner may have brought it to.
\<close>

theorem fetched_hosts_nonempty:
  assumes "Fetch net f grp = Inr (Inr m)" and "\<forall>p. f \<noteq> Predefine p" and "\<forall>z. f \<noteq> ZK z"
    and "\<forall>d look. f = QDNS d \<and> dns_cache d = Some look \<longrightarrow> cache_answers look"
  shows "full_hosts m \<and> (\<exists>dc hs. map_of m dc = Some hs \<and> hs \<noteq> [])"
proof -
  have m: "m \<noteq> [] \<and> full_hosts m"
  proof (cases f)
    case (Simple s)
    then show ?thesis using assms(1) Simple_Fetch_full by simp
  next
    case (RTC s)
    then show ?thesis using assms(1) RTC_Fetch_full by simp
  next
    case (QDNS d)
    then have "QDNS_Fetch net d grp = Inr (Inr m)" "\<forall>look. dns_cache d = Some look \<longrightarrow> cache_answers look"
      using assms(1,4) by simp_all
    then show ?thesis by (rule QDNS_Fetch_full)
  qed (use assms(2,3) in simp_all)
  then have "map_of m (fst (hd m)) = Some (snd (hd m))" by (cases m) auto
  then show ?thesis using m unfolding full_hosts_def by metis
qed

text \<open>A lookup that the cache has kept, and a call that finds it there.\<close>

definition sample_answer :: "string fetch_error + cached" where
  "sample_answer = Inr (CMapStringStrings [(''vla'', [''w1''])])"

definition kept_lookup :: "(cached, string fetch_error) TTLCache" where
  "kept_lookup = get_begin ''q.'' 5 (projr (fetch_done 0 sample_answer (get_begin ''q.'' 0 (NewCache 10 10 100))))"

definition cached_qdns :: "string QDNSFetcher" where
  "cached_qdns = sample_qdns\<lparr>dns_cache := Some (\<lambda>gid key. if key = ''q.'' then Some sample_answer else None)\<rparr>"

lemma sample_answer_given: "fetch_gives ''q.'' sample_answer"
proof -
  have "qdns_lookup sample_net sample_qdns ''q.'' = Inr (Inr [(''vla'', [''w1''])])"
    by (simp add: qdns_lookup_def sample_net_def sample_qdns_def target_dc_def dcIndex_def TrimRight_def add_host_def
        lookup_zero_def Let_def)
  then show ?thesis unfolding fetch_gives_def sample_answer_def by (intro disjI2 exI conjI) (assumption, simp)
qed

lemma sample_answers: "cache_answers (\<lambda>gid key. if key = ''q.'' then Some sample_answer else None)"
proof -
  let ?c = "get_begin ''q.'' 0 (NewCache 10 10 100) :: (cached, string fetch_error) TTLCache"
  let ?d = "projr (fetch_done 0 sample_answer ?c)"
  note defs = get_begin_def NewCache_def fetch_done_def close_ready_def sample_answer_def Let_def
  have "fetchers_cache ?c"
    by (rule fetchers_cache.step [OF fetchers_cache.new [of 10 10 100], of "Begin ''q.'' 0"]) (simp_all add: cache_step_def)
  then have "fetchers_cache ?d"
    by (rule fetchers_cache.step [of _ "FetchDone 0 sample_answer"])
      (simp_all add: cache_step_def defs sample_answer_given [unfolded sample_answer_def])
  then have "fetchers_cache kept_lookup"
    unfolding kept_lookup_def by (rule fetchers_cache.step [of _ "Begin ''q.'' 5"]) (simp_all add: cache_step_def)
  moreover have "0 \<in> set (c_waiting kept_lookup) \<and> it_ready (c_items kept_lookup ! 0) \<and>
      it_key (c_items kept_lookup ! 0) = ''q.'' \<and> snd (get_return 0 5 kept_lookup) = Some sample_answer"
    by (simp add: kept_lookup_def get_return_def defs)
  ultimately show ?thesis unfolding cache_answers_def by auto
qed

theorem fetched_hosts_nonempty_witness:
  "Fetch sample_net (QDNS cached_qdns) ''q'' = Inr (Inr [(''vla'', [''w1''])]) \<and> full_hosts [(''vla'', [''w1''])]"
proof -
  have f: "Fetch sample_net (QDNS cached_qdns) ''q'' = Inr (Inr [(''vla'', [''w1''])])"
    by (simp add: QDNS_Fetch_def cached_qdns_def sample_qdns_def sample_answer_def HasSuffix_def suffix_def from_cache_def
        GetMapStringStrings_def)
  show ?thesis
    using f fetched_hosts_nonempty [OF f] sample_answers by (simp add: cached_qdns_def)
qed

text \<open>
  C21. The two formats of the HTTP fetcher agree: rows printed line by line (with or without a last
  newline) and rows printed as JSON objects are read as the same hosts, those of each data centre in
  the order of the rows, rows without a data centre under \<open>NoDC\<close>.
\<close>

theorem formats_agree:
  assumes "rows \<noteq> []" and "\<forall>r\<in>set rows. clean_row sep r" and "sep \<noteq> CHR 0x0A" and "Separator s = [sep]"
    and "option_name s ''fqdn_key_name'' = fqdn" and "option_name s ''dc_key_name'' = dcname" and "fqdn \<noteq> dcname"
    and "JsonParse net body = Some (json_rows fqdn dcname rows)"
  shows "\<exists>m. parseTSV s (tsv_rows sep rows) = Inr m \<and> parseTSV s (tsv_rows sep rows @ [CHR 0x0A]) = Inr m \<and>
    parseJSON net s body = Inr m \<and> go_map m \<and>
    (\<forall>dc. lookup_zero [] m dc =
      map snd (filter (\<lambda>(d, h). (if d = [] then ''NoDC'' else d) = dc) rows))"
proof (intro exI [of _ "group_rows rows []"] conjI)
  have "\<forall>(dc, host)\<in>set rows. host \<noteq> []" using assms(2) by (auto simp: clean_row_def)
  then show "parseJSON net s body = Inr (group_rows rows [])" using assms by (intro parse_json_rows) simp_all
qed (use parse_tsv_rows [OF assms(1-4)] in \<open>simp_all add: group_rows_map group_rows_hosts\<close>)

theorem formats_agree_witness:
  "\<exists>m. parseTSV sample_simple (tsv_rows (CHR '';'') sample_rows) = Inr m \<and>
    parseJSON sample_net sample_simple [] = Inr m \<and> lookup_zero [] m ''myt'' = [''a1'', ''a2'']"
  using formats_agree [of sample_rows "CHR '';''" sample_simple "''fqdn''" "''dc''" sample_net "[]"]
  by (fastforce simp: sample_rows_def sample_net_def sample_simple_def clean_row_def option_name_def lookup_zero_def)


text \<open>
  C22. DNS discovery: when the resolver answers a host query with no record the lookup panics; else
  the hosts are the targets of the first answer whose host query gave an SRV record, in order, under
  the leading letters of that record's target, and no such target at all is the error \<open>NoHosts\<close>.
\<close>

theorem qdns_discovers:
  assumes "dns_cache d = None" and "HasSuffix entity ''.''"
    and "ClientExchange net (dns_timeout d) entity (dns_Resolver d) = Inr answer"
  shows "if \<exists>t\<in>set (srv_targets answer). DnsExchange net (''_host_.'' @ t) (dns_Resolver d) = Inr []
    then QDNS_Fetch net d entity = Inl IndexOutOfRange
    else (let rows = concat (map (srv_row net (dns_Resolver d)) (srv_targets answer)) in
      if rows = [] then QDNS_Fetch net d entity = Inr (Inl NoHosts)
      else \<exists>m. QDNS_Fetch net d entity = Inr (Inr m) \<and> go_map m \<and>
        (\<forall>dc. lookup_zero [] m dc = map snd (filter (\<lambda>(d, h). d = dc) rows)))"
proof -
  let ?ts = "srv_targets answer" and ?server = "dns_Resolver d"
  let ?rows = "concat (map (srv_row net ?server) ?ts)"
  have f: "QDNS_Fetch net d entity = qdns_lookup net d entity"
    using assms(1,2) by (simp add: QDNS_Fetch_def)
  have dcs: "filter (\<lambda>(d, h). (if d = [] then ''NoDC'' else d) = dc) ?rows = filter (\<lambda>(d, h). d = dc) ?rows" for dc
    by (rule filter_cong [OF refl]) (auto dest: srv_row_named)
  show ?thesis
  proof (cases "\<exists>t\<in>set ?ts. DnsExchange net (''_host_.'' @ t) ?server = Inr []")
    case True
    then show ?thesis using assms(3) f discover_panics [OF True] by (simp add: qdns_lookup_def)
  next
    case False
    then have q: "qdns_lookup net d entity =
        (if group_rows ?rows [] = [] then Inr (Inl NoHosts) else Inr (Inr (group_rows ?rows [])))"
      using assms(3) discover_rows [of ?ts net ?server "[]"] by (simp add: qdns_lookup_def)
    show ?thesis
    proof (cases "?rows = []")
      case True
      then have "QDNS_Fetch net d entity = Inr (Inl NoHosts)" unfolding f q by (simp only: group_rows_simps if_True refl)
      then show ?thesis using False True unfolding Let_def by (simp only: if_False if_True refl)
    next
      case rows: False
      then have "QDNS_Fetch net d entity = Inr (Inr (group_rows ?rows []))"
        unfolding f q using group_rows_nonempty [of ?rows "[]"] by simp
      moreover have "lookup_zero [] (group_rows ?rows []) dc = map snd (filter (\<lambda>(d, h). d = dc) ?rows)" for dc
        unfolding group_rows_hosts dcs ..
      ultimately show ?thesis
        using False rows group_rows_map [of "[]" ?rows] unfolding Let_def
        by (simp only: if_False) (metis go_map_Nil)
    qed
  qed
qed

theorem qdns_discovers_witness:
  "\<exists>m. QDNS_Fetch sample_net sample_qdns ''q.'' = Inr (Inr m) \<and> lookup_zero [] m ''vla'' = [''w1'']"
  using qdns_discovers [of sample_qdns "''q.''" sample_net "[SRV ''w1.'', OtherRR, SRV ''w2.'']"]
  by (auto simp: sample_qdns_def sample_net_def HasSuffix_def suffix_def srv_row_def target_dc_def dcIndex_def
      TrimRight_def Let_def)

text \<open>
  The ports of ZooKeeper hosts are stripped in place in the cached slice: the first call that
  finds a list in the cache gives each host without its port, and the next call, which finds the
  stripped list, gives the same hosts exactly when no host had more than one colon.
\<close>

lemma zk_strips_again:
  assumes "StripPort s" and "zk_cache s = Some look"
    and "look path (''zk://'' @ Join (Servers s) '','' @ ''/'' @ path) = Some (Inr (CStrings l))"
    and "ZK_Fetch net s path = (r, Some l')"
    and "look' path (''zk://'' @ Join (Servers s) '','' @ ''/'' @ path) = Some (Inr (CStrings l'))"
  shows "r = Inr [(''unk'', map strip_port l)] \<and>
    (fst (ZK_Fetch net (s\<lparr>zk_cache := Some look'\<rparr>) path) = r \<longleftrightarrow> (\<forall>h\<in>set l. count_list h (CHR '':'') \<le> 1))"
proof -
  have l': "r = Inr [(''unk'', map strip_port l)]" "l' = map strip_port l"
    using assms(1-4) by (auto simp: ZK_Fetch_def Let_def through_cache_def GetStrings_def from_cache_def)
  moreover have "fst (ZK_Fetch net (s\<lparr>zk_cache := Some look'\<rparr>) path) = Inr [(''unk'', map strip_port l')]"
    using assms(1,5) by (simp add: ZK_Fetch_def Let_def through_cache_def GetStrings_def from_cache_def)
  ultimately show ?thesis by (simp add: strip_port_again)
qed

lemma zk_strips_again_example:
  "let s = \<lparr>zk_cache = Some (\<lambda>g u. Some (Inr (CStrings [''::1:80'']))), Servers = [''z''], StripPort = True\<rparr>;
       s' = s\<lparr>zk_cache := Some (\<lambda>g u. Some (Inr (CStrings [''::1''])))\<rparr>
   in fst (ZK_Fetch sample_net s ''p'') = Inr [(''unk'', [''::1''])] \<and>
      fst (ZK_Fetch sample_net s' ''p'') \<noteq> Inr [(''unk'', [''::1''])]"
proof -
  let ?s = "\<lparr>zk_cache = Some (\<lambda>g u. Some (Inr (CStrings [''::1:80'']))), Servers = [''z''], StripPort = True\<rparr>"
  have f: "ZK_Fetch sample_net ?s ''p'' = (Inr [(''unk'', [''::1''])], Some [''::1''])"
    by (simp add: ZK_Fetch_def through_cache_def GetStrings_def from_cache_def strip_port_def LastIndexByte_def Let_def)
  show ?thesis
    using zk_strips_again [of ?s _ "''p''" "[''::1:80'']" sample_net _ "[''::1'']"
        "\<lambda>g u. Some (Inr (CStrings [''::1'']))", OF _ _ _ f]
    by (auto simp: f)
qed

end
