(* ===== verification/Server.thy ===== *)
theory Server
  imports LeaderLoop Client Discovery Cache
begin

text \<open>
  The combainer around its parts: \<open>NewClient\<close> and \<open>Dispatch\<close> of \<open>combainer/client.go\<close>, the server of
  \<open>combainer/server.go\<close> with \<open>joinSerf\<close> of \<open>combainer/cluster.go\<close>, and the HTTP handlers of
  \<open>combainer/observer.go\<close>. Dialling, the codecs, \<open>serf\<close> and the pretty printer are arguments.
\<close>

section \<open>Clients\<close>

text \<open>The counter of client IDs, and the connections that are open.\<close>

record dialled =
  clientID :: "64 word"
  open_conns :: "nat list"

record GrpcClient =
  cl_ID :: "64 word"
  cl_conn :: nat
  cl_aggConn :: nat

fun apply_opts :: "(GrpcClient \<Rightarrow> 'e option) list \<Rightarrow> GrpcClient \<Rightarrow> 'e + GrpcClient" where
  "apply_opts [] c = Inr c"
| "apply_opts (f # opt) c = (case f c of Some err \<Rightarrow> Inl err | None \<Rightarrow> apply_opts opt c)"

definition NewClient :: "(string \<Rightarrow> 'e + nat) \<Rightarrow> (GrpcClient \<Rightarrow> 'e option) list \<Rightarrow> dialled \<Rightarrow> dialled \<times> ('e + GrpcClient)" where
  "NewClient Dial opt d =
     (case Dial ''serf:///worker'' of
        Inl err \<Rightarrow> (d, Inl err)
      | Inr conn \<Rightarrow>
          let d = d\<lparr>open_conns := conn # open_conns d\<rparr> in
          case Dial (''passthrough:///[::1]:'' @ defaultPort) of
            Inl err \<Rightarrow> (d, Inl err)
          | Inr aggConn \<Rightarrow>
              let d = d\<lparr>open_conns := aggConn # open_conns d, clientID := clientID d + 1\<rparr>;
                  c = \<lparr>cl_ID = clientID d, cl_conn = conn, cl_aggConn = aggConn\<rparr>
              in (d, apply_opts opt c))"

definition Client_Close :: "GrpcClient \<Rightarrow> dialled \<Rightarrow> dialled" where
  "Client_Close cl d = d\<lparr>open_conns := remove1 (cl_conn cl) (open_conns d)\<rparr>"

section \<open>An iteration\<close>

text \<open>
  \<open>Dispatch\<close>: the parsing phase is any run of \<open>phase_step\<close> that has come to its end, then the aggregation
  tasks are sent. \<open>aggregator local\<close> is the worker on this machine or one of the cluster.
\<close>

inductive Dispatch :: "'e session_env \<Rightarrow> string \<Rightarrow> (ParsingTask \<Rightarrow> 'e + (string, string) gomap) \<Rightarrow>
    (bool \<Rightarrow> AggregatingTask \<Rightarrow> 'e option) \<Rightarrow> int \<Rightarrow> string \<Rightarrow> string \<Rightarrow> clientStats \<Rightarrow>
    clientStats \<Rightarrow> 'e session_error option \<Rightarrow> bool"
  for env myname worker aggregator startTime config session stats where
  no_params: "updateSessionParams env myname config = Inr (Inl err) \<Longrightarrow>
    Dispatch env myname worker aggregator startTime config session stats stats (Some err)"
| iterated: "updateSessionParams env myname config = Inr (Inr params) \<Longrightarrow>
    (phase_step params startTime session worker)\<^sup>*\<^sup>* (phase_start params stats) ph \<Longrightarrow>
    ph_todo ph = [] \<Longrightarrow> ph_running ph = [] \<Longrightarrow>
    Dispatch env myname worker aggregator startTime config session stats
      (aggregate_all now (aggregator (aggregateLocally params))
        (map (frame_agg startTime (WholeTime params) session (ph_data ph)) (AggTasks params)) (ph_stats ph)) None"

section \<open>The server\<close>

record ('r, 'v, 'e) CombaineServer =
  sv_CombainerConfig :: CombainerConfig
  sv_cluster :: "'r Cluster option"
  sv_cache :: "('v, 'e) TTLCache"

definition Minute :: "64 word" where "Minute = 60000000000"

definition server_cache :: "CacheConfig \<Rightarrow> ('v, 'e) TTLCache" where
  "server_cache c =
     (let ttl = of_int (TTL c) * Minute; interval = of_int (Interval c) * Minute
      in NewCache (sint ttl) (sint interval) (sint (interval * 10)))"

datatype ('r, 'v, 'e) new_server = Malformed string | SerfFailed 'e | NewFailed "'e new_error"
  | NewServer "('r, 'v, 'e) CombaineServer"

text \<open>A cluster without an address is returned as nil, with no error.\<close>

definition New :: "CombainerConfig \<Rightarrow> (ClusterConfig \<Rightarrow> ('e, 'r Cluster option) started) \<Rightarrow> ('r, 'v, 'e) new_server" where
  "New combainerConfig newCluster =
     (case VerifyCombainerConfig combainerConfig of
        (cfg, Some err) \<Rightarrow> Malformed err
      | (cfg, None) \<Rightarrow>
          (case newCluster (ms_Cluster (cc_MainSection cfg)) of
             FatalExit err \<Rightarrow> SerfFailed err
           | Returned cluster (Some err) \<Rightarrow> NewFailed err
           | Returned cluster None \<Rightarrow>
               NewServer \<lparr>sv_CombainerConfig = cfg, sv_cluster = cluster, sv_cache = server_cache (ms_Cache (cc_MainSection cfg))\<rparr>))"

definition server_GetHosts :: "('r, 'v, 'e) CombaineServer \<Rightarrow> gopanic + string list" where
  "server_GetHosts s = (case sv_cluster s of None \<Rightarrow> Inl NilDereference | Some c \<Rightarrow> Inr (Cluster.Hosts c))"

text \<open>The operators of the cloud groups; a group that cannot be fetched is left out.\<close>

fun operator_hosts :: "'e network \<Rightarrow> 'e HostFetcher \<Rightarrow> nat list \<Rightarrow> string \<Rightarrow> string list \<Rightarrow> gopanic + string list" where
  "operator_hosts net f order myname [] = Inr []"
| "operator_hosts net f order myname (g # groups) =
     bind_sum (Fetch net f g) (\<lambda>r.
     bind_sum (operator_hosts net f order myname groups) (\<lambda>hs. Inr
       ((case r of Inl err \<Rightarrow> [] | Inr hostsByDc \<Rightarrow> RemoteHosts order myname hostsByDc) @ hs)))"

text \<open>\<open>join k\<close> is what the attempt \<open>k\<close> of \<open>serf.Join\<close> returns; \<open>None\<close> is a loop that does not end.\<close>

partial_function (option) joinSerf :: "(nat \<Rightarrow> nat \<times> 'e option) \<Rightarrow> nat \<Rightarrow> nat option" where
  "joinSerf join k = (case join k of (n, err) \<Rightarrow> (case err of Some e \<Rightarrow> joinSerf join (Suc k) | None \<Rightarrow> Some n))"

datatype ('d, 'e) serve_error = NoHostFetcher "'d load_error" | NoOperators

text \<open>
  \<open>Serve\<close> up to the start of \<open>Run\<close>, with the number of nodes joined, or its error. The deferred \<open>Shutdown\<close>
  of a nil cluster panics on every path.
\<close>

definition Serve :: "(string, ('d, 'e) FetcherLoader) gomap \<Rightarrow> 'e network \<Rightarrow> 'e shared_cache \<Rightarrow> nat list \<Rightarrow> string \<Rightarrow>
    (string list \<Rightarrow> nat \<Rightarrow> nat \<times> 'e option) \<Rightarrow> ('r, 'v, 'e) CombaineServer \<Rightarrow>
    (gopanic + (('d, 'e) serve_error + nat)) option" where
  "Serve fetchers net combainerCache order myname join s =
     (let cfg = sv_CombainerConfig s;
          fetcherConfig = ms_HostFetcher (cc_MainSection cfg);
          fetcherConfig = (if (case fetcherConfig of None \<Rightarrow> [] | Some m \<Rightarrow> m) = [] then cs_HostFetcher (cc_CloudSection cfg)
            else fetcherConfig);
          shutdown = (\<lambda>res. if sv_cluster s = None then Inl NilDereference else Inr res)
      in case LoadHostFetcherWithCache fetchers fetcherConfig combainerCache of
           Inl err \<Rightarrow> Some (shutdown (Inl (NoHostFetcher err)))
         | Inr f \<Rightarrow>
             (case operator_hosts net f order myname (ms_CloudGroups (cc_MainSection cfg)) of
                Inl panic \<Rightarrow> Some (Inl panic)
              | Inr operators \<Rightarrow>
                  if length operators = 0 then Some (shutdown (Inl NoOperators))
                  else if sv_cluster s = None then Some (Inl NilDereference)
                  else map_option (\<lambda>n. Inr (Inr n)) (joinSerf (join operators) 0)))"

section \<open>The HTTP handlers\<close>

text \<open>What a handler sends: the first status wins, a write without one sends 200.\<close>

record response =
  rs_status :: "int option"
  rs_body :: "string list"

definition no_response :: response where "no_response = \<lparr>rs_status = None, rs_body = []\<rparr>"

definition WriteHeader :: "int \<Rightarrow> response \<Rightarrow> response" where
  "WriteHeader code w = (if rs_status w = None then w\<lparr>rs_status := Some code\<rparr> else w)"

definition Fprint :: "string \<Rightarrow> response \<Rightarrow> response" where
  "Fprint s w = (WriteHeader 200 w)\<lparr>rs_body := rs_body w @ [s]\<rparr>"

definition http_Error :: "string \<Rightarrow> int \<Rightarrow> response \<Rightarrow> response" where
  "http_Error msg code w = Fprint (msg @ [CHR 0x0A]) (WriteHeader code w)"

text \<open>An error of the listing is dropped: the list is then null.\<close>

definition ParsingConfigs :: "'e filesystem \<Rightarrow> (string list option \<Rightarrow> string) \<Rightarrow> response \<Rightarrow> response" where
  "ParsingConfigs fs encode w =
     Fprint (encode (case ListParsingConfigs fs of Inl err \<Rightarrow> None | Inr names \<Rightarrow> Some names)) w"

definition title :: "string \<Rightarrow> string" where
  "title name = ''============ '' @ name @ '' ============'' @ [CHR 0x0A]"

fun print_aggregations :: "(AggregationConfig \<Rightarrow> 'e + string) \<Rightarrow> ('e \<Rightarrow> string) \<Rightarrow> (string, AggregationConfig) gomap \<Rightarrow>
    string list \<Rightarrow> response \<Rightarrow> response" where
  "print_aggregations encode text_of aggs [] w = w"
| "print_aggregations encode text_of aggs (aggname # names) w =
     (case map_of aggs aggname of
        None \<Rightarrow> print_aggregations encode text_of aggs names w
      | Some v \<Rightarrow>
          let w = Fprint (title aggname) w in
          case encode v of
            Inl err \<Rightarrow> Fprint (text_of err) w
          | Inr d \<Rightarrow> print_aggregations encode text_of aggs names (Fprint (d @ [CHR 0x0A]) w))"

text \<open>The page of a config: the config as it is used, with its aggregation configs.\<close>

definition ReadParsingConfig :: "'e session_env \<Rightarrow> (ParsingConfig \<Rightarrow> 'e + string) \<Rightarrow> (AggregationConfig \<Rightarrow> 'e + string) \<Rightarrow>
    ('e \<Rightarrow> string) \<Rightarrow> nat list \<Rightarrow> string \<Rightarrow> response \<Rightarrow> gopanic + response" where
  "ReadParsingConfig env encode encodeAgg text_of order name w =
     (case GetParsingConfig (env_fs env) name of
        Inl err \<Rightarrow> Inr (Fprint (text_of err) w)
      | Inr cfg \<Rightarrow>
          (case env_decodeParsing env cfg of
             Inl err \<Rightarrow> Inr (Fprint (text_of err) w)
           | Inr parsingCfg \<Rightarrow>
               bind_sum (UpdateByCombainerConfig (env_dord env) (env_hord env)
                   (GetCombainerConfig (env_fs env) (env_decodeCombainer env) (env_zeroConfig env)) parsingCfg)
                 (\<lambda>(parsingCfg, combainerCfg). Inr
                   (case GetAggregationConfigs (env_fs env) (env_decodeAggregation env) name parsingCfg of
                      (parsingCfg, Inl err) \<Rightarrow> w
                    | (parsingCfg, Inr aggs) \<Rightarrow>
                        (case encode parsingCfg of
                           Inl err \<Rightarrow> Fprint (text_of err) w
                         | Inr data \<Rightarrow>
                             print_aggregations encodeAgg text_of aggs (range_keys order aggs)
                               (Fprint data (Fprint (title name) w)))))))"

fun print_tasks :: "(ParsingTask \<Rightarrow> string) \<Rightarrow> nat \<Rightarrow> nat \<Rightarrow> ParsingTask list \<Rightarrow> response \<Rightarrow> response" where
  "print_tasks pretty len n [] w = w"
| "print_tasks pretty len n (task # todo) w =
     print_tasks pretty len (Suc n) todo
       (Fprint (pretty task @ [CHR 0x0A])
         (Fprint (title (''('' @ utoa (n + 1) @ ''/'' @ utoa len @ '')'')) w))"

text \<open>The tasks of a config; the client only serves for the call.\<close>

definition Tasks :: "'e session_env \<Rightarrow> string \<Rightarrow> (string \<Rightarrow> 'e + nat) \<Rightarrow> ('e \<Rightarrow> string) \<Rightarrow> ('e session_error \<Rightarrow> string) \<Rightarrow>
    (ParsingTask \<Rightarrow> string) \<Rightarrow> string \<Rightarrow> dialled \<Rightarrow> response \<Rightarrow> gopanic + dialled \<times> response" where
  "Tasks env myname Dial text_of session_text pretty name d w =
     (case NewClient Dial [] d of
        (d, Inl err) \<Rightarrow> Inr (d, http_Error (text_of err) 500 w)
      | (d, Inr cl) \<Rightarrow>
          bind_sum (updateSessionParams env myname name) (\<lambda>r. Inr (Client_Close cl d,
            case r of
              Inl err \<Rightarrow> http_Error (session_text err) 500 w
            | Inr sp \<Rightarrow> print_tasks pretty (length (PTasks sp)) 0 (PTasks sp) w)))"

text \<open>\<open>dispatched\<close> is the error of the iteration, if any; the log of the client, which is written in between, is left out.\<close>

definition Launch :: "(string \<Rightarrow> 'e + nat) \<Rightarrow> ('e \<Rightarrow> string) \<Rightarrow> ('s \<Rightarrow> string) \<Rightarrow> string \<Rightarrow> 's option \<Rightarrow> dialled \<Rightarrow> response \<Rightarrow>
    dialled \<times> response" where
  "Launch Dial text_of dispatch_text sessionID dispatched d w =
     (let w = WriteHeader 200 w in
      case NewClient Dial [\<lambda>c. None] d of
        (d, Inl err) \<Rightarrow> (d, http_Error (text_of err) 500 w)
      | (d, Inr cl) \<Rightarrow>
          let ID = ''launch-'' @ sessionID;
              w = Fprint (ID @ [CHR 0x0A]) w
          in (Client_Close cl d,
              case dispatched of
                Some err \<Rightarrow> Fprint (''FAILED: '' @ dispatch_text err @ [CHR 0x0A]) w
              | None \<Rightarrow> Fprint ''DONE'' w))"

text \<open>The dashboard encodes the statistics of all clients; \<open>limit\<close> is what \<open>Getrlimit\<close> gives.\<close>

record info =
  GoRoutines :: int
  Files_Open :: "64 word"
  Files_Limit :: "64 word \<times> 64 word"
  Clients :: "(string, StatInfo) gomap"

definition Dashboard :: "nat list \<Rightarrow> Observer \<Rightarrow> int \<Rightarrow> nat \<Rightarrow> 'e + 64 word \<times> 64 word \<Rightarrow> (info \<Rightarrow> 'e + string) \<Rightarrow> ('e \<Rightarrow> string) \<Rightarrow>
    response \<Rightarrow> response" where
  "Dashboard order ob goroutines nfiles limit encode text_of w =
     (let stats = GetClientsStats order ob;
          failed = (\<lambda>err. Fprint (''{\"error\": \"unable to dump json '' @ text_of err @ ''\"'') w)
      in case limit of
           Inl err \<Rightarrow> failed err
         | Inr lim \<Rightarrow>
             (case encode \<lparr>GoRoutines = goroutines, Files_Open = of_nat nfiles, Files_Limit = lim, Clients = stats\<rparr> of
                Inl err \<Rightarrow> failed err
              | Inr body \<Rightarrow> Fprint body w))"

text \<open>The routes; a path with or without a slash at its end is the same for \<open>StrictSlash\<close>.\<close>

datatype route = ToDashboard | ToParsingConfigs | ToReadParsingConfig string | ToTasks string | ToLaunch string | NotFound

definition GetRouter :: "string list \<Rightarrow> route" where
  "GetRouter path =
     (case path of
        [] \<Rightarrow> ToDashboard
      | [a] \<Rightarrow> if a = ''parsing'' then ToParsingConfigs else NotFound
      | [a, name] \<Rightarrow>
          if name = [] then NotFound
          else if a = ''parsing'' then ToReadParsingConfig name
          else if a = ''tasks'' then ToTasks name
          else if a = ''launch'' then ToLaunch name
          else NotFound
      | _ \<Rightarrow> NotFound)"

section \<open>Lemmas\<close>

lemma phase_step_aggregates:
  "phase_step sp startTime session worker ph ph' \<Longrightarrow>
    successAggregate (ph_stats ph') = successAggregate (ph_stats ph) \<and> failedAggregate (ph_stats ph') = failedAggregate (ph_stats ph)"
  by (erule phase_step.cases)
    (auto simp: start_parsing_def doParsing_def Let_def AddFailedParsing_def AddSuccessParsing_def split: list.splits if_splits sum.splits)

lemma phase_aggregates:
  "(phase_step sp startTime session worker)\<^sup>*\<^sup>* ph ph' \<Longrightarrow>
    successAggregate (ph_stats ph') = successAggregate (ph_stats ph) \<and> failedAggregate (ph_stats ph') = failedAggregate (ph_stats ph)"
  by (induction rule: rtranclp_induct) (auto dest: phase_step_aggregates)

lemma ended_phase_stats:
  assumes "(phase_step sp startTime session worker)\<^sup>*\<^sup>* (phase_start sp stats) ph" and "ph_todo ph = []" "ph_running ph = []"
  shows "let sent = map (frame_task startTime (WholeTime sp) session) (PTasks sp) in
    successParsing (ph_stats ph) = successParsing stats + of_nat (length (filter (replied worker) sent)) \<and>
    failedParsing (ph_stats ph) = failedParsing stats + of_nat (length (filter (\<lambda>t. \<not> replied worker t) sent))"
proof -
  obtain finished where inv: "phase_inv sp startTime session worker stats ph finished" using phase_steps_inv [OF assms(1)] by blast
  then have "mset finished = mset (map (frame_task startTime (WholeTime sp) session) (PTasks sp))"
    using assms(2,3) by (simp add: phase_inv_def Let_def)
  then have "length (filter P finished) = length (filter P (map (frame_task startTime (WholeTime sp) session) (PTasks sp)))" for P
    by (metis mset_filter size_mset)
  then show ?thesis using inv by (simp add: phase_inv_def Let_def)
qed

lemma aggregate_all_stats:
  "successAggregate (aggregate_all now worker ts stats) = successAggregate stats + of_nat (length (filter (\<lambda>t. worker t = None) ts)) \<and>
   failedAggregate (aggregate_all now worker ts stats) = failedAggregate stats + of_nat (length (filter (\<lambda>t. worker t \<noteq> None) ts)) \<and>
   successParsing (aggregate_all now worker ts stats) = successParsing stats \<and>
   failedParsing (aggregate_all now worker ts stats) = failedParsing stats"
  by (induction ts arbitrary: stats)
    (auto simp: doAggregation_def AddFailedAggregate_def AddSuccessAggregate_def split: option.split)

lemma total_counts:
  fixes a b :: "64 word"
  shows "(a + of_nat (length (filter P xs))) + (b + of_nat (length (filter (\<lambda>x. \<not> P x) xs))) = (a + b) + of_nat (length xs)"
proof -
  have "length xs = length (filter P xs) + length (filter (\<lambda>x. \<not> P x) xs)" by (rule sum_length_filter_compl [symmetric])
  then show ?thesis by (simp add: ac_simps)
qed

lemma joinSerf_returns:
  "snd (join (k + i)) = None \<Longrightarrow> \<exists>n. joinSerf join k = Some n"
proof (induction i arbitrary: k)
  case 0
  then show ?case by (cases "join k") (simp add: joinSerf.simps [of join k])
next
  case (Suc i)
  then obtain n where "joinSerf join (Suc k) = Some n" by fastforce
  then show ?case by (cases "join k"; cases "snd (join k)") (simp_all add: joinSerf.simps [of join k])
qed

text \<open>A server without a cluster panics however it is served.\<close>

lemma Serve_nil_cluster:
  assumes "sv_cluster s = None"
  shows "\<exists>panic. Serve fetchers net c order myname join s = Some (Inl panic)"
  using assms by (simp add: Serve_def Let_def split: sum.split)

lemma New_nil_cluster:
  assumes "VerifyCombainerConfig cfg = (cfg', None)"
  shows "\<exists>s. New cfg (NewCluster name (Inr []) serf_Create transport) = NewServer s \<and> sv_cluster s = None"
  using assms by (simp add: New_def NewCluster_def Let_def)

text \<open>The status of \<open>Launch\<close> is 200 also when there is no client; \<open>Close\<close> leaves one connection open.\<close>

lemma Launch_status: "rs_status (snd (Launch Dial text_of dispatch_text sessionID dispatched d no_response)) = Some 200"
  by (simp add: Launch_def no_response_def WriteHeader_def Fprint_def http_Error_def Let_def split: prod.split sum.split option.split)

lemma NewClient_leaks:
  assumes "NewClient Dial opt d = (d', Inr cl)"
  shows "open_conns (Client_Close cl d') = (if cl_aggConn cl = cl_conn cl then cl_conn cl # open_conns d
    else cl_aggConn cl # open_conns d) \<and> clientID d' = clientID d + 1"
proof -
  have opts: "apply_opts opt c = Inr c' \<Longrightarrow> c' = c" for c c' :: GrpcClient
    by (induction opt) (auto split: option.splits)
  show ?thesis using assms
    by (auto simp: NewClient_def Let_def Client_Close_def split: sum.splits dest!: opts)
qed

lemma print_tasks_body:
  "rs_body (print_tasks pretty len n ts w) =
    rs_body w @ concat (map (\<lambda>(i, t). [title (''('' @ utoa (n + i + 1) @ ''/'' @ utoa len @ '')''), pretty t @ [CHR 0x0A]]) (enumerate 0 ts))"
proof (induction ts arbitrary: n w)
  case (Cons t ts)
  have "enumerate (Suc 0) ts = map (\<lambda>(i, t). (Suc i, t)) (enumerate 0 ts)"
    by (simp add: enumerate_eq_zip zip_map1 [symmetric] map_Suc_upt [symmetric] del: upt_Suc)
  then show ?case using Cons by (simp add: Fprint_def WriteHeader_def case_prod_beta o_def)
qed simp

section \<open>Properties\<close>

text \<open>
  C40. An iteration comes to an end unless reading its configuration panics. It fails, and counts nothing, exactly
  when its parameters cannot be made; else the counters of the client grow by one for every parsing task and every aggregation task, each
  as a success or a failure according to the answer of its worker, whatever the order of the answers.
\<close>

theorem iteration_counts_tasks:
  assumes "updateSessionParams env myname config = Inr r"
  shows "(\<exists>stats' err. Dispatch env myname worker aggregator startTime config session stats stats' err) \<and>
    (\<forall>stats' err. Dispatch env myname worker aggregator startTime config session stats stats' err \<longrightarrow>
      (case r of
         Inl e \<Rightarrow> err = Some e \<and> stats' = stats
       | Inr sp \<Rightarrow> err = None \<and>
           (let sent = map (frame_task startTime (WholeTime sp) session) (PTasks sp) in
            successParsing stats' = successParsing stats + of_nat (length (filter (replied worker) sent)) \<and>
            ParsingTotal (GetStats stats') = ParsingTotal (GetStats stats) + of_nat (length (PTasks sp)) \<and>
            AggregateTotal (GetStats stats') = AggregateTotal (GetStats stats) + of_nat (length (AggTasks sp)))))"
proof (cases r)
  case (Inl e)
  have "Dispatch env myname worker aggregator startTime config session stats stats (Some e)"
    by (rule Dispatch.no_params) (use assms Inl in simp)
  then show ?thesis using assms Inl by (auto elim: Dispatch.cases)
next
  case (Inr sp)
  have params: "updateSessionParams env myname config = Inr (Inr sp)" using assms Inr by simp
  have "0 < ParallelParsings sp" using session_parallel [OF params] by simp
  from parsing.reaches_end [OF this] obtain ph where "(phase_step sp startTime session worker)\<^sup>*\<^sup>* (phase_start sp stats) ph"
    "ph_todo ph = []" "ph_running ph = []" by blast
  from Dispatch.iterated [OF params this]
  have ends: "\<exists>stats' err. Dispatch env myname worker aggregator startTime config session stats stats' err" by blast
  have counts: "err = None \<and> (let sent = map (frame_task startTime (WholeTime sp) session) (PTasks sp) in
      successParsing stats' = successParsing stats + of_nat (length (filter (replied worker) sent)) \<and>
      ParsingTotal (GetStats stats') = ParsingTotal (GetStats stats) + of_nat (length (PTasks sp)) \<and>
      AggregateTotal (GetStats stats') = AggregateTotal (GetStats stats) + of_nat (length (AggTasks sp)))"
    if "Dispatch env myname worker aggregator startTime config session stats stats' err" for stats' err
    using that
  proof (cases rule: Dispatch.cases)
    case (no_params e)
    then show ?thesis using params by simp
  next
    case (iterated sp' ph now)
    then have sp': "sp' = sp" using params by simp
    let ?sent = "map (frame_task startTime (WholeTime sp) session) (PTasks sp)"
    let ?agg = "map (frame_agg startTime (WholeTime sp) session (ph_data ph)) (AggTasks sp)"
    note run = iterated(4-6) [unfolded sp']
    note p = ended_phase_stats [OF run, unfolded Let_def]
    note s = iterated(1) [unfolded sp']
    have a: "successAggregate (ph_stats ph) = successAggregate stats" "failedAggregate (ph_stats ph) = failedAggregate stats"
      using phase_aggregates [OF run(1)] by (simp_all add: phase_start_def)
    have "ParsingTotal (GetStats stats') = ParsingTotal (GetStats stats) + of_nat (length ?sent)"
      unfolding s using p total_counts [of "successParsing stats" "replied worker" ?sent "failedParsing stats"]
      by (simp add: GetStats_def aggregate_all_stats del: length_map)
    moreover have "AggregateTotal (GetStats stats') = AggregateTotal (GetStats stats) + of_nat (length ?agg)"
      unfolding s using a total_counts [of "successAggregate stats" "\<lambda>t. aggregator (aggregateLocally sp) t = None" ?agg "failedAggregate stats"]
      by (simp add: GetStats_def aggregate_all_stats del: length_map)
    ultimately show ?thesis using iterated(2) p unfolding s Let_def by (simp add: aggregate_all_stats)
  qed
  show ?thesis using ends counts Inr by simp
qed

definition flaky_worker :: "ParsingTask \<Rightarrow> string + (string, string) gomap" where
  "flaky_worker t = (if pt_Host t = ''h1'' then Inr [] else Inl ''down'')"

theorem iteration_counts_tasks_witness:
  "\<exists>stats'. Dispatch sample_env ''me'' flaky_worker (\<lambda>local t. None) 0 ''c'' ''s'' zero_stats stats' None \<and>
    successParsing stats' = 1 \<and> ParsingTotal (GetStats stats') = 2 \<and> AggregateTotal (GetStats stats') = 1"
proof -
  obtain sp where sp: "updateSessionParams sample_env ''me'' ''c'' = Inr (Inr sp)" "map pt_Host (PTasks sp) = [''h1'', ''h2'']"
    "map at_Config (AggTasks sp) = [''c'']" using sample_params by (elim exE conjE)
  note run = iteration_counts_tasks [OF sp(1), where worker = flaky_worker and aggregator = "\<lambda>local t. None" and startTime = 0 and
    session = "''s''" and stats = zero_stats, unfolded Let_def sum.case]
  from conjunct1 [OF run] obtain stats' err where
    d: "Dispatch sample_env ''me'' flaky_worker (\<lambda>local t. None) 0 ''c'' ''s'' zero_stats stats' err" by (elim exE)
  note counts = conjunct2 [OF run, rule_format, OF d]
  let ?sent = "map (frame_task 0 (WholeTime sp) ''s'') (PTasks sp)"
  have hosts: "map pt_Host ?sent = [''h1'', ''h2'']" using sp(2) by (simp add: frame_task_def comp_def)
  then have "length (filter (replied flaky_worker) ?sent) = length (filter (\<lambda>h. h = ''h1'') (map pt_Host ?sent))"
    unfolding filter_map length_map by (simp add: replied_def flaky_worker_def comp_def)
  then have one: "length (filter (replied flaky_worker) ?sent) = 1" unfolding hosts by simp
  have "length (PTasks sp) = 2" "length (AggTasks sp) = 1"
    using sp(2,3) by (metis length_map length_Cons list.size(3) numeral_2_eq_2, metis length_map length_Cons list.size(3) One_nat_def)
  moreover have zero: "successParsing zero_stats = 0" "ParsingTotal (GetStats zero_stats) = 0" "AggregateTotal (GetStats zero_stats) = 0"
    by (simp_all add: GetStats_def zero_stats_def)
  ultimately have "err = None" "successParsing stats' = 1" "ParsingTotal (GetStats stats') = 2" "AggregateTotal (GetStats stats') = 1"
    using counts one zero by simp_all
  then show ?thesis using d by blast
qed

end
