(* ===== verification/WorkerServices.thy ===== *)
theory WorkerServices
  imports GoStrings
begin

text \<open>
  \<open>worker/worker.go\<close>: the aggregator and sender processes of a worker and the connections to them.
  What one attempt of \<open>grpc.Dial\<close> gives, the environment and the directory of the services are
  arguments. \<open>SpawnServices\<close> starts one goroutine per sender; they, the goroutine that closes the
  error channel and the loop that reads it are a step relation.
\<close>

section \<open>The pool of aggregator connections\<close>

record 'c conn_pool =
  aggConnIdx :: nat
  aggregatorConnections :: "'c list"

definition NextAggregatorConn :: "'c conn_pool \<Rightarrow> 'c conn_pool \<times> 'c" where
  "NextAggregatorConn p =
     (let i = (aggConnIdx p + 1) mod length (aggregatorConnections p)
      in (p\<lparr>aggConnIdx := i\<rparr>, aggregatorConnections p ! i))"

fun next_conns :: "nat \<Rightarrow> 'c conn_pool \<Rightarrow> 'c conn_pool \<times> 'c list" where
  "next_conns 0 p = (p, [])"
| "next_conns (Suc k) p =
     (let (p', c) = NextAggregatorConn p; (p'', cs) = next_conns k p' in (p'', c # cs))"

section \<open>Services\<close>

definition appsDir :: string where "appsDir = ''/usr/lib/combaine/apps/''"
definition logDir :: string where "logDir = ''/var/log/combaine/''"
definition envPrefix :: string where "envPrefix = ''COMBAINE_WORKER_SERVICE_''"
definition aggregatorService :: string where "aggregatorService = ''aggregator.py''"

definition upper_char :: "char \<Rightarrow> char" where
  "upper_char c = (if CHR ''a'' \<le> c \<and> c \<le> CHR ''z'' then char_of (of_char c - (32::nat)) else c)"

definition register :: "string \<Rightarrow> 'c \<Rightarrow> (string, 'c) gomap \<Rightarrow> (string, 'c) gomap" where
  "register name conn services = AList.update name conn services"

datatype 'e service_error = UnknownSender string | FailedToDial string nat | SystemError 'e

definition GetSenderClient :: "(string, 'c) gomap \<Rightarrow> string \<Rightarrow> 'e service_error + 'c" where
  "GetSenderClient services sType =
     (case map_of services sType of Some conn \<Rightarrow> Inr conn | None \<Rightarrow> Inl (UnknownSender sType))"

text \<open>\<open>dial k\<close> is what the \<open>k\<close>-th attempt gives; the loop runs from 0 to \<open>attempts\<close> inclusive.\<close>

fun dial_loop :: "(nat \<Rightarrow> 'e + 'c) \<Rightarrow> nat list \<Rightarrow> 'c option" where
  "dial_loop dial [] = None"
| "dial_loop dial (i # is) = (case dial i of Inl err \<Rightarrow> dial_loop dial is | Inr cc \<Rightarrow> Some cc)"

definition dialService :: "(string \<Rightarrow> nat \<Rightarrow> 'e + 'c) \<Rightarrow> string \<Rightarrow> string \<Rightarrow> 'e service_error + 'c" where
  "dialService dial name addr =
     (let attempts = 20 in
      case dial_loop (dial addr) [0..<attempts + 1] of
        Some cc \<Rightarrow> Inr cc
      | None \<Rightarrow> Inl (FailedToDial name attempts))"

text \<open>The command line of a service, and its runs: one per round until the stop channel is ready.\<close>

definition service_command :: "(string \<Rightarrow> string option) \<Rightarrow> string \<Rightarrow> int \<Rightarrow> string list" where
  "service_command LookupEnv name port =
     (let envServicePrefix = envPrefix @ map upper_char name;
          logoutput = (case LookupEnv (envServicePrefix @ ''_LOGOUTPUT'') of Some v \<Rightarrow> v | None \<Rightarrow> logDir @ name @ ''.log'');
          loglevel = (case LookupEnv (envServicePrefix @ ''_LOGLEVEL'') of Some v \<Rightarrow> v | None \<Rightarrow> ''info'');
          targetPort = '':'' @ Itoa port;
          endpoint = ''[::]'' @ targetPort
      in [appsDir @ name, ''-endpoint'', endpoint, ''-logoutput'', logoutput, ''-loglevel'', loglevel])"

fun service_runs :: "string list \<Rightarrow> bool list \<Rightarrow> string list list" where
  "service_runs cmd [] = []"
| "service_runs cmd (stopped # polls) = (if stopped then [] else cmd # service_runs cmd polls)"

definition spawnService :: "(string \<Rightarrow> nat \<Rightarrow> 'e + 'c) \<Rightarrow> string \<Rightarrow> int \<Rightarrow> 'e service_error + 'c" where
  "spawnService dial name port = dialService dial name ('':'' @ Itoa port)"

section \<open>Starting all services\<close>

text \<open>The connections 1 to 15 of the aggregator, in order; the first error ends the start.\<close>

fun dial_aggregators :: "(string \<Rightarrow> nat \<Rightarrow> 'e + 'c) \<Rightarrow> string \<Rightarrow> int \<Rightarrow> nat list \<Rightarrow> 'e service_error + 'c list" where
  "dial_aggregators dial name port [] = Inr []"
| "dial_aggregators dial name port (idx # is) =
     (case dialService dial name (''127.0.0.'' @ Itoa (int idx + 1) @ '':'' @ Itoa port) of
        Inl err \<Rightarrow> Inl err
      | Inr acc \<Rightarrow> map_sum (\<lambda>e. e) (\<lambda>cs. acc # cs) (dial_aggregators dial name port is))"

fun assign_ports :: "int \<Rightarrow> (string \<times> bool) list \<Rightarrow> (string \<times> int) list" where
  "assign_ports port [] = []"
| "assign_ports port ((name, isDir) # files) =
     (if isDir then assign_ports port files else (name, port + 1) # assign_ports (port + 1) files)"

record ('e, 'c) spawning =
  sp_wg :: nat
  sp_pending :: "(string \<times> int) list"
  sp_errCh :: "'e service_error list"
  sp_closed :: bool
  sp_services :: "(string, 'c) gomap"
  sp_result :: "'e service_error list"
  sp_returned :: bool

definition spawn_start :: "(string, 'c) gomap \<Rightarrow> (string \<times> int) list \<Rightarrow> ('e, 'c) spawning" where
  "spawn_start services todo =
     \<lparr>sp_wg = length todo, sp_pending = todo, sp_errCh = [], sp_closed = False, sp_services = services,
      sp_result = [], sp_returned = False\<rparr>"

definition SpawnServices :: "(string \<Rightarrow> nat \<Rightarrow> 'e + 'c) \<Rightarrow> ('e + (string \<times> bool) list) \<Rightarrow> (string, 'c) gomap \<Rightarrow>
    'e service_error + 'c list \<times> ('e, 'c) spawning" where
  "SpawnServices dial files services =
     (let port = 10000; aggServiceName = ''aggregator/'' @ aggregatorService in
      case spawnService dial aggServiceName port of
        Inl err \<Rightarrow> Inl err
      | Inr acc \<Rightarrow> (case dial_aggregators dial aggServiceName port [1..<16] of
          Inl err \<Rightarrow> Inl err
        | Inr accs \<Rightarrow> (case files of
            Inl err \<Rightarrow> Inl (SystemError err)
          | Inr fs \<Rightarrow> Inr (acc # accs, spawn_start services (assign_ports port fs)))))"

text \<open>
  One goroutine ends (its error goes to the channel of capacity 1 when there is room, and then it
  returns without \<open>wg.Done\<close>); the channel is closed when the wait group is at zero; the main goroutine
  receives an error, or returns when the channel is closed and empty.
\<close>

inductive spawn_step :: "(string \<times> int \<Rightarrow> 'e service_error + 'c) \<Rightarrow> ('e, 'c) spawning \<Rightarrow> ('e, 'c) spawning \<Rightarrow> bool"
  for spawn where
  up: "s \<in> set (sp_pending st) \<Longrightarrow> spawn s = Inr sc \<Longrightarrow>
    spawn_step spawn st (st\<lparr>sp_pending := remove1 s (sp_pending st), sp_wg := sp_wg st - 1,
      sp_services := register (fst s) sc (sp_services st)\<rparr>)"
| down: "s \<in> set (sp_pending st) \<Longrightarrow> spawn s = Inl err \<Longrightarrow> length (sp_errCh st) < 1 \<Longrightarrow>
    spawn_step spawn st (st\<lparr>sp_pending := remove1 s (sp_pending st), sp_errCh := sp_errCh st @ [err]\<rparr>)"
| close_errCh: "sp_wg st = 0 \<Longrightarrow> \<not> sp_closed st \<Longrightarrow> spawn_step spawn st (st\<lparr>sp_closed := True\<rparr>)"
| receive: "sp_errCh st = err # errs \<Longrightarrow> \<not> sp_returned st \<Longrightarrow>
    spawn_step spawn st (st\<lparr>sp_errCh := errs, sp_result := sp_result st @ [err]\<rparr>)"
| return: "sp_errCh st = [] \<Longrightarrow> sp_closed st \<Longrightarrow> \<not> sp_returned st \<Longrightarrow>
    spawn_step spawn st (st\<lparr>sp_returned := True\<rparr>)"

inductive_simps spawn_step_simps: "spawn_step spawn st st'"

section \<open>Lemmas on the pool\<close>

lemma next_conns_eq:
  assumes "aggConnIdx p < n" and "length (aggregatorConnections p) = n"
  shows "snd (next_conns k p) = map (\<lambda>j. aggregatorConnections p ! ((aggConnIdx p + 1 + j) mod n)) [0..<k] \<and>
    aggConnIdx (fst (next_conns k p)) = (aggConnIdx p + k) mod n \<and>
    aggregatorConnections (fst (next_conns k p)) = aggregatorConnections p"
  using assms
proof (induction k arbitrary: p)
  case (Suc k)
  define i where "i = (aggConnIdx p + 1) mod n"
  define q where "q = p\<lparr>aggConnIdx := i\<rparr>"
  have q: "aggConnIdx q = i" "i < n" "aggregatorConnections q = aggregatorConnections p"
    using Suc.prems(1) by (simp_all add: q_def i_def)
  have IH: "snd (next_conns k q) = map (\<lambda>j. aggregatorConnections p ! ((i + 1 + j) mod n)) [0..<k]"
    "aggConnIdx (fst (next_conns k q)) = (i + k) mod n" "aggregatorConnections (fst (next_conns k q)) = aggregatorConnections p"
    using Suc.IH [of q] Suc.prems(2) q by simp_all
  have step: "next_conns (Suc k) p = (fst (next_conns k q), aggregatorConnections p ! i # snd (next_conns k q))"
    using Suc.prems(2) by (simp add: NextAggregatorConn_def Let_def case_prod_beta q_def i_def)
  have m: "(i + m) mod n = (aggConnIdx p + 1 + m) mod n" for m unfolding i_def by (rule mod_add_left_eq)
  have "[0..<Suc k] = 0 # map Suc [0..<k]" by (metis map_Suc_upt upt_conv_Cons zero_less_Suc)
  moreover have "map (\<lambda>j. aggregatorConnections p ! ((i + 1 + j) mod n)) [0..<k] =
      map (\<lambda>j. aggregatorConnections p ! ((aggConnIdx p + 1 + Suc j) mod n)) [0..<k]"
    using m [of "Suc _"] by simp
  ultimately have "snd (next_conns (Suc k) p) =
      map (\<lambda>j. aggregatorConnections p ! ((aggConnIdx p + 1 + j) mod n)) [0..<Suc k]"
    unfolding step snd_conv IH(1) by (simp add: o_def i_def del: upt_Suc)
  moreover have "(i + k) mod n = (aggConnIdx p + Suc k) mod n" using m [of k] by simp
  ultimately show ?case unfolding step fst_conv IH by blast
qed simp

section \<open>Lemmas on starting services\<close>

definition fails :: "(string \<times> int \<Rightarrow> 'e service_error + 'c) \<Rightarrow> string \<times> int \<Rightarrow> bool" where
  "fails spawn s \<longleftrightarrow> (\<exists>err. spawn s = Inl err)"

definition spawn_inv :: "(string \<times> int \<Rightarrow> 'e service_error + 'c) \<Rightarrow> (string \<times> int) list \<Rightarrow> ('e, 'c) spawning \<Rightarrow> bool" where
  "spawn_inv spawn todo st \<longleftrightarrow>
     sp_wg st + length (filter (fails spawn) (sp_pending st)) =
       length (sp_pending st) + length (filter (fails spawn) todo) \<and>
     set (sp_pending st) \<subseteq> set todo \<and>
     (sp_closed st \<longrightarrow> sp_wg st = 0) \<and> (sp_returned st \<longrightarrow> sp_closed st) \<and>
     (\<forall>err\<in>set (sp_errCh st) \<union> set (sp_result st). \<exists>s\<in>set todo. spawn s = Inl err)"

definition spawn_registered :: "(string \<times> int \<Rightarrow> 'e service_error + 'c) \<Rightarrow> (string \<times> int) list \<Rightarrow> ('e, 'c) spawning \<Rightarrow> bool" where
  "spawn_registered spawn todo st \<longleftrightarrow>
     (\<forall>s\<in>set todo. s \<notin> set (sp_pending st) \<longrightarrow> fails spawn s \<or> map_of (sp_services st) (fst s) \<noteq> None)"

lemma filter_remove1_length:
  "x \<in> set xs \<Longrightarrow> length (filter P xs) = length (filter P (remove1 x xs)) + (if P x then 1 else 0)"
  by (induction xs) auto

lemma length_remove1_Suc: "x \<in> set xs \<Longrightarrow> length xs = Suc (length (remove1 x xs))"
  by (induction xs) auto


lemma set_remove1_cases: "x \<in> set xs \<Longrightarrow> y \<in> set xs \<Longrightarrow> y = x \<or> y \<in> set (remove1 x xs)"
  by (metis in_set_remove1)

lemma spawn_inv_start: "spawn_inv spawn todo (spawn_start services todo)"
  by (simp add: spawn_inv_def spawn_start_def)

lemma spawn_inv_step:
  assumes "spawn_step spawn st st'" and inv: "spawn_inv spawn todo st"
  shows "spawn_inv spawn todo st'"
  using assms(1)
proof cases
  case (up s sc)
  have "\<not> fails spawn s" using up(3) by (simp add: fails_def)
  then have l: "length (filter (fails spawn) (sp_pending st)) = length (filter (fails spawn) (remove1 s (sp_pending st)))"
    "length (sp_pending st) = Suc (length (remove1 s (sp_pending st)))"
    using filter_remove1_length [OF up(2)] length_remove1_Suc [OF up(2)] by simp_all
  have "length (filter (fails spawn) (remove1 s (sp_pending st))) \<le> length (remove1 s (sp_pending st))"
    by (rule length_filter_le)
  then have "0 < sp_wg st" using inv l unfolding spawn_inv_def by linarith
  moreover have "set (remove1 s (sp_pending st)) \<subseteq> set todo"
    using inv set_remove1_subset [of s "sp_pending st"] unfolding spawn_inv_def by blast
  ultimately show ?thesis using inv l unfolding up(1) spawn_inv_def by auto
next
  case (down s err)
  have "fails spawn s" using down(3) by (simp add: fails_def)
  then have l: "length (filter (fails spawn) (sp_pending st)) = Suc (length (filter (fails spawn) (remove1 s (sp_pending st))))"
    "length (sp_pending st) = Suc (length (remove1 s (sp_pending st)))"
    using filter_remove1_length [OF down(2)] length_remove1_Suc [OF down(2)] by simp_all
  moreover have "set (remove1 s (sp_pending st)) \<subseteq> set todo"
    using inv set_remove1_subset [of s "sp_pending st"] unfolding spawn_inv_def by blast
  moreover have "s \<in> set todo" using inv down(2) unfolding spawn_inv_def by blast
  ultimately show ?thesis using inv down(3) unfolding down(1) spawn_inv_def by auto
qed (use inv in \<open>auto simp: spawn_inv_def\<close>)

interpretation spawn_guard: guarded_steps "spawn_step spawn" "spawn_inv spawn todo"
  by unfold_locales (rule spawn_inv_step)

lemmas spawn_inv_steps = spawn_guard.steps_inv [OF _ spawn_inv_start]

lemma spawn_registered_step:
  assumes "spawn_step spawn st st'" and reg: "spawn_registered spawn todo st"
  shows "spawn_registered spawn todo st'"
  using assms(1)
proof cases
  case (up s sc)
  show ?thesis unfolding spawn_registered_def
  proof (intro ballI impI)
    fix x assume x: "x \<in> set todo" "x \<notin> set (sp_pending st')"
    then have "x = s \<or> x \<notin> set (sp_pending st)" using up(1) by (auto simp: in_set_remove1)
    then show "fails spawn x \<or> map_of (sp_services st') (fst x) \<noteq> None"
      using reg x(1) up(1) unfolding spawn_registered_def by (auto simp: register_def)
  qed
next
  case (down s err)
  show ?thesis unfolding spawn_registered_def
  proof (intro ballI impI)
    fix x assume x: "x \<in> set todo" "x \<notin> set (sp_pending st')"
    then have "x = s \<or> x \<notin> set (sp_pending st)" using down(1) by (auto simp: in_set_remove1)
    then show "fails spawn x \<or> map_of (sp_services st') (fst x) \<noteq> None"
      using reg x(1) down(1,3) unfolding spawn_registered_def fails_def by auto
  qed
qed (use reg in \<open>auto simp: spawn_registered_def\<close>)

interpretation spawn_names: guarded_steps "spawn_step spawn" "spawn_registered spawn todo"
  by unfold_locales (rule spawn_registered_step)

lemma spawn_registered_start: "spawn_registered spawn todo (spawn_start services todo)"
  by (simp add: spawn_registered_def spawn_start_def)

lemmas spawn_registered_steps = spawn_names.steps_inv [OF _ spawn_registered_start]

text \<open>Every action uses something up: a goroutine, the open channel, a queued error, the wait.\<close>

definition spawn_measure :: "('e, 'c) spawning \<Rightarrow> nat" where
  "spawn_measure st = 2 * length (sp_pending st) + length (sp_errCh st) + (if sp_closed st then 0 else 1) +
     (if sp_returned st then 0 else 1)"

lemma spawn_step_measure: "spawn_step spawn st st' \<Longrightarrow> spawn_measure st' < spawn_measure st"
  by (erule spawn_step.cases) (auto simp: spawn_measure_def dest: length_remove1_Suc)

lemma spawn_progress:
  assumes inv: "spawn_inv spawn todo st" and ok: "\<forall>s\<in>set todo. \<exists>sc. spawn s = Inr sc"
    and "\<not> sp_returned st"
  shows "\<exists>st'. spawn_step spawn st st'"
proof (cases "sp_pending st")
  case (Cons s ss)
  then obtain sc where "spawn s = Inr sc" using inv ok unfolding spawn_inv_def by auto
  then show ?thesis using spawn_step.up [of s st spawn sc] Cons by auto
next
  case Nil
  have "filter (fails spawn) todo = []" using ok by (auto simp: filter_empty_conv fails_def)
  then have wg: "sp_wg st = 0" using inv Nil by (simp add: spawn_inv_def)
  have errs: "sp_errCh st = []"
  proof (rule ccontr)
    assume "sp_errCh st \<noteq> []"
    then obtain err where "err \<in> set (sp_errCh st)" by fastforce
    then show False using inv ok unfolding spawn_inv_def by fastforce
  qed
  show ?thesis
  proof (cases "sp_closed st")
    case True
    then show ?thesis using spawn_step.return [of st spawn] errs assms(3) by blast
  next
    case False
    then show ?thesis using spawn_step.close_errCh [of st spawn] wg by blast
  qed
qed

interpretation spawn_ends: ending_steps "spawn_step spawn" "\<lambda>st. spawn_inv spawn todo st \<and> (\<forall>s\<in>set todo. \<exists>sc. spawn s = Inr sc)"
  spawn_measure sp_returned
  by unfold_locales (auto intro: spawn_inv_step spawn_step_measure dest: spawn_progress)

text \<open>
  The pool is used in turn: as many calls of \<open>NextAggregatorConn\<close> as there are connections give
  every connection exactly once, starting after the current one, and leave the index where it was;
  the index never leaves the pool.
\<close>

lemma pool_round_robin:
  assumes "aggConnIdx p < length (aggregatorConnections p)"
  shows "snd (next_conns (length (aggregatorConnections p)) p) = rotate (Suc (aggConnIdx p)) (aggregatorConnections p) \<and>
    fst (next_conns (length (aggregatorConnections p)) p) = p \<and>
    aggConnIdx (fst (next_conns k p)) < length (aggregatorConnections p)"
proof -
  let ?n = "length (aggregatorConnections p)"
  have e: "snd (next_conns m p) = map (\<lambda>j. aggregatorConnections p ! ((aggConnIdx p + 1 + j) mod ?n)) [0..<m]"
    "aggConnIdx (fst (next_conns m p)) = (aggConnIdx p + m) mod ?n"
    "aggregatorConnections (fst (next_conns m p)) = aggregatorConnections p" for m
    using next_conns_eq [OF assms refl, of m] by blast+
  have "snd (next_conns ?n p) = rotate (Suc (aggConnIdx p)) (aggregatorConnections p)"
    by (rule nth_equalityI) (simp_all add: e nth_rotate del: rotate_Suc)
  moreover have "fst (next_conns ?n p) = p"
    using e(2,3) [of ?n] assms by (intro conn_pool.equality) simp_all
  moreover have "aggConnIdx (fst (next_conns k p)) < ?n"
    unfolding e(2) using assms by (intro mod_less_divisor) linarith
  ultimately show ?thesis by blast
qed

section \<open>Properties\<close>

lemma spawn_failed_hangs:
  assumes steps: "(spawn_step spawn)\<^sup>*\<^sup>* (spawn_start services todo) st"
    and fail: "\<exists>s\<in>set todo. \<exists>err. spawn s = Inl err"
  shows "\<not> sp_returned st \<and> \<not> sp_closed st"
proof -
  have inv: "spawn_inv spawn todo st" by (rule spawn_inv_steps [OF steps])
  have "0 < length (filter (fails spawn) todo)"
    using fail unfolding length_greater_0_conv filter_empty_conv fails_def by blast
  moreover have "length (filter (fails spawn) (sp_pending st)) \<le> length (sp_pending st)"
    by (rule length_filter_le)
  ultimately have "0 < sp_wg st" using inv unfolding spawn_inv_def by linarith
  then show ?thesis using inv unfolding spawn_inv_def by auto
qed

lemma spawned_registered:
  assumes steps: "(spawn_step spawn)\<^sup>*\<^sup>* (spawn_start services todo) st" and ret: "sp_returned st"
    and ok: "\<forall>s\<in>set todo. \<exists>sc. spawn s = Inr sc"
  shows "\<forall>s\<in>set todo. map_of (sp_services st) (fst s) \<noteq> None"
proof -
  have inv: "spawn_inv spawn todo st" by (rule spawn_inv_steps [OF steps])
  have none: "\<not> fails spawn s" if "s \<in> set todo" for s using ok that by (auto simp: fails_def)
  then have "filter (fails spawn) todo = []" "filter (fails spawn) (sp_pending st) = []"
    using inv by (auto simp: filter_empty_conv spawn_inv_def)
  then have "sp_pending st = []" using inv ret unfolding spawn_inv_def by auto
  then show ?thesis using spawn_registered_steps [OF steps] none unfolding spawn_registered_def by auto
qed

lemma spawned_no_errors:
  assumes "(spawn_step spawn)\<^sup>*\<^sup>* (spawn_start services todo) st" and "\<forall>s\<in>set todo. \<exists>sc. spawn s = Inr sc"
  shows "sp_result st = []"
proof (rule ccontr)
  assume "sp_result st \<noteq> []"
  then obtain err where "err \<in> set (sp_result st)" by fastforce
  then show False using spawn_inv_steps [OF assms(1)] assms(2) unfolding spawn_inv_def by fastforce
qed

text \<open>
  C26. \<open>SpawnServices\<close>, whatever the order in which its goroutines run: when every service can be
  dialled it cannot block or run for ever, and it returns without error with every service
  registered; when one cannot, its goroutine never releases the wait group, so the error channel
  stays open and \<open>SpawnServices\<close> never returns.
\<close>

theorem spawn_services_return:
  assumes "(spawn_step spawn)\<^sup>*\<^sup>* (spawn_start services todo) st"
  shows "if \<exists>s\<in>set todo. \<exists>err. spawn s = Inl err
    then \<not> sp_returned st \<and> \<not> sp_closed st
    else wfP (spawn_step spawn)\<inverse>\<inverse> \<and>
      (\<not> sp_returned st \<longrightarrow> (\<exists>st'. spawn_step spawn st st')) \<and>
      (sp_returned st \<longrightarrow> sp_result st = [] \<and> (\<forall>s\<in>set todo. map_of (sp_services st) (fst s) \<noteq> None))"
proof (cases "\<exists>s\<in>set todo. \<exists>err. spawn s = Inl err")
  case True
  then show ?thesis using spawn_failed_hangs [OF assms] by simp
next
  case False
  then have ok: "\<forall>s\<in>set todo. \<exists>sc. spawn s = Inr sc" by (metis sum.exhaust)
  show ?thesis
    unfolding if_not_P [OF False]
    using spawn_ends.terminates spawn_progress [OF spawn_inv_steps [OF assms] ok] spawned_no_errors [OF assms ok]
      spawned_registered [OF assms _ ok] by blast
qed

theorem spawn_services_return_witness:
  "(\<exists>st. (spawn_step (\<lambda>s. Inl (SystemError ''x'') :: string service_error + nat))\<^sup>*\<^sup>* (spawn_start [] [(''a'', 10001)]) st \<and>
     sp_errCh st \<noteq> [] \<and> \<not> sp_returned st) \<and>
   (\<exists>st. (spawn_step (\<lambda>s. Inr 7 :: string service_error + nat))\<^sup>*\<^sup>* (spawn_start [] [(''a'', 10001)]) st \<and>
     sp_returned st \<and> map_of (sp_services st) ''a'' \<noteq> None)"
proof
  let ?bad = "\<lambda>s. Inl (SystemError ''x'') :: string service_error + nat"
  let ?st = "(spawn_start [] [(''a'', 10001)])\<lparr>sp_pending := [], sp_errCh := [SystemError ''x'']\<rparr>"
  have "spawn_step ?bad (spawn_start [] [(''a'', 10001)]) ?st"
    using spawn_step.down [of "(''a'', 10001)" "spawn_start [] [(''a'', 10001)]" ?bad "SystemError ''x''"]
    by (simp add: spawn_start_def)
  then have r: "(spawn_step ?bad)\<^sup>*\<^sup>* (spawn_start [] [(''a'', 10001)]) ?st" by (rule r_into_rtranclp)
  moreover have "\<not> sp_returned ?st" using spawn_services_return [OF r] by (simp add: spawn_start_def)
  ultimately show "\<exists>st. (spawn_step ?bad)\<^sup>*\<^sup>* (spawn_start [] [(''a'', 10001)]) st \<and> sp_errCh st \<noteq> [] \<and> \<not> sp_returned st"
    by (intro exI [of _ ?st]) simp
next
  let ?good = "\<lambda>s. Inr 7 :: string service_error + nat"
  let ?s0 = "spawn_start [] [(''a'', 10001)] :: (string, nat) spawning"
  let ?s1 = "?s0\<lparr>sp_pending := [], sp_wg := 0, sp_services := [(''a'', 7)]\<rparr>"
  let ?s2 = "?s1\<lparr>sp_closed := True\<rparr>"
  let ?s3 = "?s2\<lparr>sp_returned := True\<rparr>"
  have "spawn_step ?good ?s0 ?s1"
    using spawn_step.up [of "(''a'', 10001)" ?s0 ?good 7] by (simp add: spawn_start_def register_def)
  moreover have "spawn_step ?good ?s1 ?s2" by (rule spawn_step.close_errCh) (simp_all add: spawn_start_def)
  moreover have "spawn_step ?good ?s2 ?s3" by (rule spawn_step.return) (simp_all add: spawn_start_def)
  ultimately have r: "(spawn_step ?good)\<^sup>*\<^sup>* ?s0 ?s3"
    by (meson converse_rtranclp_into_rtranclp rtranclp.rtrancl_refl)
  moreover have "map_of (sp_services ?s3) ''a'' \<noteq> None"
    using spawn_services_return [OF r] by (simp add: spawn_start_def)
  ultimately show "\<exists>st. (spawn_step ?good)\<^sup>*\<^sup>* ?s0 st \<and> sp_returned st \<and> map_of (sp_services st) ''a'' \<noteq> None"
    by (intro exI [of _ ?s3]) simp
qed

end
