(* ===== verification/Fetchers.thy ===== *)
theory Fetchers
  imports Client
begin

text \<open>
  \<open>fetchers/\<close>: the data fetchers a worker reads a target with, and their registry. The deadline of
  the context, the HTTP client, the TCP dialer and the mapstructure decoder are arguments. What a
  fetcher returns beside an error is dropped by its caller, so the model drops it too.
\<close>

section \<open>Registry\<close>

record FetcherTask =
  ft_ID :: string
  ft_Period :: int
  ft_Target :: string

record 'e fetch_context =
  has_deadline :: bool
  http_get :: "string \<Rightarrow> 'e + int \<times> ('e + string)"
  dial_read :: "string \<Rightarrow> 'e + ('e + string)"

datatype 'e data_error =
    DecodeError 'e | MissingPort | NoDeadline | IoError 'e | NotAvailable string | ConfigType plugin_error

text \<open>A fetcher is what its \<open>Fetch\<close> does.\<close>

type_synonym 'e Fetcher = "'e fetch_context \<Rightarrow> FetcherTask \<Rightarrow> 'e data_error + string"
type_synonym 'e initializer = "PluginConfig \<Rightarrow> 'e data_error + 'e Fetcher"

definition fetcher_Register :: "string \<Rightarrow> 'e initializer \<Rightarrow> (string, 'e initializer) gomap \<Rightarrow>
    (string, 'e initializer) gomap" where
  "fetcher_Register name f fetchers = AList.update name f fetchers"

definition NewFetcher :: "(string, 'e initializer) gomap \<Rightarrow> string \<Rightarrow> PluginConfig \<Rightarrow> 'e data_error + 'e Fetcher" where
  "NewFetcher fetchers name cfg =
     (case map_of fetchers name of
        None \<Rightarrow> Inl (NotAvailable name)
      | Some init \<Rightarrow> init cfg)"

section \<open>HTTP\<close>

record httpFetcher =
  hf_Port :: int
  hf_URI :: string

definition http_data_Fetch :: "httpFetcher \<Rightarrow> 'e Fetcher" where
  "http_data_Fetch t ctx task =
     (if \<not> has_deadline ctx then Inl NoDeadline
      else
        let url = ''http://'' @ ft_Target task @ '':'' @ Itoa (hf_Port t) @ hf_URI t in
        case http_get ctx url of
          Inl err \<Rightarrow> Inl (IoError err)
        | Inr (status, body) \<Rightarrow> map_sum IoError (\<lambda>b. b) body)"

definition NewHTTPFetcher :: "(PluginConfig \<Rightarrow> 'e + httpFetcher) \<Rightarrow> 'e initializer" where
  "NewHTTPFetcher decode cfg =
     (case decode cfg of
        Inl err \<Rightarrow> Inl (DecodeError err)
      | Inr fetcher \<Rightarrow>
          let fetcher = (if hf_URI fetcher = [] then fetcher\<lparr>hf_URI := ''/''\<rparr> else fetcher)
          in if hf_Port fetcher = 0 then Inl MissingPort else Inr (http_data_Fetch fetcher))"

section \<open>timetail\<close>

record timetailFetcher =
  tt_Port :: int
  tt_URL :: string
  tt_Logname :: string

definition timetail_Fetch :: "timetailFetcher \<Rightarrow> 'e Fetcher" where
  "timetail_Fetch t ctx task =
     (let url = ''http://'' @ ft_Target task @ '':'' @ Itoa (tt_Port t) @ tt_URL t @ tt_Logname t @
            ''&time='' @ Itoa (ft_Period task)
      in if \<not> has_deadline ctx then Inl NoDeadline
      else
        case http_get ctx url of
          Inl err \<Rightarrow> Inl (IoError err)
        | Inr (status, body) \<Rightarrow> map_sum IoError (\<lambda>b. b) body)"

definition NewTimetailFetcher :: "(PluginConfig \<Rightarrow> 'e + timetailFetcher) \<Rightarrow> 'e initializer" where
  "NewTimetailFetcher decode cfg =
     (case decode cfg of
        Inl err \<Rightarrow> Inl (DecodeError err)
      | Inr fetcher \<Rightarrow> if tt_Port fetcher = 0 then Inl MissingPort else Inr (timetail_Fetch fetcher))"

section \<open>Raw TCP\<close>

record tcpSocketFetcher =
  ts_Port :: string

definition tcp_Fetch :: "tcpSocketFetcher \<Rightarrow> 'e Fetcher" where
  "tcp_Fetch t ctx task =
     (let address = JoinHostPort (ft_Target task) (ts_Port t)
      in if \<not> has_deadline ctx then Inl NoDeadline
      else
        case dial_read ctx address of
          Inl err \<Rightarrow> Inl (IoError err)
        | Inr data \<Rightarrow> map_sum IoError (\<lambda>b. b) data)"

definition NewTCPSocketFetcher :: "(PluginConfig \<Rightarrow> 'e + tcpSocketFetcher) \<Rightarrow> 'e initializer" where
  "NewTCPSocketFetcher decode cfg =
     (case decode cfg of
        Inl err \<Rightarrow> Inl (DecodeError err)
      | Inr f \<Rightarrow> if ts_Port f = [] then Inl MissingPort else Inr (tcp_Fetch f))"

definition fetchers_init :: "(PluginConfig \<Rightarrow> 'e + httpFetcher) \<Rightarrow> (PluginConfig \<Rightarrow> 'e + tcpSocketFetcher) \<Rightarrow>
    (PluginConfig \<Rightarrow> 'e + timetailFetcher) \<Rightarrow> (string, 'e initializer) gomap" where
  "fetchers_init dhttp dtcp dtail =
     fetcher_Register ''timetail'' (NewTimetailFetcher dtail)
       (fetcher_Register ''tcpsocket'' (NewTCPSocketFetcher dtcp)
         (fetcher_Register ''http'' (NewHTTPFetcher dhttp) []))"

lemma fetchers_init_names: "dom (map_of (fetchers_init dhttp dtcp dtail)) = {''http'', ''tcpsocket'', ''timetail''}"
  by (auto simp: fetchers_init_def fetcher_Register_def)

text \<open>No fetcher reads anything without a deadline.\<close>

lemma fetch_needs_deadline:
  assumes "NewFetcher (fetchers_init dhttp dtcp dtail) name cfg = Inr f" and "\<not> has_deadline ctx"
  shows "f ctx task = Inl NoDeadline"
proof -
  have "http_data_Fetch h ctx task = Inl NoDeadline" "tcp_Fetch s ctx task = Inl NoDeadline"
    "timetail_Fetch l ctx task = Inl NoDeadline" for h s l
    using assms(2) by (simp_all add: http_data_Fetch_def tcp_Fetch_def timetail_Fetch_def Let_def)
  then show ?thesis using assms(1)
    by (auto simp: NewFetcher_def fetchers_init_def fetcher_Register_def NewHTTPFetcher_def NewTCPSocketFetcher_def
        NewTimetailFetcher_def Let_def split: if_splits sum.splits)
qed

end
