(* ===== verification/Parsing.thy ===== *)
theory Parsing
  imports Fetchers
begin

text \<open>
  \<open>worker/parsing.go\<close> and \<open>worker/tasksextramethods.go\<close>: a worker fetches the data of one target
  and has every section of every aggregation config compute its part of it. The aggregator service, a
  separate process, and the msgpack codec are arguments. The requests of the sections run
  concurrently; the result map is filled in the order in which the answers arrive, a permutation code.
\<close>

section \<open>Requests\<close>

record AggregatorTask =
  ag_Id :: string
  ag_Frame :: "TimeFrame option"
  ag_Config :: string
  ag_Meta :: "(string, string) gomap"

record AggregateHostRequest =
  hr_Task :: AggregatorTask
  hr_ClassName :: string
  hr_Payload :: string

record 'e worker_env =
  w_unpackParsing :: "string \<Rightarrow> ParsingConfig"
  w_unpackAggregations :: "string \<Rightarrow> (string, AggregationConfig) gomap"
  w_unpackAggregation :: "string \<Rightarrow> AggregationConfig"
  w_unpackHosts :: "string \<Rightarrow> Hosts"
  w_Pack :: "PluginConfig \<Rightarrow> 'e + string"
  w_fetchers :: "(string, 'e initializer) gomap"
  w_ctx :: "'e fetch_context"

definition GetParsingConfig_task :: "'e worker_env \<Rightarrow> ParsingTask \<Rightarrow> ParsingConfig" where
  "GetParsingConfig_task env t = w_unpackParsing env (pt_EncodedParsingConfig t)"

definition GetAggregationConfigs_task :: "'e worker_env \<Rightarrow> ParsingTask \<Rightarrow> (string, AggregationConfig) gomap" where
  "GetAggregationConfigs_task env t = w_unpackAggregations env (pt_EncodedAggregationConfigs t)"

definition GetParsingConfig_agg :: "'e worker_env \<Rightarrow> AggregatingTask \<Rightarrow> ParsingConfig" where
  "GetParsingConfig_agg env t = w_unpackParsing env (at_EncodedParsingConfig t)"

definition GetAggregationConfig_agg :: "'e worker_env \<Rightarrow> AggregatingTask \<Rightarrow> AggregationConfig" where
  "GetAggregationConfig_agg env t = w_unpackAggregation env (at_EncodedAggregationConfig t)"

definition GetHosts_agg :: "'e worker_env \<Rightarrow> AggregatingTask \<Rightarrow> Hosts" where
  "GetHosts_agg env t = w_unpackHosts env (at_EncodedHosts t)"

section \<open>Fetching and parsing\<close>

definition fetchDataFromTarget :: "'e worker_env \<Rightarrow> ParsingTask \<Rightarrow> 'e data_error + string" where
  "fetchDataFromTarget env task =
     (let parsingConfig = GetParsingConfig_task env task in
      case PluginConfig_Type (pc_DataFetcher parsingConfig) of
        Inl err \<Rightarrow> Inl (ConfigType err)
      | Inr fetcherType \<Rightarrow> (case NewFetcher (w_fetchers env) fetcherType (pc_DataFetcher parsingConfig) of
          Inl err \<Rightarrow> Inl err
        | Inr fetcher \<Rightarrow>
            fetcher (w_ctx env) \<lparr>ft_ID = pt_Id task,
              ft_Period = tf_Current (pt_Frame task) - tf_Previous (pt_Frame task),
              ft_Target = pt_Host task\<rparr>))"

text \<open>One goroutine, up to its call of the aggregator: the key of its result and its request.\<close>

definition host_request :: "'e worker_env \<Rightarrow> ParsingTask \<Rightarrow> string \<Rightarrow> string \<times> PluginConfig \<Rightarrow>
    (string \<times> AggregateHostRequest) option" where
  "host_request env task blob = (\<lambda>(k, v).
     (case PluginConfig_Type v of
        Inl err \<Rightarrow> None
      | Inr aggType \<Rightarrow> (case PluginConfig_Class v of
          Inl err \<Rightarrow> None
        | Inr aggClass \<Rightarrow> (case w_Pack env v of
            Inl err \<Rightarrow> None
          | Inr encodedCfg \<Rightarrow>
              Some (pt_Host task @ '';'' @ k,
                \<lparr>hr_Task = \<lparr>ag_Id = pt_Id task, ag_Frame = Some (pt_Frame task), ag_Config = encodedCfg,
                   ag_Meta = [(''host'', pt_Host task), (''key'', k)]\<rparr>,
                 hr_ClassName = aggClass, hr_Payload = blob\<rparr>)))))"

definition section_result :: "'e worker_env \<Rightarrow> (AggregateHostRequest \<Rightarrow> 'e + string) \<Rightarrow> ParsingTask \<Rightarrow> string \<Rightarrow>
    string \<times> PluginConfig \<Rightarrow> (string \<times> string) list" where
  "section_result env AggregateHost task blob kv =
     (case host_request env task blob kv of
        None \<Rightarrow> []
      | Some (key, req) \<Rightarrow> (case AggregateHost req of Inl err \<Rightarrow> [] | Inr res \<Rightarrow> [(key, res)]))"

definition DoParsing :: "'e worker_env \<Rightarrow> (AggregateHostRequest \<Rightarrow> 'e + string) \<Rightarrow> nat list \<Rightarrow> ParsingTask \<Rightarrow>
    'e data_error + (string, string) gomap" where
  "DoParsing env AggregateHost arrival task =
     (case fetchDataFromTarget env task of
        Inl err \<Rightarrow> Inl err
      | Inr blob \<Rightarrow>
          let sections = concat (map (\<lambda>(name, aggCfg). ac_Data aggCfg) (GetAggregationConfigs_task env task));
              items = concat (map (section_result env AggregateHost task blob) sections)
          in Inr (fold (\<lambda>(key, res) m. AList.update key res m) (shuffle arrival items) []))"

section \<open>Lemmas\<close>

text \<open>All sections of all aggregation configs of a task.\<close>

definition task_sections :: "'e worker_env \<Rightarrow> ParsingTask \<Rightarrow> (string \<times> PluginConfig) set" where
  "task_sections env task = (\<Union>(name, cfg)\<in>set (GetAggregationConfigs_task env task). set (ac_Data cfg))"

lemma fold_update_go_map: "go_map m \<Longrightarrow> go_map (fold (\<lambda>(k, v) m. AList.update k v m) kvs m)"
  by (induction kvs arbitrary: m) auto

lemma fold_update_dom:
  "dom (map_of (fold (\<lambda>(k, v) m. AList.update k v m) kvs m)) = fst ` set kvs \<union> dom (map_of m)"
  by (induction kvs arbitrary: m) (auto simp: image_iff)

lemma fold_update_value:
  "map_of (fold (\<lambda>(k, v) m. AList.update k v m) kvs m) k = Some v \<Longrightarrow> (k, v) \<in> set kvs \<or> map_of m k = Some v"
proof (induction kvs arbitrary: m)
  case (Cons kv kvs)
  obtain k' v' where kv: "kv = (k', v')" by fastforce
  have "(k, v) \<in> set kvs \<or> map_of (AList.update k' v' m) k = Some v"
    using Cons.IH [of "AList.update k' v' m"] Cons.prems kv by simp
  then show ?case using kv by (auto split: if_splits)
qed simp

lemma section_result_iff:
  "(key, res) \<in> set (section_result env agg task blob (k, v)) \<longleftrightarrow>
    key = pt_Host task @ '';'' @ k \<and> (\<exists>req. host_request env task blob (k, v) = Some (key, req) \<and> agg req = Inr res)"
  by (auto simp: section_result_def host_request_def split: option.splits sum.splits)

text \<open>A section key determines the key of its result, and distinct sections have distinct keys.\<close>

lemma result_key_inject: "h @ '';'' @ k = h @ '';'' @ k' \<longleftrightarrow> k = k'"
  by simp

lemma host_key_inject:
  "CHR '';'' \<notin> set h \<Longrightarrow> CHR '';'' \<notin> set h' \<Longrightarrow> h @ '';'' @ k = h' @ '';'' @ k' \<longleftrightarrow> h = h' \<and> k = k'"
proof (induction h arbitrary: h')
  case Nil
  then show ?case by (cases h') auto
next
  case (Cons c h)
  then show ?case by (cases h') auto
qed

lemma DoParsing_Inr:
  assumes "DoParsing env agg arrival task = Inr m"
  obtains blob where "fetchDataFromTarget env task = Inr blob" and "go_map m"
    and "\<And>key. key \<in> dom (map_of m) \<longleftrightarrow> (\<exists>kv\<in>task_sections env task. \<exists>res. (key, res) \<in> set (section_result env agg task blob kv))"
    and "\<And>key res. map_of m key = Some res \<Longrightarrow> \<exists>kv\<in>task_sections env task. (key, res) \<in> set (section_result env agg task blob kv)"
proof -
  obtain blob where blob: "fetchDataFromTarget env task = Inr blob"
    using assms by (auto simp: DoParsing_def split: sum.splits)
  define items where "items = shuffle arrival (concat (map (section_result env agg task blob)
    (concat (map (\<lambda>(name, aggCfg). ac_Data aggCfg) (GetAggregationConfigs_task env task)))))"
  have m: "m = fold (\<lambda>(key, res) m. AList.update key res m) items []"
    using assms blob by (simp add: DoParsing_def items_def Let_def)
  have s: "set items = (\<Union>kv\<in>task_sections env task. set (section_result env agg task blob kv))"
    by (auto simp: items_def task_sections_def)
  show ?thesis
  proof
    show "go_map m" unfolding m by (rule fold_update_go_map) simp
    show "key \<in> dom (map_of m) \<longleftrightarrow> (\<exists>kv\<in>task_sections env task. \<exists>res. (key, res) \<in> set (section_result env agg task blob kv))" for key
      unfolding m fold_update_dom s by force
    show "\<exists>kv\<in>task_sections env task. (key, res) \<in> set (section_result env agg task blob kv)"
      if "map_of m key = Some res" for key res
      using fold_update_value [OF that [unfolded m]] by (auto simp: s)
  qed (rule blob)
qed


section \<open>The result of parsing\<close>

text \<open>
  C23. The result of parsing a target holds one entry for every section of the aggregation configs
  whose type, class and packed config can be had and whose aggregator call succeeds, under the key
  host;section, and nothing else; the value is an answer the aggregator gave for such a section. In
  particular the order in which the answers arrive matters only between sections of the same name.
\<close>

theorem parsing_result_sections:
  assumes "DoParsing env agg arrival task = Inr m"
  shows "go_map m \<and> (\<exists>blob. fetchDataFromTarget env task = Inr blob \<and>
    dom (map_of m) = {pt_Host task @ '';'' @ k |k. \<exists>v req r. (k, v) \<in> task_sections env task \<and>
      host_request env task blob (k, v) = Some (pt_Host task @ '';'' @ k, req) \<and> agg req = Inr r} \<and>
    (\<forall>k r. map_of m (pt_Host task @ '';'' @ k) = Some r \<longrightarrow>
      (\<exists>v req. (k, v) \<in> task_sections env task \<and>
        host_request env task blob (k, v) = Some (pt_Host task @ '';'' @ k, req) \<and> agg req = Inr r)))"
proof -
  obtain blob where blob: "fetchDataFromTarget env task = Inr blob" and go: "go_map m"
    and d: "\<And>key. key \<in> dom (map_of m) \<longleftrightarrow> (\<exists>kv\<in>task_sections env task. \<exists>res. (key, res) \<in> set (section_result env agg task blob kv))"
    and v: "\<And>key res. map_of m key = Some res \<Longrightarrow> \<exists>kv\<in>task_sections env task. (key, res) \<in> set (section_result env agg task blob kv)"
    using DoParsing_Inr [OF assms] by blast
  have "\<exists>v req. (k, v) \<in> task_sections env task \<and>
      host_request env task blob (k, v) = Some (pt_Host task @ '';'' @ k, req) \<and> agg req = Inr r"
    if kr: "map_of m (pt_Host task @ '';'' @ k) = Some r" for k r
  proof -
    obtain k' v' where kv: "(k', v') \<in> task_sections env task"
      "(pt_Host task @ '';'' @ k, r) \<in> set (section_result env agg task blob (k', v'))"
      using v [OF kr] by (metis surj_pair)
    have "k' = k" using kv(2) unfolding section_result_iff by simp
    then show ?thesis using kv unfolding section_result_iff by blast
  qed
  moreover have "dom (map_of m) = {pt_Host task @ '';'' @ k |k. \<exists>v req r. (k, v) \<in> task_sections env task \<and>
      host_request env task blob (k, v) = Some (pt_Host task @ '';'' @ k, req) \<and> agg req = Inr r}" (is "_ = ?R")
  proof (intro equalityI subsetI)
    fix key assume "key \<in> dom (map_of m)"
    then obtain k v res where "(k, v) \<in> task_sections env task" "(key, res) \<in> set (section_result env agg task blob (k, v))"
      using d by (metis surj_pair)
    then show "key \<in> ?R" unfolding section_result_iff by blast
  next
    fix key assume "key \<in> ?R"
    then obtain k v req r where k: "key = pt_Host task @ '';'' @ k" "(k, v) \<in> task_sections env task"
      "host_request env task blob (k, v) = Some (key, req)" "agg req = Inr r" by blast
    then have "(key, r) \<in> set (section_result env agg task blob (k, v))" unfolding section_result_iff by blast
    then show "key \<in> dom (map_of m)" unfolding d using k(2) by blast
  qed
  ultimately show ?thesis by (intro conjI go exI [of _ blob] allI impI blob)
qed

definition sample_plugin :: "string \<Rightarrow> PluginConfig" where
  "sample_plugin cls = Some [(''type'', VString ''custom''), (''class'', VString cls)]"

definition sample_aggregation :: AggregationConfig where
  "sample_aggregation = \<lparr>ac_Data = [(''cpu'', sample_plugin ''Cpu''), (''bad'', None)], ac_Senders = []\<rparr>"

definition sample_parsing :: ParsingConfig where
  "sample_parsing = \<lparr>pc_Groups = [], pc_AggConfigs = [], pc_DataFetcher = Some [(''type'', VString ''http'')],
     pc_Metahost = ''all'', pc_MainSection = sample_main, pc_HostFetcher = None\<rparr>"

definition sample_worker_env :: "string worker_env" where
  "sample_worker_env = \<lparr>w_unpackParsing = \<lambda>b. sample_parsing, w_unpackAggregations = \<lambda>b. [(''a'', sample_aggregation)],
     w_unpackAggregation = \<lambda>b. sample_aggregation, w_unpackHosts = \<lambda>b. [(''dc'', [''h'', ''g''])],
     w_Pack = \<lambda>c. Inr ''packed'', w_fetchers = [(''http'', \<lambda>c. Inr (\<lambda>ctx t. Inr (ft_Target t)))],
     w_ctx = \<lparr>has_deadline = True, http_get = \<lambda>u. Inl [], dial_read = \<lambda>a. Inl []\<rparr>\<rparr>"

theorem parsing_result_sections_witness:
  "\<exists>m. DoParsing sample_worker_env (\<lambda>req. Inr (hr_Payload req) :: string + string) [] sample_task = Inr m \<and>
     dom (map_of m) = {''h;cpu''}"
proof -
  have "DoParsing sample_worker_env (\<lambda>req. Inr (hr_Payload req) :: string + string) [] sample_task = Inr [(''h;cpu'', ''h'')]"
    by (simp add: DoParsing_def fetchDataFromTarget_def GetParsingConfig_task_def GetAggregationConfigs_task_def
        sample_worker_env_def sample_parsing_def sample_aggregation_def sample_plugin_def sample_task_def NewFetcher_def
        section_result_def host_request_def PluginConfig_Type_def PluginConfig_Class_def plugin_get_def text_value_def
        typeKey_def classKey_def)
  from this parsing_result_sections [OF this] show ?thesis
    by (auto simp: sample_task_def)
qed

end
