(* ===== verification/Aggregating.thy ===== *)
theory Aggregating
  imports Parsing
begin

text \<open>
  \<open>worker/aggregating.go\<close> and \<open>worker/sending.go\<close>: a worker takes the data of all targets of an
  iteration, asks the aggregator for the results of single hosts, of data centres and of the whole
  group, and passes them to the senders. The aggregator and the senders are other processes: the first
  is an argument, of the second the model gives the requests they receive. Map iteration orders and
  the order in which results arrive are permutation codes.
\<close>

section \<open>Sending\<close>

record AggregationResult =
  ar_Tags :: "(string, string) gomap"
  ar_Result :: string

record SenderRequest =
  sr_Id :: string
  sr_PrevTime :: int
  sr_CurrTime :: int
  sr_Config :: string
  sr_Data :: "AggregationResult list"

text \<open>The loop over the sender sections; \<open>services\<close> are the clients of the spawned senders.\<close>

fun send_loop :: "'e worker_env \<Rightarrow> (string, 'c) gomap \<Rightarrow> string \<Rightarrow> AggregatingTask \<Rightarrow>
    (string, PluginConfig) gomap \<Rightarrow> AggregationResult list \<Rightarrow> string list \<Rightarrow> gopanic + ('c \<times> SenderRequest) list" where
  "send_loop env services meta task sCfgs payload [] = Inr []"
| "send_loop env services meta task sCfgs payload (name # names) =
     (let conf = lookup_zero None sCfgs name in
      bind_sum
        (if plugin_get conf ''Host'' = None then
           (case conf of
              None \<Rightarrow> Inl AssignmentToNilMap
            | Some m \<Rightarrow> Inr (Some (AList.update ''Host'' (VString meta) m)))
         else Inr conf)
        (\<lambda>conf.
          case PluginConfig_Type conf of
            Inl err \<Rightarrow> send_loop env services meta task sCfgs payload names
          | Inr senderType \<Rightarrow> (case map_of services senderType of
              None \<Rightarrow> send_loop env services meta task sCfgs payload names
            | Some sc \<Rightarrow>
                let encodedConf = (case w_Pack env conf of Inl err \<Rightarrow> [] | Inr b \<Rightarrow> b);
                    req = \<lparr>sr_Id = at_Id task, sr_PrevTime = tf_Previous (at_Frame task),
                      sr_CurrTime = tf_Current (at_Frame task), sr_Config = encodedConf, sr_Data = payload\<rparr>
                in map_sum (\<lambda>e. e) (\<lambda>sent. (sc, req) # sent) (send_loop env services meta task sCfgs payload names))))"

definition DoSending :: "'e worker_env \<Rightarrow> (string, 'c) gomap \<Rightarrow> nat list \<Rightarrow> string \<Rightarrow> AggregatingTask \<Rightarrow>
    (string, PluginConfig) gomap \<Rightarrow> AggregationResult list \<Rightarrow> gopanic + ('c \<times> SenderRequest) list" where
  "DoSending env services sord meta task sCfgs payload =
     send_loop env services meta task sCfgs payload (range_keys sord sCfgs)"

section \<open>Aggregating\<close>

record AggregateGroupRequest =
  gr_Task :: AggregatorTask
  gr_ClassName :: string
  gr_Payload :: "string list"

definition group_request :: "AggregatingTask \<Rightarrow> string \<Rightarrow> string \<Rightarrow> string \<Rightarrow> string \<Rightarrow> string \<Rightarrow> string \<Rightarrow>
    string list \<Rightarrow> AggregateGroupRequest" where
  "group_request task encodedCfg aggClass aggregate meta kind name payload =
     \<lparr>gr_Task = \<lparr>ag_Id = at_Id task, ag_Frame = None, ag_Config = encodedCfg,
        ag_Meta = [(''type'', kind), (''aggregate'', aggregate), (''name'', name), (''metahost'', meta)]\<rparr>,
      gr_ClassName = aggClass, gr_Payload = payload\<rparr>"

text \<open>\<open>mk kind name payload\<close> is the request; the accumulators are those of the code.\<close>

fun host_loop :: "(string \<Rightarrow> string \<Rightarrow> string list \<Rightarrow> AggregateGroupRequest) \<Rightarrow> PluginConfig \<Rightarrow> string \<Rightarrow>
    (string, string) gomap \<Rightarrow> string list \<Rightarrow> string list \<times> string list \<times> AggregateGroupRequest list \<Rightarrow>
    string list \<times> string list \<times> AggregateGroupRequest list" where
  "host_loop mk cfg name parsed [] (agg, sub, reqs) = (agg, sub, reqs)"
| "host_loop mk cfg name parsed (host # hosts) (agg, sub, reqs) =
     (case map_of parsed (host @ '';'' @ name) of
        None \<Rightarrow> host_loop mk cfg name parsed hosts (agg, sub, reqs)
      | Some data \<Rightarrow> host_loop mk cfg name parsed hosts (agg @ [data], sub @ [data],
          (case PluginConfig_GetBool cfg ''perHost'' of
             Inl err \<Rightarrow> reqs
           | Inr perHost \<Rightarrow> if \<not> perHost then reqs else reqs @ [mk ''host'' host [data]])))"

fun dc_loop :: "(string \<Rightarrow> string \<Rightarrow> string list \<Rightarrow> AggregateGroupRequest) \<Rightarrow> PluginConfig \<Rightarrow> string \<Rightarrow>
    (string, string) gomap \<Rightarrow> Hosts \<Rightarrow> string list \<Rightarrow> string list \<times> AggregateGroupRequest list \<Rightarrow>
    string list \<times> AggregateGroupRequest list" where
  "dc_loop mk cfg name parsed hs [] (agg, reqs) = (agg, reqs)"
| "dc_loop mk cfg name parsed hs (subGroup # groups) (agg, reqs) =
     (case host_loop mk cfg name parsed (lookup_zero [] hs subGroup) (agg, [], reqs) of (agg, sub, reqs) \<Rightarrow>
        if sub = [] then dc_loop mk cfg name parsed hs groups (agg, reqs)
        else if PluginConfig_GetBool cfg ''skipPerDatacenter'' = Inr True
        then dc_loop mk cfg name parsed hs groups (agg, reqs)
        else dc_loop mk cfg name parsed hs groups (agg, reqs @ [mk ''datacenter'' subGroup sub]))"

definition section_requests :: "'e worker_env \<Rightarrow> AggregatingTask \<Rightarrow> string \<Rightarrow> Hosts \<Rightarrow> nat list \<Rightarrow> string \<Rightarrow> PluginConfig \<Rightarrow>
    AggregateGroupRequest list" where
  "section_requests env task meta hs hord name cfg =
     (case w_Pack env cfg of
        Inl err \<Rightarrow> []
      | Inr encodedCfg \<Rightarrow> (case PluginConfig_Type cfg of
          Inl err \<Rightarrow> []
        | Inr aggType \<Rightarrow> (case PluginConfig_Class cfg of
            Inl err \<Rightarrow> []
          | Inr aggClass \<Rightarrow>
              let mk = group_request task encodedCfg aggClass name meta in
              (case dc_loop mk cfg name (at_ParsingResult task) hs (range_keys hord hs) ([], []) of (agg, reqs) \<Rightarrow>
                 if agg = [] then reqs else reqs @ [mk ''metahost'' meta agg]))))"

definition DoAggregating :: "'e worker_env \<Rightarrow> (AggregateGroupRequest \<Rightarrow> 'e + string) \<Rightarrow> (string, 'c) gomap \<Rightarrow>
    nat list \<Rightarrow> (string \<Rightarrow> nat list) \<Rightarrow> nat list \<Rightarrow> nat list \<Rightarrow> AggregatingTask \<Rightarrow> gopanic + ('c \<times> SenderRequest) list" where
  "DoAggregating env AggregateGroup services dord hord arrival sord task =
     (let parsingConfig = GetParsingConfig_agg env task;
          aggregationConfig = GetAggregationConfig_agg env task;
          hs = GetHosts_agg env task;
          meta = pc_Metahost parsingConfig;
          reqs = concat (map (\<lambda>name. section_requests env task meta hs (hord name) name
                   (lookup_zero None (ac_Data aggregationConfig) name)) (range_keys dord (ac_Data aggregationConfig)));
          results = concat (map (\<lambda>r. case AggregateGroup r of Inl err \<Rightarrow> []
                     | Inr res \<Rightarrow> [\<lparr>ar_Tags = ag_Meta (gr_Task r), ar_Result = res\<rparr>]) reqs)
      in DoSending env services sord meta task (ac_Senders aggregationConfig) (shuffle arrival results))"

section \<open>Lemmas on requests\<close>

text \<open>The data collected from some hosts for a section, in order.\<close>

definition host_data :: "(string, string) gomap \<Rightarrow> string \<Rightarrow> string \<Rightarrow> string list" where
  "host_data parsed name host = (case map_of parsed (host @ '';'' @ name) of None \<Rightarrow> [] | Some d \<Rightarrow> [d])"

definition hosts_data :: "(string, string) gomap \<Rightarrow> string \<Rightarrow> string list \<Rightarrow> string list" where
  "hosts_data parsed name hosts = concat (map (host_data parsed name) hosts)"

definition host_requests :: "(string \<Rightarrow> string \<Rightarrow> string list \<Rightarrow> AggregateGroupRequest) \<Rightarrow> PluginConfig \<Rightarrow>
    (string, string) gomap \<Rightarrow> string \<Rightarrow> string list \<Rightarrow> AggregateGroupRequest list" where
  "host_requests mk cfg parsed name hosts =
     (if PluginConfig_GetBool cfg ''perHost'' = Inr True
      then concat (map (\<lambda>h. map (\<lambda>d. mk ''host'' h [d]) (host_data parsed name h)) hosts) else [])"

lemma host_loop_eq:
  "host_loop mk cfg name parsed hosts (agg, sub, reqs) =
    (agg @ hosts_data parsed name hosts, sub @ hosts_data parsed name hosts,
     reqs @ host_requests mk cfg parsed name hosts)"
proof (induction hosts arbitrary: agg sub reqs)
  case (Cons h hosts)
  then show ?case
    by (auto simp: hosts_data_def host_data_def host_requests_def split: option.split sum.split)
qed (simp add: hosts_data_def host_requests_def)

definition dc_requests :: "(string \<Rightarrow> string \<Rightarrow> string list \<Rightarrow> AggregateGroupRequest) \<Rightarrow> PluginConfig \<Rightarrow>
    (string, string) gomap \<Rightarrow> string \<Rightarrow> Hosts \<Rightarrow> string \<Rightarrow> AggregateGroupRequest list" where
  "dc_requests mk cfg parsed name hs dc =
     (let payload = hosts_data parsed name (lookup_zero [] hs dc) in
      if payload = [] \<or> PluginConfig_GetBool cfg ''skipPerDatacenter'' = Inr True then []
      else [mk ''datacenter'' dc payload])"

lemma dc_loop_eq:
  "dc_loop mk cfg name parsed hs dcs (agg, reqs) =
    (agg @ concat (map (\<lambda>dc. hosts_data parsed name (lookup_zero [] hs dc)) dcs),
     reqs @ concat (map (\<lambda>dc. host_requests mk cfg parsed name (lookup_zero [] hs dc) @
       dc_requests mk cfg parsed name hs dc) dcs))"
  by (induction dcs arbitrary: agg reqs) (simp_all add: host_loop_eq dc_requests_def Let_def)

definition kind_of :: "AggregateGroupRequest \<Rightarrow> string option" where
  "kind_of r = map_of (ag_Meta (gr_Task r)) ''type''"

definition name_of :: "AggregateGroupRequest \<Rightarrow> string option" where
  "name_of r = map_of (ag_Meta (gr_Task r)) ''name''"

lemma group_request_fields [simp]:
  "kind_of (group_request task enc cls a meta kind name payload) = Some kind"
  "name_of (group_request task enc cls a meta kind name payload) = Some name"
  "gr_Payload (group_request task enc cls a meta kind name payload) = payload"
  by (simp_all add: kind_of_def name_of_def group_request_def)

lemma filter_host_requests:
  "filter (\<lambda>r. kind_of r = Some k) (host_requests (group_request task enc cls a meta) cfg parsed name hosts) =
    (if k = ''host'' then host_requests (group_request task enc cls a meta) cfg parsed name hosts else [])"
  by (auto simp: host_requests_def filter_empty_conv intro!: filter_True)

lemma filter_dc_requests:
  "filter (\<lambda>r. kind_of r = Some k) (dc_requests (group_request task enc cls a meta) cfg parsed name hs dc) =
    (if k = ''datacenter'' then dc_requests (group_request task enc cls a meta) cfg parsed name hs dc else [])"
  by (simp add: dc_requests_def Let_def)

lemma concat_map_concat: "concat (map (\<lambda>dc. hosts_data parsed name (f dc)) dcs) = hosts_data parsed name (concat (map f dcs))"
  by (induction dcs) (simp_all add: hosts_data_def)

lemma section_requests_eq:
  assumes "w_Pack env cfg = Inr enc" "PluginConfig_Type cfg = Inr t" "PluginConfig_Class cfg = Inr cls"
  shows "section_requests env task meta hs hord name cfg =
    (let mk = group_request task enc cls name meta; parsed = at_ParsingResult task;
         payload = hosts_data parsed name (AllHosts hord my hs) in
     concat (map (\<lambda>dc. host_requests mk cfg parsed name (lookup_zero [] hs dc) @
       dc_requests mk cfg parsed name hs dc) (range_keys hord hs)) @
     (if payload = [] then [] else [mk ''metahost'' meta payload]))"
  using assms by (simp add: section_requests_def dc_loop_eq Let_def AllHosts_def getHosts_def concat_map_concat)

lemma concat_concat: "concat (concat xss) = concat (map concat xss)"
  by (induction xss) auto

lemma concat_if_filter:
  "concat (map (\<lambda>dc. if P dc then [] else [g dc]) dcs) = map g (filter (\<lambda>dc. \<not> P dc) dcs)"
  by (induction dcs) auto

section \<open>Lemmas on sending\<close>

definition with_host :: "string \<Rightarrow> (string, val) gomap \<Rightarrow> (string, val) gomap" where
  "with_host meta m = (if map_of m ''Host'' = None then AList.update ''Host'' (VString meta) m else m)"

text \<open>What one sender section sends, if anything.\<close>

definition section_sends :: "'e worker_env \<Rightarrow> (string, 'c) gomap \<Rightarrow> string \<Rightarrow> AggregatingTask \<Rightarrow> AggregationResult list \<Rightarrow>
    (string, val) gomap \<Rightarrow> ('c \<times> SenderRequest) list" where
  "section_sends env services meta task payload m =
     (case PluginConfig_Type (Some m) of
        Inl err \<Rightarrow> []
      | Inr t \<Rightarrow> (case map_of services t of
          None \<Rightarrow> []
        | Some sc \<Rightarrow>
            [(sc, \<lparr>sr_Id = at_Id task, sr_PrevTime = tf_Previous (at_Frame task), sr_CurrTime = tf_Current (at_Frame task),
               sr_Config = (case w_Pack env (Some (with_host meta m)) of Inl err \<Rightarrow> [] | Inr b \<Rightarrow> b),
               sr_Data = payload\<rparr>)]))"

lemma Type_with_host: "PluginConfig_Type (Some (with_host meta m)) = PluginConfig_Type (Some m)"
  by (simp add: PluginConfig_Type_def plugin_get_def with_host_def typeKey_def)

lemma send_loop_nil_section:
  "\<exists>name\<in>set names. lookup_zero None sCfgs name = None \<Longrightarrow>
    send_loop env services meta task sCfgs payload names = Inl AssignmentToNilMap"
proof (induction names)
  case (Cons name names)
  show ?case
  proof (cases "lookup_zero None sCfgs name")
    case None
    then show ?thesis by (simp add: plugin_get_def)
  next
    case (Some m)
    then have IH: "send_loop env services meta task sCfgs payload names = Inl AssignmentToNilMap"
      using Cons by auto
    show ?thesis by (simp add: Some IH Let_def plugin_get_def split: sum.split option.split)
  qed
qed simp

lemma send_loop_sections:
  "\<forall>name\<in>set names. lookup_zero None sCfgs name \<noteq> None \<Longrightarrow>
    send_loop env services meta task sCfgs payload names =
      Inr (concat (map (\<lambda>name. section_sends env services meta task payload (the (lookup_zero None sCfgs name))) names))"
proof (induction names)
  case (Cons name names)
  then obtain m where m: "lookup_zero None sCfgs name = Some m" by auto
  have "(if plugin_get (Some m) ''Host'' = None then
           (case Some m of None \<Rightarrow> Inl AssignmentToNilMap | Some m \<Rightarrow> Inr (Some (AList.update ''Host'' (VString meta) m)))
         else Inr (Some m)) = (Inr (Some (with_host meta m)) :: gopanic + _)"
    by (simp add: plugin_get_def with_host_def)
  then show ?case
    using Cons m by (simp add: section_sends_def Type_with_host Let_def split: sum.split option.split)
qed simp

lemma section_sends_fields:
  assumes "(sc, req) \<in> set (section_sends env services meta task payload m)"
  shows "sr_Data req = payload \<and> sr_Id req = at_Id task \<and>
    sr_PrevTime req = tf_Previous (at_Frame task) \<and> sr_CurrTime req = tf_Current (at_Frame task) \<and>
    (\<exists>t. PluginConfig_Type (Some m) = Inr t \<and> map_of services t = Some sc) \<and>
    (\<forall>b. w_Pack env (Some (with_host meta m)) = Inr b \<longrightarrow> sr_Config req = b)"
proof -
  obtain t where t: "PluginConfig_Type (Some m) = Inr t"
    using assms by (cases "PluginConfig_Type (Some m)") (auto simp: section_sends_def)
  then have "map_of services t = Some sc"
    using assms by (cases "map_of services t") (auto simp: section_sends_def)
  then show ?thesis using assms t by (auto simp: section_sends_def)
qed

text \<open>A request that one of the sections sends to the client of its type.\<close>

definition section_request :: "'e worker_env \<Rightarrow> (string, 'c) gomap \<Rightarrow> string \<Rightarrow> AggregatingTask \<Rightarrow>
    (string, PluginConfig) gomap \<Rightarrow> AggregationResult list \<Rightarrow> 'c \<Rightarrow> SenderRequest \<Rightarrow> bool" where
  "section_request env services meta task sCfgs payload sc req \<longleftrightarrow>
     sr_Data req = payload \<and> sr_Id req = at_Id task \<and>
     sr_PrevTime req = tf_Previous (at_Frame task) \<and> sr_CurrTime req = tf_Current (at_Frame task) \<and>
     (\<exists>name m t. map_of sCfgs name = Some (Some m) \<and> PluginConfig_Type (Some m) = Inr t \<and>
       map_of services t = Some sc \<and>
       (\<forall>b. w_Pack env (Some (with_host meta m)) = Inr b \<longrightarrow> sr_Config req = b))"

lemma DoSending_request:
  assumes "DoSending env services sord meta task sCfgs payload = Inr sent" and "(sc, req) \<in> set sent"
  shows "section_request env services meta task sCfgs payload sc req"
proof -
  let ?names = "range_keys sord sCfgs"
  let ?m = "\<lambda>name. the (lookup_zero None sCfgs name)"
  have some: "\<forall>name\<in>set ?names. lookup_zero None sCfgs name \<noteq> None"
    using assms(1) send_loop_nil_section [of ?names sCfgs env services meta task payload] unfolding DoSending_def
    by (metis Inl_Inr_False)
  then have "sent = concat (map (\<lambda>name. section_sends env services meta task payload (?m name)) ?names)"
    using assms(1) send_loop_sections [OF some, of env services meta task payload] by (simp add: DoSending_def)
  then obtain name where name: "name \<in> set ?names" "(sc, req) \<in> set (section_sends env services meta task payload (?m name))"
    using assms(2) by auto
  have m: "map_of sCfgs name = Some (Some (?m name))"
    using some name(1) by (auto simp: lookup_zero_def split: option.splits)
  show ?thesis unfolding section_request_def using section_sends_fields [OF name(2)] m by blast
qed

text \<open>The tags of a result say what it was aggregated over.\<close>

definition result_tags :: "string \<Rightarrow> string \<Rightarrow> string \<Rightarrow> string \<Rightarrow> (string, string) gomap" where
  "result_tags kind aggregate name meta = [(''type'', kind), (''aggregate'', aggregate), (''name'', name), (''metahost'', meta)]"

lemma section_requests_tags:
  assumes "r \<in> set (section_requests env task meta hs hord name cfg)"
  shows "\<exists>kind n. ag_Meta (gr_Task r) = result_tags kind name n meta"
proof -
  obtain enc t cls where c: "w_Pack env cfg = Inr enc" "PluginConfig_Type cfg = Inr t" "PluginConfig_Class cfg = Inr cls"
    using assms by (cases "w_Pack env cfg"; cases "PluginConfig_Type cfg"; cases "PluginConfig_Class cfg")
      (simp_all add: section_requests_def)
  have mk: "\<exists>kind n p. r = group_request task enc cls name meta kind n p"
    using assms unfolding section_requests_eq [where my = "[]", OF c, unfolded Let_def]
    by (auto simp: host_requests_def dc_requests_def Let_def split: if_splits)
  then show ?thesis by (auto simp: group_request_def result_tags_def)
qed

lemma DoAggregating_tags:
  assumes run: "DoAggregating env AggregateGroup services dord hord arrival sord task = Inr sent"
    and req: "(sc, req) \<in> set sent" and d: "d \<in> set (sr_Data req)"
  shows "\<exists>kind aggregate n meta. ar_Tags d = result_tags kind aggregate n meta"
proof -
  let ?hs = "GetHosts_agg env task" and ?meta = "pc_Metahost (GetParsingConfig_agg env task)"
  let ?data = "ac_Data (GetAggregationConfig_agg env task)"
  let ?reqs = "concat (map (\<lambda>name. section_requests env task ?meta ?hs (hord name) name (lookup_zero None ?data name)) (range_keys dord ?data))"
  let ?results = "concat (map (\<lambda>r. case AggregateGroup r of Inl err \<Rightarrow> [] | Inr res \<Rightarrow> [\<lparr>ar_Tags = ag_Meta (gr_Task r), ar_Result = res\<rparr>]) ?reqs)"
  have "DoSending env services sord ?meta task (ac_Senders (GetAggregationConfig_agg env task)) (shuffle arrival ?results) = Inr sent"
    using run unfolding DoAggregating_def Let_def .
  from DoSending_request [OF this req] have "sr_Data req = shuffle arrival ?results" by (simp add: section_request_def)
  then have "d \<in> set ?results" using d by simp
  then obtain r where r: "r \<in> set ?reqs" "d \<in> set (case AggregateGroup r of Inl err \<Rightarrow> []
      | Inr res \<Rightarrow> [\<lparr>ar_Tags = ag_Meta (gr_Task r), ar_Result = res\<rparr>])" unfolding set_concat set_map by blast
  then have tags: "ar_Tags d = ag_Meta (gr_Task r)" by (cases "AggregateGroup r") simp_all
  obtain name where "r \<in> set (section_requests env task ?meta ?hs (hord name) name (lookup_zero None ?data name))"
    using r(1) unfolding set_concat set_map by blast
  from section_requests_tags [OF this] tags show ?thesis by metis
qed

lemma DoAggregating_time:
  assumes run: "DoAggregating env AggregateGroup services dord hord arrival sord task = Inr sent"
    and req: "(sc, req) \<in> set sent"
  shows "sr_PrevTime req = tf_Previous (at_Frame task) \<and> sr_CurrTime req = tf_Current (at_Frame task)"
  using DoSending_request [OF run [unfolded DoAggregating_def Let_def] req] by (simp add: section_request_def)

section \<open>Properties\<close>

text \<open>
  C24. For a section whose config can be packed and has a type and a class, the whole group is
  aggregated over the data of all hosts that have data for the section, in the order of the data
  centres; every data centre with data, unless skipped, is aggregated over its own hosts; single hosts
  are aggregated when the section asks for it; and the payloads of the data centres make up that of the
  whole group.
\<close>

theorem aggregation_payloads:
  assumes "w_Pack env cfg = Inr enc" and "PluginConfig_Type cfg = Inr t" and "PluginConfig_Class cfg = Inr cls"
  shows "let rs = section_requests env task meta hs hord name cfg; parsed = at_ParsingResult task;
      sel = (\<lambda>k. map (\<lambda>r. (name_of r, gr_Payload r)) (filter (\<lambda>r. kind_of r = Some k) rs));
      payload = hosts_data parsed name (AllHosts hord my hs);
      dc_data = (\<lambda>dc. hosts_data parsed name (lookup_zero [] hs dc));
      skip = (PluginConfig_GetBool cfg ''skipPerDatacenter'' = Inr True)
    in sel ''metahost'' = (if payload = [] then [] else [(Some meta, payload)]) \<and>
       sel ''datacenter'' = (if skip then [] else
         map (\<lambda>dc. (Some dc, dc_data dc)) (filter (\<lambda>dc. dc_data dc \<noteq> []) (range_keys hord hs))) \<and>
       sel ''host'' = (if PluginConfig_GetBool cfg ''perHost'' = Inr True
         then concat (map (\<lambda>h. map (\<lambda>d. (Some h, [d])) (host_data parsed name h)) (AllHosts hord my hs)) else []) \<and>
       (\<not> skip \<longrightarrow> concat (map snd (sel ''datacenter'')) = payload)"
proof -
  define mk where "mk = group_request task enc cls name meta"
  define parsed where "parsed = at_ParsingResult task"
  define payload where "payload = hosts_data parsed name (AllHosts hord my hs)"
  define dc_data where "dc_data = (\<lambda>dc. hosts_data parsed name (lookup_zero [] hs dc))"
  define skip where "skip \<longleftrightarrow> PluginConfig_GetBool cfg ''skipPerDatacenter'' = Inr True"
  define perHost where "perHost \<longleftrightarrow> PluginConfig_GetBool cfg ''perHost'' = Inr True"
  define sel where "sel = (\<lambda>k. map (\<lambda>r. (name_of r, gr_Payload r))
    (filter (\<lambda>r. kind_of r = Some k) (section_requests env task meta hs hord name cfg)))"
  have rs: "section_requests env task meta hs hord name cfg =
    concat (map (\<lambda>dc. host_requests mk cfg parsed name (lookup_zero [] hs dc) @ dc_requests mk cfg parsed name hs dc)
      (range_keys hord hs)) @ (if payload = [] then [] else [mk ''metahost'' meta payload])"
    unfolding mk_def parsed_def payload_def by (rule section_requests_eq [OF assms, unfolded Let_def])
  have "sel ''metahost'' = (if payload = [] then [] else [(Some meta, payload)])"
    by (simp add: sel_def rs mk_def filter_concat o_def filter_host_requests filter_dc_requests)
  moreover have dcs: "sel ''datacenter'' = (if skip then [] else
      map (\<lambda>dc. (Some dc, dc_data dc)) (filter (\<lambda>dc. dc_data dc \<noteq> []) (range_keys hord hs)))"
    by (simp add: sel_def rs mk_def filter_concat o_def filter_host_requests filter_dc_requests map_concat
        dc_requests_def Let_def skip_def dc_data_def if_distrib [of "map _"] concat_if_filter cong: if_cong)
  moreover have "sel ''host'' = (if perHost
      then concat (map (\<lambda>h. map (\<lambda>d. (Some h, [d])) (host_data parsed name h)) (AllHosts hord my hs)) else [])"
    by (simp add: sel_def rs mk_def filter_concat o_def filter_host_requests filter_dc_requests map_concat
        host_requests_def perHost_def AllHosts_def getHosts_def concat_concat)
  moreover have "\<not> skip \<longrightarrow> concat (map snd (sel ''datacenter'')) = payload"
  proof
    assume "\<not> skip"
    moreover have "concat (map dc_data (filter (\<lambda>dc. dc_data dc \<noteq> []) dcs)) = concat (map dc_data dcs)" for dcs
      by (induction dcs) auto
    moreover have "payload = concat (map dc_data (range_keys hord hs))"
      by (simp add: payload_def dc_data_def AllHosts_def getHosts_def concat_map_concat)
    ultimately show "concat (map snd (sel ''datacenter'')) = payload" using dcs by (simp add: o_def)
  qed
  ultimately show ?thesis
    unfolding Let_def sel_def dc_data_def skip_def perHost_def payload_def parsed_def by (intro conjI)
qed

definition sample_agg_task :: AggregatingTask where
  "sample_agg_task = \<lparr>at_Frame = \<lparr>tf_Previous = 5, tf_Current = 10\<rparr>, at_Config = ''a'', at_ParsingConfigName = ''p'',
     at_EncodedParsingConfig = [], at_EncodedAggregationConfig = [], at_EncodedHosts = [], at_Id = ''s'',
     at_ParsingResult = [(''g;cpu'', ''1''), (''h;cpu'', ''2''), (''h;mem'', ''3'')]\<rparr>"

theorem aggregation_payloads_witness:
  "map gr_Payload (filter (\<lambda>r. kind_of r = Some ''metahost'')
     (section_requests sample_worker_env sample_agg_task ''all'' [(''dc'', [''h'', ''x'']), (''ec'', [''g''])] [] ''cpu''
       (sample_plugin ''Cpu''))) = [[''2'', ''1'']]"
proof -
  have c: "w_Pack sample_worker_env (sample_plugin ''Cpu'') = Inr ''packed''"
    "PluginConfig_Type (sample_plugin ''Cpu'') = Inr ''custom''" "PluginConfig_Class (sample_plugin ''Cpu'') = Inr ''Cpu''"
    by (simp_all add: sample_worker_env_def sample_plugin_def PluginConfig_Type_def PluginConfig_Class_def plugin_get_def
        text_value_def typeKey_def classKey_def)
  have p: "hosts_data (at_ParsingResult sample_agg_task) ''cpu''
      (AllHosts [] [] [(''dc'', [''h'', ''x'']), (''ec'', [''g''])]) = [''2'', ''1'']"
    by (simp add: hosts_data_def host_data_def AllHosts_def getHosts_def range_keys_def lookup_zero_def sample_agg_task_def)
  have "map (\<lambda>r. (name_of r, gr_Payload r)) (filter (\<lambda>r. kind_of r = Some ''metahost'')
     (section_requests sample_worker_env sample_agg_task ''all'' [(''dc'', [''h'', ''x'']), (''ec'', [''g''])] [] ''cpu''
       (sample_plugin ''Cpu''))) = [(Some ''all'', [''2'', ''1''])]"
    using aggregation_payloads [OF c, of sample_agg_task "''all''" "[(''dc'', [''h'', ''x'']), (''ec'', [''g''])]" "[]" "''cpu''" "[]"]
    unfolding Let_def p by simp
  then have "map snd (map (\<lambda>r. (name_of r, gr_Payload r)) (filter (\<lambda>r. kind_of r = Some ''metahost'')
     (section_requests sample_worker_env sample_agg_task ''all'' [(''dc'', [''h'', ''x'']), (''ec'', [''g''])] [] ''cpu''
       (sample_plugin ''Cpu'')))) = [[''2'', ''1'']]" by (simp only: list.map snd_conv)
  then show ?thesis by (simp add: o_def)
qed

text \<open>The request a section has to send, written out, and the section and client it goes to.\<close>

definition own_request :: "'e worker_env \<Rightarrow> (string, 'c) gomap \<Rightarrow> string \<Rightarrow> AggregatingTask \<Rightarrow>
    (string, PluginConfig) gomap \<Rightarrow> AggregationResult list \<Rightarrow> string \<Rightarrow> 'c \<times> SenderRequest \<Rightarrow> bool" where
  "own_request env services meta task sCfgs payload name sr \<longleftrightarrow>
     (\<exists>m t. map_of sCfgs name = Some (Some m) \<and> PluginConfig_Type (Some m) = Inr t \<and>
        map_of services t = Some (fst sr) \<and>
        snd sr = \<lparr>sr_Id = at_Id task, sr_PrevTime = tf_Previous (at_Frame task), sr_CurrTime = tf_Current (at_Frame task),
          sr_Config = (case w_Pack env (Some (with_host meta m)) of Inl err \<Rightarrow> [] | Inr b \<Rightarrow> b), sr_Data = payload\<rparr>)"

definition known_section :: "(string, 'c) gomap \<Rightarrow> (string, PluginConfig) gomap \<Rightarrow> string \<Rightarrow> bool" where
  "known_section services sCfgs name \<longleftrightarrow>
     (\<exists>m t. map_of sCfgs name = Some (Some m) \<and> PluginConfig_Type (Some m) = Inr t \<and> map_of services t \<noteq> None)"

lemma list_all2_partner: "list_all2 P xs ys \<Longrightarrow> x \<in> set xs \<Longrightarrow> \<exists>y\<in>set ys. P x y"
  by (induction rule: list_all2_induct) auto

lemma sections_send_own:
  assumes "\<And>name. name \<in> set ns \<Longrightarrow> map_of sCfgs name = Some (Some (m name))"
  shows "list_all2 (own_request env services meta task sCfgs payload) (filter (known_section services sCfgs) ns)
    (concat (map (\<lambda>name. section_sends env services meta task payload (m name)) ns))"
  using assms
proof (induction ns)
  case (Cons name ns)
  have IH: "list_all2 (own_request env services meta task sCfgs payload) (filter (known_section services sCfgs) ns)
      (concat (map (\<lambda>name. section_sends env services meta task payload (m name)) ns))"
    by (rule Cons.IH) (simp add: Cons.prems)
  have name: "map_of sCfgs name = Some (Some (m name))" by (rule Cons.prems) simp
  show ?case
  proof (cases "known_section services sCfgs name")
    case True
    then obtain t sc where t: "PluginConfig_Type (Some (m name)) = Inr t" "map_of services t = Some sc"
      using name by (auto simp: known_section_def)
    have "\<exists>sr. section_sends env services meta task payload (m name) = [sr] \<and>
        own_request env services meta task sCfgs payload name sr"
      using t name by (simp add: section_sends_def own_request_def)
    then show ?thesis using True IH by auto
  next
    case False
    then have "section_sends env services meta task payload (m name) = []"
      using name by (auto simp: known_section_def section_sends_def split: sum.split option.split)
    then show ?thesis using False IH by simp
  qed
qed simp

text \<open>
  C25. Sending: a sender section without a config (a nil map) is a panic; else the requests sent are, one for one, those
  of the sections whose type names a spawned sender: each section sends one request, to the client of its own
  type, with all the results, the times of the iteration and its own packed config with the metahost as its default
  \<open>Host\<close> (empty if it cannot be packed).
\<close>

theorem sending_reaches_senders:
  assumes "go_map sCfgs"
  shows "if \<exists>name. map_of sCfgs name = Some None
    then DoSending env services sord meta task sCfgs payload = Inl AssignmentToNilMap
    else \<exists>names sent. DoSending env services sord meta task sCfgs payload = Inr sent \<and>
      distinct names \<and> set names = {name. known_section services sCfgs name} \<and>
      list_all2 (own_request env services meta task sCfgs payload) names sent"
proof -
  let ?names = "range_keys sord sCfgs"
  have l: "lookup_zero None sCfgs name = c \<longleftrightarrow> map_of sCfgs name = Some c" if "name \<in> set ?names" for name c
    using that by (auto simp: lookup_zero_def)
  show ?thesis
  proof (cases "\<exists>name. map_of sCfgs name = Some None")
    case True
    then have "\<exists>name\<in>set ?names. lookup_zero None sCfgs name = None" using l by force
    then have "DoSending env services sord meta task sCfgs payload = Inl AssignmentToNilMap"
      unfolding DoSending_def by (rule send_loop_nil_section)
    then show ?thesis using True by simp
  next
    case False
    let ?m = "\<lambda>name. the (lookup_zero None sCfgs name)"
    have some: "\<forall>name\<in>set ?names. lookup_zero None sCfgs name \<noteq> None" using False l by blast
    then have m: "map_of sCfgs name = Some (Some (?m name))" if "name \<in> set ?names" for name
      using that l by (metis option.collapse)
    let ?known = "filter (known_section services sCfgs) ?names"
    have "DoSending env services sord meta task sCfgs payload =
        Inr (concat (map (\<lambda>name. section_sends env services meta task payload (?m name)) ?names))"
      unfolding DoSending_def by (rule send_loop_sections [OF some])
    moreover have "distinct ?known" using assms by simp
    moreover have "set ?known = {name. known_section services sCfgs name}"
      using map_of_eq_None_iff [of sCfgs] by (force simp: known_section_def)
    moreover note sections_send_own [of ?names sCfgs ?m, OF m]
    ultimately show ?thesis unfolding if_not_P [OF False] by (intro exI conjI)
  qed
qed

definition two_sections :: "(string, PluginConfig) gomap" where
  "two_sections = [(''s1'', Some [(''type'', VString ''custom'')]), (''s2'', Some [(''type'', VString ''log'')])]"

theorem sending_reaches_senders_witness:
  "DoSending sample_worker_env [(''custom'', 7::nat)] [] ''all'' sample_agg_task
     [(''s1'', sample_plugin ''x''), (''s2'', None)] [] = Inl AssignmentToNilMap \<and>
   (\<exists>sent. DoSending sample_worker_env [(''custom'', 7::nat), (''log'', 8)] [] ''all'' sample_agg_task two_sections [] = Inr sent \<and>
     {7, 8} \<subseteq> fst ` set sent)"
proof
  show "DoSending sample_worker_env [(''custom'', 7::nat)] [] ''all'' sample_agg_task
     [(''s1'', sample_plugin ''x''), (''s2'', None)] [] = Inl AssignmentToNilMap"
    using sending_reaches_senders [of "[(''s1'', sample_plugin ''x''), (''s2'', None)]" sample_worker_env
        "[(''custom'', 7::nat)]" "[]" "''all''" sample_agg_task "[]"]
    by (auto simp: go_map_def split: if_splits)
next
  let ?services = "[(''custom'', 7::nat), (''log'', 8)]"
  have none: "\<not> (\<exists>name. map_of two_sections name = Some None)" by (simp add: two_sections_def)
  have t: "PluginConfig_Type (Some [(''type'', VString t)]) = Inr t" for t
    by (simp add: PluginConfig_Type_def plugin_get_def typeKey_def text_value_def)
  have "go_map two_sections" by (simp add: two_sections_def go_map_def)
  from sending_reaches_senders [OF this, of sample_worker_env ?services "[]" "''all''" sample_agg_task "[]"]
  obtain names sent where s: "DoSending sample_worker_env ?services [] ''all'' sample_agg_task two_sections [] = Inr sent"
    "set names = {name. known_section ?services two_sections name}"
    "list_all2 (own_request sample_worker_env ?services ''all'' sample_agg_task two_sections []) names sent"
    unfolding if_not_P [OF none] by blast
  have own: "\<exists>sr\<in>set sent. own_request sample_worker_env ?services ''all'' sample_agg_task two_sections [] name sr"
    if "name \<in> set names" for name
    by (rule list_all2_partner [OF s(3) that])
  have "''s1'' \<in> set names" "''s2'' \<in> set names"
    unfolding s(2) by (simp_all add: known_section_def two_sections_def t)
  from own [OF this(1)] own [OF this(2)] have "7 \<in> fst ` set sent" "8 \<in> fst ` set sent"
    by (force simp: own_request_def two_sections_def t)+
  then show "\<exists>sent. DoSending sample_worker_env ?services [] ''all'' sample_agg_task two_sections [] = Inr sent \<and>
     {7, 8} \<subseteq> fst ` set sent" using s(1) by blast
qed

end
