(* ===== verification/Pipeline.thy ===== *)
theory Pipeline
  imports Aggregating
begin

text \<open>
  From the targets to the aggregator: the parsing phase of the client (\<open>Client\<close>), run with the workers'
  \<open>DoParsing\<close> (\<open>Parsing\<close>), composed with the requests of \<open>DoAggregating\<close> (\<open>Aggregating\<close>).
\<close>

section \<open>Lemmas on the collected data\<close>

text \<open>When the phase has ended the data are exactly those of the tasks sent.\<close>

lemma ended_phase_data:
  assumes "(phase_step sp startTime session worker)\<^sup>*\<^sup>* (phase_start sp stats) ph"
    and "ph_todo ph = []" and "ph_running ph = []"
    and sent: "sent = map (frame_task startTime (WholeTime sp) session) (PTasks sp)"
  shows "k \<in> dom (map_of (ph_data ph)) \<longleftrightarrow> (\<exists>t\<in>set sent. \<exists>r. worker t = Inr r \<and> k \<in> fst ` set r)"
    and "map_of (ph_data ph) k = Some v \<Longrightarrow> \<exists>t\<in>set sent. \<exists>r. worker t = Inr r \<and> (k, v) \<in> set r"
proof -
  obtain finished where inv: "phase_inv sp startTime session worker stats ph finished"
    using phase_steps_inv [OF assms(1)] by blast
  have "mset finished = mset sent" using inv assms(2,3) unfolding sent by (simp add: phase_inv_def Let_def)
  then have s: "set finished = set sent" by (rule mset_eq_setD)
  have d: "dom (map_of (ph_data ph)) = (\<Union>t\<in>set sent. \<Union>r\<in>{r. worker t = Inr r}. fst ` set r)"
    using inv unfolding phase_inv_def Let_def s by blast
  show "k \<in> dom (map_of (ph_data ph)) \<longleftrightarrow> (\<exists>t\<in>set sent. \<exists>r. worker t = Inr r \<and> k \<in> fst ` set r)"
    unfolding d by blast
  show "map_of (ph_data ph) k = Some v \<Longrightarrow> \<exists>t\<in>set sent. \<exists>r. worker t = Inr r \<and> (k, v) \<in> set r"
    using inv unfolding phase_inv_def Let_def s by blast
qed

lemma DoParsing_go_map: "DoParsing env agg arrival task = Inr m \<Longrightarrow> go_map m"
  by (erule DoParsing_Inr) blast

lemma DoParsing_keys:
  assumes "DoParsing env agg arrival task = Inr m" and "map_of m key = Some v"
  obtains k where "key = pt_Host task @ '';'' @ k"
proof -
  obtain kv blob where "(key, v) \<in> set (section_result env agg task blob kv)"
    using DoParsing_Inr [OF assms(1)] assms(2) by metis
  then show ?thesis using that by (cases kv) (auto simp: section_result_iff)
qed

text \<open>What the worker of a host answered for a key.\<close>

definition host_reply :: "(ParsingTask \<Rightarrow> 'e + (string, string) gomap) \<Rightarrow> ParsingTask list \<Rightarrow> string \<Rightarrow> string \<Rightarrow> string list" where
  "host_reply worker sent name host =
     (case find (\<lambda>t. pt_Host t = host) sent of
        None \<Rightarrow> []
      | Some t \<Rightarrow> (case worker t of
          Inl err \<Rightarrow> []
        | Inr m \<Rightarrow> (case map_of m (host @ '';'' @ name) of None \<Rightarrow> [] | Some d \<Rightarrow> [d])))"

lemma find_unique:
  "t \<in> set ts \<Longrightarrow> distinct (map f ts) \<Longrightarrow> find (\<lambda>u. f u = f t) ts = Some t"
  by (induction ts) auto

lemma collected_reply:
  assumes "(phase_step sp startTime session worker)\<^sup>*\<^sup>* (phase_start sp stats) ph"
    and "ph_todo ph = []" and "ph_running ph = []"
    and sent: "sent = map (frame_task startTime (WholeTime sp) session) (PTasks sp)"
    and worker: "worker = (\<lambda>t. DoParsing env agg (arrival t) t)"
    and hosts: "distinct (map pt_Host sent)" "\<forall>t\<in>set sent. CHR '';'' \<notin> set (pt_Host t)"
    and host: "CHR '';'' \<notin> set host"
  shows "host_data (ph_data ph) name host = host_reply worker sent name host"
proof -
  note data = ended_phase_data [OF assms(1-4)]
  let ?key = "host @ '';'' @ name"
  have of_host: "pt_Host t = host" if tm: "t \<in> set sent" "worker t = Inr m" "map_of m ?key = Some v" for t m v
  proof -
    have "DoParsing env agg (arrival t) t = Inr m" using tm(2) by (simp add: worker)
    then obtain k where "?key = pt_Host t @ '';'' @ k" using tm(3) by (rule DoParsing_keys)
    then show ?thesis using host_key_inject host hosts(2) tm(1) by blast
  qed
  have go: "go_map m" if "worker t = Inr m" for t m
    using that unfolding worker by (rule DoParsing_go_map)
  show ?thesis
  proof (cases "map_of (ph_data ph) ?key")
    case (Some v)
    then obtain t m where t: "t \<in> set sent" "worker t = Inr m" "(?key, v) \<in> set m" using data(2) by blast
    then have v: "map_of m ?key = Some v" using go map_of_Some_in_set by metis
    then have "pt_Host t = host" using of_host t by blast
    then have "find (\<lambda>u. pt_Host u = host) sent = Some t" using find_unique [OF t(1) hosts(1)] by simp
    then show ?thesis using Some t(2) v by (simp add: host_data_def host_reply_def)
  next
    case None
    have "map_of m ?key = None" if "find (\<lambda>u. pt_Host u = host) sent = Some t" "worker t = Inr m" for t m
    proof (rule ccontr)
      assume "map_of m ?key \<noteq> None"
      then have "?key \<in> fst ` set m" by (simp add: map_of_eq_None_iff)
      moreover have "t \<in> set sent" using that(1) by (auto simp: find_Some_iff)
      ultimately have "?key \<in> dom (map_of (ph_data ph))" using data(1) that(2) by blast
      then show False using None by auto
    qed
    then show ?thesis using None by (auto simp: host_data_def host_reply_def split: option.split sum.split)
  qed
qed

section \<open>From the targets to the aggregator\<close>

text \<open>
  C28. An iteration end to end. The parsing phase has ended; hosts are distinct and hold no semicolon.
  Then for every aggregation task and every section of its config that can be packed and has a type
  and a class, the request for the whole group carries exactly what the workers of the hosts answered
  for that section, in the order of the hosts, a host that failed or has no such section left out, and
  there is no request when no host answered; whatever the order in which the workers ran and answered.
\<close>

theorem parsed_data_reaches_aggregation:
  assumes "(phase_step sp startTime session worker)\<^sup>*\<^sup>* (phase_start sp stats) ph"
    and "ph_todo ph = []" and "ph_running ph = []"
    and "sent = map (frame_task startTime (WholeTime sp) session) (PTasks sp)"
    and "worker = (\<lambda>t. DoParsing env agg (arrival t) t)"
    and "distinct (map pt_Host sent)" and "\<forall>t\<in>set sent. CHR '';'' \<notin> set (pt_Host t)"
    and "\<forall>host\<in>set (AllHosts hord my hs). CHR '';'' \<notin> set host"
    and "w_Pack env cfg = Inr enc" and "PluginConfig_Type cfg = Inr typ" and "PluginConfig_Class cfg = Inr cls"
  shows "map gr_Payload (filter (\<lambda>r. kind_of r = Some ''metahost'')
      (section_requests env (frame_agg startTime (WholeTime sp) session (ph_data ph) a) meta hs hord name cfg)) =
    filter (\<lambda>p. p \<noteq> []) [concat (map (host_reply worker sent name) (AllHosts hord my hs))]"
proof -
  let ?task = "frame_agg startTime (WholeTime sp) session (ph_data ph) a"
  have "host_data (ph_data ph) name host = host_reply worker sent name host" if "host \<in> set (AllHosts hord my hs)" for host
    using collected_reply [OF assms(1-7)] assms(8) that by blast
  then have p: "hosts_data (ph_data ph) name (AllHosts hord my hs) =
      concat (map (host_reply worker sent name) (AllHosts hord my hs))"
    unfolding hosts_data_def by (metis (no_types, lifting) map_cong)
  have "at_ParsingResult ?task = ph_data ph" by (simp add: frame_agg_def)
  then show ?thesis
    using section_requests_eq [OF assms(9-11), of ?task meta hs hord name my] p
    by (simp add: Let_def filter_concat o_def filter_host_requests filter_dc_requests)
qed


definition sample_agg :: "AggregateHostRequest \<Rightarrow> string + string" where
  "sample_agg req = Inr (hr_Payload req)"

definition sample_parse :: "ParsingTask \<Rightarrow> string data_error + (string, string) gomap" where
  "sample_parse = (\<lambda>t. DoParsing sample_worker_env sample_agg [] t)"

lemma sample_parse_reply: "sample_parse (frame_task 0 0 ''s'' sample_task) = Inr [(''h;cpu'', ''h'')]"
  by (simp add: sample_parse_def DoParsing_def fetchDataFromTarget_def GetParsingConfig_task_def
      GetAggregationConfigs_task_def sample_worker_env_def sample_parsing_def sample_aggregation_def sample_plugin_def
      sample_task_def NewFetcher_def section_result_def host_request_def PluginConfig_Type_def PluginConfig_Class_def
      plugin_get_def text_value_def typeKey_def classKey_def frame_task_def sample_agg_def)

theorem parsed_data_reaches_aggregation_witness:
  "\<exists>ph. (phase_step sample_session 0 ''s'' sample_parse)\<^sup>*\<^sup>* (phase_start sample_session zero_stats) ph \<and>
    map gr_Payload (filter (\<lambda>r. kind_of r = Some ''metahost'')
      (section_requests sample_worker_env (frame_agg 0 0 ''s'' (ph_data ph) sample_agg_task) ''all''
        [(''dc'', [''h'', ''g''])] [] ''cpu'' (sample_plugin ''Cpu''))) = [[''h'']]"
proof -
  let ?t = "frame_task 0 0 ''s'' sample_task"
  let ?ph1 = "\<lparr>ph_todo = [], ph_running = [?t], ph_data = [], ph_stats = zero_stats\<rparr>"
  let ?ph2 = "\<lparr>ph_todo = [], ph_running = [], ph_data = merge_data [(''h;cpu'', ''h'')] [],
    ph_stats = AddSuccessParsing 5 zero_stats\<rparr>"
  have "phase_step sample_session 0 ''s'' sample_parse (phase_start sample_session zero_stats) ?ph1"
    by (rule phase_step.start) (simp add: start_parsing_def phase_start_def sample_session_def)
  moreover have "phase_step sample_session 0 ''s'' sample_parse ?ph1 ?ph2"
    by (rule phase_step.reply [of 5 ?t]) (simp add: doParsing_def sample_parse_reply Let_def)
  ultimately have r: "(phase_step sample_session 0 ''s'' sample_parse)\<^sup>*\<^sup>* (phase_start sample_session zero_stats) ?ph2"
    by (meson converse_rtranclp_into_rtranclp rtranclp.rtrancl_refl)
  have c: "w_Pack sample_worker_env (sample_plugin ''Cpu'') = Inr ''packed''"
    "PluginConfig_Type (sample_plugin ''Cpu'') = Inr ''custom''" "PluginConfig_Class (sample_plugin ''Cpu'') = Inr ''Cpu''"
    by (simp_all add: sample_worker_env_def sample_plugin_def PluginConfig_Type_def PluginConfig_Class_def plugin_get_def
        text_value_def typeKey_def classKey_def)
  have s: "map (frame_task 0 (WholeTime sample_session) ''s'') (PTasks sample_session) = [?t]" "WholeTime sample_session = 0"
    by (simp_all add: sample_session_def)
  have h: "pt_Host ?t = ''h''" by (simp add: frame_task_def sample_task_def)
  have all: "AllHosts [] [] [(''dc'', [''h'', ''g''])] = [''h'', ''g'']"
    by (simp add: AllHosts_def getHosts_def range_keys_def lookup_zero_def)
  have rep: "concat (map (host_reply sample_parse [?t] ''cpu'') (AllHosts [] [] [(''dc'', [''h'', ''g''])])) = [''h'']"
    unfolding all by (simp add: host_reply_def h sample_parse_reply)
  have "map gr_Payload (filter (\<lambda>r. kind_of r = Some ''metahost'')
      (section_requests sample_worker_env (frame_agg 0 (WholeTime sample_session) ''s'' (ph_data ?ph2) sample_agg_task) ''all''
        [(''dc'', [''h'', ''g''])] [] ''cpu'' (sample_plugin ''Cpu''))) =
      filter (\<lambda>p. p \<noteq> []) [concat (map (host_reply sample_parse [?t] ''cpu'') (AllHosts [] [] [(''dc'', [''h'', ''g''])]))]"
    by (rule parsed_data_reaches_aggregation [OF r _ _ s(1) [symmetric] sample_parse_def _ _ _ c])
      (simp_all add: h all)
  then have "map gr_Payload (filter (\<lambda>r. kind_of r = Some ''metahost'')
      (section_requests sample_worker_env (frame_agg 0 0 ''s'' (ph_data ?ph2) sample_agg_task) ''all''
        [(''dc'', [''h'', ''g''])] [] ''cpu'' (sample_plugin ''Cpu''))) = [[''h'']]"
    unfolding s(2) rep by simp
  with r show ?thesis by (intro exI [of _ ?ph2] conjI)
qed

end
