(* ===== verification/SenderData.thy ===== *)
theory SenderData
  imports Hosts
begin

text \<open>
  What the senders share: the payload of a task (\<open>senders/types.go\<close>) and the values in it. A value is
  what \<open>utils.Unpack\<close> (msgpack, an argument) makes of the bytes of an aggregation result. The keys of its
  maps are given as the text they print as; the entries are
  listed in the order in which the one \<open>range\<close> over them visits their entries. Floats are an abstract
  type \<open>'f\<close>; their conversions and the formats of \<open>fmt\<close> are arguments.
\<close>

datatype 'f rval =
    RNil
  | RBool bool
  | RInt int
  | RUint nat
  | RFloat 'f
  | RString string
  | RBytes string
  | RSlice "'f rval list"
  | RMap "(string \<times> 'f rval) list"

record 'f float_ops =
  FloatOfInt :: "int \<Rightarrow> 'f"
  ParseFloat :: "string \<Rightarrow> 'f option"
  FormatV :: "'f rval \<Rightarrow> string"
  FormatQ :: "string \<Rightarrow> string"

text \<open>\<open>utils.InterfaceToString\<close>: bytes print quoted.\<close>

definition InterfaceToString :: "'f float_ops \<Rightarrow> 'f rval \<Rightarrow> string" where
  "InterfaceToString ops v = (case v of RBytes b \<Rightarrow> FormatQ ops b | _ \<Rightarrow> FormatV ops v)"

text \<open>The elements of a value of kind slice; a byte string is a slice of unsigned numbers.\<close>

fun slice_elems :: "'f rval \<Rightarrow> 'f rval list option" where
  "slice_elems (RSlice vs) = Some vs"
| "slice_elems (RBytes s) = Some (map (\<lambda>c. RUint (of_char c)) s)"
| "slice_elems _ = None"

record 'f Payload =
  p_Tags :: "(string, string) gomap"
  p_Result :: "'f rval"

record 'f SenderTask =
  st_PrevTime :: int
  st_CurrTime :: int
  st_Data :: "'f Payload list"

text \<open>A result that cannot be unpacked is left out.\<close>

fun repack :: "(string \<Rightarrow> 'e + 'f rval) \<Rightarrow> ((string, string) gomap \<times> string) list \<Rightarrow> 'f Payload list" where
  "repack unpack [] = []"
| "repack unpack ((tags, result) # ds) =
     (case unpack result of
        Inl err \<Rightarrow> repack unpack ds
      | Inr v \<Rightarrow> \<lparr>p_Tags = tags, p_Result = v\<rparr> # repack unpack ds)"

definition RepackSenderRequest :: "(string \<Rightarrow> 'e + 'f rval) \<Rightarrow> int \<Rightarrow> int \<Rightarrow> ((string, string) gomap \<times> string) list \<Rightarrow>
    'f SenderTask" where
  "RepackSenderRequest unpack prevTime currTime data =
     \<lparr>st_PrevTime = prevTime, st_CurrTime = currTime, st_Data = repack unpack data\<rparr>"

section \<open>Values as leaves\<close>

text \<open>
  The reference both senders are compared with: the scalars of a value with the path of names that
  leads to each, slices named by the configured fields, \<open>None\<close> when a slice does not fit the fields.
\<close>

definition slice_leaves :: "string list \<Rightarrow> string list \<Rightarrow> 'f rval list \<Rightarrow> (string list \<times> 'f rval) list option" where
  "slice_leaves names path vs =
     (if names = [] \<or> length names \<noteq> length vs then None
      else Some (map (\<lambda>(name, v). (path @ [name], v)) (zip names vs)))"

fun leaves :: "string list \<Rightarrow> string list \<Rightarrow> 'f rval \<Rightarrow> (string list \<times> 'f rval) list option"
  and map_leaves :: "string list \<Rightarrow> string list \<Rightarrow> (string \<times> 'f rval) list \<Rightarrow> (string list \<times> 'f rval) list option" where
  "leaves names path (RMap kvs) = map_leaves names path kvs"
| "leaves names path (RSlice vs) = slice_leaves names path vs"
| "leaves names path (RBytes s) = slice_leaves names path (map (\<lambda>c. RUint (of_char c)) s)"
| "leaves names path v = Some [(path, v)]"
| "map_leaves names path [] = Some []"
| "map_leaves names path ((k, v) # kvs) =
     (case leaves names (path @ [k]) v of
        None \<Rightarrow> None
      | Some ls \<Rightarrow> (case map_leaves names path kvs of None \<Rightarrow> None | Some ms \<Rightarrow> Some (ls @ ms)))"

text \<open>Every path extends the path of its map, and distinct names give distinct paths.\<close>

fun distinct_keys :: "'f rval \<Rightarrow> bool" and distinct_entries :: "(string \<times> 'f rval) list \<Rightarrow> bool" where
  "distinct_keys (RMap kvs) \<longleftrightarrow> distinct (map fst kvs) \<and> distinct_entries kvs"
| "distinct_keys _ \<longleftrightarrow> True"
| "distinct_entries [] \<longleftrightarrow> True"
| "distinct_entries ((k, v) # kvs) \<longleftrightarrow> distinct_keys v \<and> distinct_entries kvs"

lemma slice_leaves_paths:
  "slice_leaves names path vs = Some ls \<Longrightarrow> map fst ls = map (\<lambda>n. path @ [n]) names"
  by (auto simp: slice_leaves_def o_def case_prod_beta split: if_splits)
    (metis (no_types, lifting) map_eq_conv map_fst_zip map_map o_apply)

lemma slice_leaves_path:
  assumes "slice_leaves names path vs = Some ls" and "p \<in> fst ` set ls"
  shows "\<exists>n\<in>set names. p = path @ [n]"
proof -
  have "p \<in> set (map fst ls)" using assms(2) by simp
  then show ?thesis unfolding slice_leaves_paths [OF assms(1)] by auto
qed

lemma map_leaves_Cons:
  assumes "map_leaves names path ((k, v) # kvs) = Some ls"
  obtains l1 l2 where "leaves names (path @ [k]) v = Some l1" "map_leaves names path kvs = Some l2" "ls = l1 @ l2"
  using assms by (auto split: option.splits)

text \<open>Every path extends the path of its map.\<close>

lemma leaves_paths:
  "leaves names path v = Some ls \<Longrightarrow> p \<in> fst ` set ls \<Longrightarrow> \<exists>r. p = path @ r"
  "map_leaves names path kvs = Some ls \<Longrightarrow> p \<in> fst ` set ls \<Longrightarrow> \<exists>k\<in>fst ` set kvs. \<exists>r. p = path @ k # r"
proof (induction names path v and names path kvs arbitrary: ls and ls rule: leaves_map_leaves.induct)
  case (1 names path kvs)
  then show ?case by fastforce
next
  case (2 names path vs)
  then show ?case using slice_leaves_path [of names path vs ls p] by fastforce
next
  case (3 names path s)
  then show ?case using slice_leaves_path [of names path _ ls p] by fastforce
next
  case (6 names path k v kvs)
  obtain l1 l2 where l: "leaves names (path @ [k]) v = Some l1" "map_leaves names path kvs = Some l2" "ls = l1 @ l2"
    using "6.prems"(1) by (rule map_leaves_Cons)
  show ?case
  proof (cases "p \<in> fst ` set l1")
    case True
    then obtain r where "p = (path @ [k]) @ r" using "6.IH"(1) [OF l(1)] by blast
    then show ?thesis by simp
  next
    case False
    then have "p \<in> fst ` set l2" using "6.prems"(2) l(3) by auto
    then show ?thesis using "6.IH"(2) [OF l(1) l(2)] by fastforce
  qed
qed simp_all

text \<open>Distinct keys and fields give distinct paths.\<close>

lemma leaves_distinct:
  "distinct names \<Longrightarrow> leaves names path v = Some ls \<Longrightarrow> distinct_keys v \<Longrightarrow> distinct (map fst ls)"
  "distinct names \<Longrightarrow> map_leaves names path kvs = Some ls \<Longrightarrow> distinct (map fst kvs) \<Longrightarrow> distinct_entries kvs \<Longrightarrow> distinct (map fst ls)"
proof (induction names path v and names path kvs arbitrary: ls and ls rule: leaves_map_leaves.induct)
  case (2 names path vs)
  then show ?case using slice_leaves_paths [of names path vs ls] by (simp add: distinct_map inj_on_def)
next
  case (3 names path s)
  then show ?case using slice_leaves_paths [of names path _ ls] by (simp add: distinct_map inj_on_def)
next
  case (6 names path k v kvs)
  obtain l1 l2 where l: "leaves names (path @ [k]) v = Some l1" "map_leaves names path kvs = Some l2" "ls = l1 @ l2"
    using "6.prems"(2) by (rule map_leaves_Cons)
  have "fst ` set l1 \<inter> fst ` set l2 = {}"
  proof (rule ccontr)
    assume "fst ` set l1 \<inter> fst ` set l2 \<noteq> {}"
    then obtain p where p: "p \<in> fst ` set l1" "p \<in> fst ` set l2" by blast
    obtain r where "p = (path @ [k]) @ r" using leaves_paths(1) [OF l(1) p(1)] by blast
    moreover obtain k' r' where "k' \<in> fst ` set kvs" "p = path @ k' # r'" using leaves_paths(2) [OF l(2) p(2)] by blast
    ultimately show False using "6.prems"(3) by simp
  qed
  then show ?case
    using "6.IH"(1) [OF "6.prems"(1) l(1)] "6.IH"(2) [OF l(1) "6.prems"(1) l(2)] "6.prems"(3,4) l(3) by simp
qed auto

text \<open>The path a value starts from stands before the paths of its leaves.\<close>

lemma leaves_shift:
  "leaves names path v = Some ls \<Longrightarrow> leaves names (pre @ path) v = Some (map (\<lambda>(q, v). (pre @ q, v)) ls)"
  "map_leaves names path kvs = Some ls \<Longrightarrow> map_leaves names (pre @ path) kvs = Some (map (\<lambda>(q, v). (pre @ q, v)) ls)"
  by (induction names path v and names path kvs arbitrary: ls and ls rule: leaves_map_leaves.induct)
    (auto simp: slice_leaves_def split: option.splits if_splits)

end
