(* ===== verification/Solomon.thy ===== *)
theory Solomon
  imports SenderData
begin

text \<open>
  \<open>senders/solomon/solomon.go\<close>: the results of an aggregation become sensors, one push per subgroup,
  and workers post the pushes with retries. JSON encoding, the float conversions and what a POST gives
  are arguments; the job queue is the list of the jobs put into it.
\<close>

section \<open>Configuration and data\<close>

record Config =
  sc_API :: string
  sc_Project :: string
  sc_Cluster :: string
  sc_Service :: string
  sc_Timeout :: int
  sc_Fields :: "string list"
  sc_Schema :: "string list"

record Sender = Config +
  sc_prefix :: string

record comLabels =
  cl_Project :: string
  cl_Cluster :: string
  cl_Host :: string
  cl_Service :: string

record 'f Sensor =
  Labels :: "(string, string) gomap"
  Ts :: int
  Value :: 'f

record 'f solomonPush =
  CommonLabels :: comLabels
  Sensors :: "'f Sensor list"

datatype sensor_error = NotANumber | PathTooShort nat nat | BadSlice nat nat | NoSubgroup subgroup_error | NotADict

definition NewSender :: "Config \<Rightarrow> Sender" where
  "NewSender c = Config.extend c \<lparr>sc_prefix = []\<rparr>"

section \<open>Sensors\<close>

definition sensor_value :: "'f float_ops \<Rightarrow> 'f rval \<Rightarrow> sensor_error + 'f" where
  "sensor_value ops value =
     (case value of
        RFloat f \<Rightarrow> Inr f
      | RInt i \<Rightarrow> Inr (FloatOfInt ops i)
      | RUint n \<Rightarrow> Inr (FloatOfInt ops (int n))
      | RString s \<Rightarrow> (case ParseFloat ops s of None \<Rightarrow> Inl NotANumber | Some f \<Rightarrow> Inr f)
      | _ \<Rightarrow> Inl NotANumber)"

text \<open>The labels the schema gives to the first names of the path.\<close>

fun schema_labels :: "string list \<Rightarrow> string list \<Rightarrow> (string, string) gomap \<Rightarrow> (string, string) gomap" where
  "schema_labels (label # schema) (name # path) m = schema_labels schema path (AList.update label name m)"
| "schema_labels _ _ m = m"

definition dumpSensor :: "'f float_ops \<Rightarrow> Sender \<Rightarrow> string list \<Rightarrow> 'f rval \<Rightarrow> int \<Rightarrow> sensor_error + 'f Sensor" where
  "dumpSensor ops s path value timestamp =
     (case sensor_value ops value of
        Inl err \<Rightarrow> Inl err
      | Inr sensorValue \<Rightarrow>
          if sc_Schema s \<noteq> [] then
            (let path = (if length path = 1 then Split (hd path) ''.'' else path) in
             if length (sc_Schema s) \<ge> length path then Inl (PathTooShort (length path) (length (sc_Schema s)))
             else
               let labels = schema_labels (sc_Schema s) path [];
                   labels = AList.update ''sensor'' (Join (drop (length (sc_Schema s)) path) ''.'') labels;
                   labels = (if sc_prefix s \<noteq> [] then AList.update ''prefix'' (TrimRight (sc_prefix s) ''.'') labels
                             else labels)
               in Inr \<lparr>Labels = labels, Ts = timestamp, Value = sensorValue\<rparr>)
          else Inr \<lparr>Labels = [(''sensor'', sc_prefix s @ Join path ''.'')], Ts = timestamp, Value = sensorValue\<rparr>)"

text \<open>The accumulator is the code's \<open>*sensors\<close>; with an error the caller drops it.\<close>

fun dump_elems :: "'f float_ops \<Rightarrow> Sender \<Rightarrow> string list \<Rightarrow> (string \<times> 'f rval) list \<Rightarrow> int \<Rightarrow> 'f Sensor list \<Rightarrow>
    sensor_error + 'f Sensor list" where
  "dump_elems ops s path [] timestamp sensors = Inr sensors"
| "dump_elems ops s path ((field, v) # vs) timestamp sensors =
     (case dumpSensor ops s (path @ [field]) v timestamp of
        Inl err \<Rightarrow> Inl err
      | Inr item \<Rightarrow> dump_elems ops s path vs timestamp (sensors @ [item]))"

definition dumpSlice :: "'f float_ops \<Rightarrow> Sender \<Rightarrow> 'f Sensor list \<Rightarrow> string list \<Rightarrow> 'f rval list \<Rightarrow> int \<Rightarrow>
    sensor_error + 'f Sensor list" where
  "dumpSlice ops s sensors path vs timestamp =
     (if length (sc_Fields s) = 0 \<or> length (sc_Fields s) \<noteq> length vs
      then Inl (BadSlice (length (sc_Fields s)) (length vs))
      else dump_elems ops s path (zip (sc_Fields s) vs) timestamp sensors)"

fun dumpMap :: "'f float_ops \<Rightarrow> Sender \<Rightarrow> 'f Sensor list \<Rightarrow> string list \<Rightarrow> (string \<times> 'f rval) list \<Rightarrow> int \<Rightarrow>
    sensor_error + 'f Sensor list" where
  "dumpMap ops s sensors path [] timestamp = Inr sensors"
| "dumpMap ops s sensors path ((key, item) # kvs) timestamp =
     (case (case item of
        RSlice vs \<Rightarrow> dumpSlice ops s sensors (path @ [key]) vs timestamp
      | RBytes b \<Rightarrow> dumpSlice ops s sensors (path @ [key]) (map (\<lambda>c. RUint (of_char c)) b) timestamp
      | RMap m \<Rightarrow> dumpMap ops s sensors (path @ [key]) m timestamp
      | _ \<Rightarrow> (case dumpSensor ops s (path @ [key]) item timestamp of Inl err \<Rightarrow> Inl err | Inr x \<Rightarrow> Inr (sensors @ [x]))) of
        Inl err \<Rightarrow> Inl err
      | Inr sensors \<Rightarrow> dumpMap ops s sensors path kvs timestamp)"

section \<open>Pushes\<close>

text \<open>
  One payload: the service name, the prefix it leaves in the sender, and its push, nothing, or an
  error.
\<close>

definition service_of :: "Sender \<Rightarrow> 'f Payload \<Rightarrow> string \<times> Sender" where
  "service_of s item =
     (let aggname = lookup_zero [] (p_Tags item) ''aggregate'';
          service = (if sc_Service s = [] then aggname else sc_Service s)
      in if Contains service ''.'' then
           (let aPrefix = SplitN2 service ''.'' in (aPrefix ! 0, s\<lparr>sc_prefix := aPrefix ! 1 @ ''.''\<rparr>))
         else (service, s))"

definition push_item :: "'f float_ops \<Rightarrow> Sender \<Rightarrow> 'f Payload \<Rightarrow> int \<Rightarrow> Sender \<times> (sensor_error + 'f solomonPush option)" where
  "push_item ops s item timestamp =
     (case service_of s item of (service, s) \<Rightarrow>
        (s, case GetSubgroupName (p_Tags item) of
           Inl err \<Rightarrow> Inl (NoSubgroup err)
         | Inr host \<Rightarrow>
             (case p_Result item of
                RMap kvs \<Rightarrow>
                  (case dumpMap ops s [] [] kvs timestamp of
                     Inl err \<Rightarrow> Inl err
                   | Inr sensors \<Rightarrow>
                       if length sensors = 0 then Inr None
                       else Inr (Some \<lparr>CommonLabels = \<lparr>cl_Project = sc_Project s, cl_Cluster = sc_Cluster s,
                         cl_Host = host, cl_Service = service\<rparr>, Sensors = sensors\<rparr>))
              | _ \<Rightarrow> Inl NotADict)))"

text \<open>The error returned is that of the last payload: the next one overwrites it.\<close>

fun push_items :: "'f float_ops \<Rightarrow> Sender \<Rightarrow> 'f Payload list \<Rightarrow> int \<Rightarrow> 'f solomonPush list \<Rightarrow> sensor_error option \<Rightarrow>
    'f solomonPush list \<times> sensor_error option" where
  "push_items ops s [] timestamp groups err = (groups, err)"
| "push_items ops s (item # data) timestamp groups err =
     (case push_item ops s item timestamp of
        (s, Inl e) \<Rightarrow> push_items ops s data timestamp groups (Some e)
      | (s, Inr None) \<Rightarrow> push_items ops s data timestamp groups None
      | (s, Inr (Some p)) \<Rightarrow> push_items ops s data timestamp (groups @ [p]) None)"

definition solomon_sendInternal :: "'f float_ops \<Rightarrow> Sender \<Rightarrow> 'f Payload list \<Rightarrow> int \<Rightarrow>
    'f solomonPush list \<times> sensor_error option" where
  "solomon_sendInternal ops s data timestamp = push_items ops s data timestamp [] None"

datatype 'e send_error = Internal sensor_error | Marshal "'e list"

text \<open>\<open>Marshal\<close> gives the bytes; a push that cannot be encoded is queued without data all the same.\<close>

fun queue_jobs :: "('f solomonPush \<Rightarrow> 'e + string) \<Rightarrow> 'f solomonPush list \<Rightarrow> string list \<times> 'e list" where
  "queue_jobs marshal [] = ([], [])"
| "queue_jobs marshal (v # vs) =
     (let (jobs, errs) = queue_jobs marshal vs in
      case marshal v of Inl e \<Rightarrow> ([] # jobs, e # errs) | Inr push \<Rightarrow> (push # jobs, errs))"

definition solomon_Send :: "'f float_ops \<Rightarrow> ('f solomonPush \<Rightarrow> 'e + string) \<Rightarrow> Sender \<Rightarrow> 'f Payload list \<Rightarrow> int \<Rightarrow>
    string list \<times> 'e send_error option" where
  "solomon_Send ops marshal s task timestamp =
     (if task = [] then ([], None)
      else
        case solomon_sendInternal ops s task timestamp of
          (data, Some err) \<Rightarrow> ([], Some (Internal err))
        | (data, None) \<Rightarrow>
            let (jobs, errs) = queue_jobs marshal data
            in (jobs, if errs = [] then None else Some (Marshal errs)))"

section \<open>Posting\<close>

text \<open>What one POST gives: a response with its status, a cancelled or timed out context, another error.\<close>

datatype post_result = Response int | ContextDone | NetError

datatype post_error = Dropped nat | BadStatus int | SendingError

record Worker =
  w_id :: nat
  w_Retry :: nat
  w_RetryInterval :: int

definition newWorker :: "nat \<Rightarrow> nat \<Rightarrow> int \<Rightarrow> Worker" where
  "newWorker i retry interval = \<lparr>w_id = i, w_Retry = retry, w_RetryInterval = interval\<rparr>"

definition postRetries :: nat where "postRetries = 3"

text \<open>
  The loop of \<open>sendToSolomon\<close>; \<open>post k\<close> is the outcome of attempt \<open>k\<close>. The \<open>break\<close> after a success
  only leaves the \<open>switch\<close>; whether the loop goes on is decided by \<open>isTimeout\<close>, which a success does
  not reset. The result counts the POSTs made.
\<close>

function post_loop :: "nat \<Rightarrow> (nat \<Rightarrow> post_result) \<Rightarrow> nat \<Rightarrow> bool \<Rightarrow> post_error option \<Rightarrow> nat \<times> post_error option" where
  "post_loop retry post attempt isTimeout sendErr =
     (if attempt \<ge> retry then (attempt, Some (Dropped attempt))
      else
        let (isTimeout, sendErr) =
          (case post (Suc attempt) of
             Response status \<Rightarrow>
               if status = 200 then (isTimeout, None) else (status = 408, Some (BadStatus status))
           | ContextDone \<Rightarrow> (True, sendErr)
           | NetError \<Rightarrow> (isTimeout, Some SendingError))
        in if \<not> isTimeout then (Suc attempt, sendErr)
           else post_loop retry post (Suc attempt) isTimeout sendErr)"
  by pat_completeness auto
termination
  by (relation "measure (\<lambda>(retry, post, attempt, _). retry - attempt)") auto

declare post_loop.simps [simp del]

definition sendToSolomon :: "Worker \<Rightarrow> (nat \<Rightarrow> post_result) \<Rightarrow> nat \<times> post_error option" where
  "sendToSolomon w post = post_loop (w_Retry w) post 0 False None"

text \<open>A worker takes jobs until the queue is closed; an error is only logged.\<close>

fun worker_start :: "Worker \<Rightarrow> (string \<Rightarrow> nat \<Rightarrow> post_result) \<Rightarrow> string list \<Rightarrow> (string \<times> post_error option) list" where
  "worker_start w post [] = []"
| "worker_start w post (job # jobs) = (job, snd (sendToSolomon w (post job))) # worker_start w post jobs"

definition StartWorkers :: "nat \<Rightarrow> int \<Rightarrow> Worker list" where
  "StartWorkers capacity retryInterval = map (\<lambda>i. newWorker i postRetries retryInterval) [0..<capacity]"

section \<open>Lemmas on sensors\<close>

text \<open>The reference: one sensor per leaf, the first leaf that is not a number is the error.\<close>

fun dump_leaves :: "'f float_ops \<Rightarrow> Sender \<Rightarrow> int \<Rightarrow> (string list \<times> 'f rval) list \<Rightarrow> sensor_error + 'f Sensor list" where
  "dump_leaves ops s timestamp [] = Inr []"
| "dump_leaves ops s timestamp ((path, v) # ls) =
     bind_sum (dumpSensor ops s path v timestamp) (\<lambda>x.
       bind_sum (dump_leaves ops s timestamp ls) (\<lambda>xs. Inr (x # xs)))"

abbreviation appended :: "'a list \<Rightarrow> 'e + 'a list \<Rightarrow> 'e + 'a list" where
  "appended acc r \<equiv> bind_sum r (\<lambda>xs. Inr (acc @ xs))"

lemma dump_leaves_append:
  "dump_leaves ops s ts (ls @ ms) =
    bind_sum (dump_leaves ops s ts ls) (\<lambda>xs. appended xs (dump_leaves ops s ts ms))"
proof (induction ops s ts ls rule: dump_leaves.induct)
  case (1 ops s ts)
  then show ?case by (cases "dump_leaves ops s ts ms") simp_all
next
  case (2 ops s ts path v ls)
  show ?case
  proof (cases "dumpSensor ops s path v ts")
    case (Inr x)
    then show ?thesis
      using 2 by (cases "dump_leaves ops s ts ls"; cases "dump_leaves ops s ts ms") simp_all
  qed simp
qed

lemma dump_elems_leaves:
  "dump_elems ops s path fvs ts acc = appended acc (dump_leaves ops s ts (map (\<lambda>(n, v). (path @ [n], v)) fvs))"
proof (induction ops s path fvs ts acc rule: dump_elems.induct)
  case (2 ops s path field v vs ts acc)
  then show ?case
    by (cases "dumpSensor ops s (path @ [field]) v ts";
        cases "dump_leaves ops s ts (map (\<lambda>(n, v). (path @ [n], v)) vs)") simp_all
qed simp

definition dumps_as :: "'f float_ops \<Rightarrow> Sender \<Rightarrow> int \<Rightarrow> 'f Sensor list \<Rightarrow> (string list \<times> 'f rval) list option \<Rightarrow>
    sensor_error + 'f Sensor list \<Rightarrow> bool" where
  "dumps_as ops s ts acc lvs r \<longleftrightarrow>
     (case lvs of None \<Rightarrow> \<exists>err. r = Inl err | Some ls \<Rightarrow> r = appended acc (dump_leaves ops s ts ls))"

lemma dumpSlice_leaves: "dumps_as ops s ts acc (slice_leaves (sc_Fields s) path vs) (dumpSlice ops s acc path vs ts)"
  by (simp add: dumps_as_def slice_leaves_def dumpSlice_def dump_elems_leaves)

text \<open>A value of a map, whatever its kind, is dumped like its leaves.\<close>

abbreviation dump_value :: "'f float_ops \<Rightarrow> Sender \<Rightarrow> 'f Sensor list \<Rightarrow> string list \<Rightarrow> 'f rval \<Rightarrow> int \<Rightarrow>
    sensor_error + 'f Sensor list" where
  "dump_value ops s sensors path item ts \<equiv>
     (case item of
        RSlice vs \<Rightarrow> dumpSlice ops s sensors path vs ts
      | RBytes b \<Rightarrow> dumpSlice ops s sensors path (map (\<lambda>c. RUint (of_char c)) b) ts
      | RMap m \<Rightarrow> dumpMap ops s sensors path m ts
      | _ \<Rightarrow> (case dumpSensor ops s path item ts of Inl err \<Rightarrow> Inl err | Inr x \<Rightarrow> Inr (sensors @ [x])))"

lemma dump_scalar:
  "(case dumpSensor ops s path v ts of Inl err \<Rightarrow> Inl err | Inr x \<Rightarrow> Inr (acc @ [x])) =
    appended acc (dump_leaves ops s ts [(path, v)])"
  by (cases "dumpSensor ops s path v ts") simp_all

lemma dumpMap_leaves:
  "names = sc_Fields s \<Longrightarrow> dumps_as ops s ts acc (leaves names path v) (dump_value ops s acc path v ts)"
  "names = sc_Fields s \<Longrightarrow> dumps_as ops s ts acc (map_leaves names path kvs) (dumpMap ops s acc path kvs ts)"
proof (induction names path v and names path kvs arbitrary: acc and acc rule: leaves_map_leaves.induct)
  case (6 names path k v kvs)
  show ?case
  proof (cases "leaves names (path @ [k]) v")
    case None
    then obtain err where "dump_value ops s acc (path @ [k]) v ts = Inl err"
      using "6.IH"(1) [OF "6.prems", of acc] by (auto simp: dumps_as_def)
    then show ?thesis using None by (simp add: dumps_as_def)
  next
    case l1: (Some l1)
    then have d: "dump_value ops s acc (path @ [k]) v ts = appended acc (dump_leaves ops s ts l1)"
      using "6.IH"(1) [OF "6.prems", of acc] by (simp add: dumps_as_def)
    note IH = "6.IH"(2) [OF l1 "6.prems"]
    show ?thesis
    proof (cases "dump_leaves ops s ts l1")
      case (Inl err)
      then have "dumpMap ops s acc path ((k, v) # kvs) ts = Inl err" using d by simp
      then show ?thesis using l1 Inl by (simp add: dumps_as_def dump_leaves_append split: option.split)
    next
      case (Inr xs)
      then have "dumpMap ops s acc path ((k, v) # kvs) ts = dumpMap ops s (acc @ xs) path kvs ts" using d by simp
      then show ?thesis using IH [of "acc @ xs"] l1 Inr
        by (cases "map_leaves names path kvs"; cases "dump_leaves ops s ts (the (map_leaves names path kvs))")
          (simp_all add: dumps_as_def dump_leaves_append)
    qed
  qed
qed (simp_all add: dumps_as_def [of _ _ _ _ "Some _"] dump_scalar dumpSlice_leaves del: dump_leaves.simps,
    simp_all add: dumps_as_def)

text \<open>The sensors of a list of leaves, one for each.\<close>

lemma dump_leaves_Inr:
  "dump_leaves ops s ts ls = Inr xs \<Longrightarrow> list_all2 (\<lambda>(path, v) x. dumpSensor ops s path v ts = Inr x) ls xs"
proof (induction ls arbitrary: xs)
  case (Cons l ls)
  obtain path v where l: "l = (path, v)" by fastforce
  then show ?case using Cons by (auto simp: bind_sum_Inr_iff)
qed simp

lemma dumpSensor_Inr:
  assumes "dumpSensor ops s path v ts = Inr x"
  shows "Ts x = ts \<and> sensor_value ops v = Inr (Value x)"
  using assms by (auto simp: dumpSensor_def Let_def split: sum.splits if_splits)

lemma schema_labels_lookup:
  "label \<notin> set schema \<Longrightarrow> map_of (schema_labels schema path m) label = map_of m label"
  by (induction schema path m rule: schema_labels.induct) auto

lemma schema_labels_nth:
  "distinct schema \<Longrightarrow> i < length schema \<Longrightarrow> i < length path \<Longrightarrow>
    map_of (schema_labels schema path m) (schema ! i) = Some (path ! i)"
  by (induction schema path m arbitrary: i rule: schema_labels.induct)
    (auto simp: nth_Cons' schema_labels_lookup split: if_splits)

definition plain_schema :: "string list \<Rightarrow> bool" where
  "plain_schema schema \<longleftrightarrow> distinct schema \<and> ''sensor'' \<notin> set schema \<and> ''prefix'' \<notin> set schema"

definition dot_free :: "string list \<Rightarrow> bool" where
  "dot_free path \<longleftrightarrow> path \<noteq> [] \<and> (\<forall>name\<in>set path. CHR ''.'' \<notin> set name)"

lemma Join_inject: "dot_free p \<Longrightarrow> dot_free q \<Longrightarrow> Join p ''.'' = Join q ''.'' \<longleftrightarrow> p = q"
  unfolding dot_free_def using Split_Join [of p "CHR ''.''"] Split_Join [of q "CHR ''.''"] by metis

text \<open>The labels of a sensor determine the path it came from.\<close>

lemma labels_inject:
  assumes p: "dumpSensor ops s p v ts = Inr x" "dot_free p" and q: "dumpSensor ops s q w ts = Inr y" "dot_free q"
    and schema: "plain_schema (sc_Schema s)" and eq: "Labels x = Labels y"
  shows "p = q"
proof (cases "sc_Schema s = []")
  case True
  then have "Labels x = [(''sensor'', sc_prefix s @ Join p ''.'')]" "Labels y = [(''sensor'', sc_prefix s @ Join q ''.'')]"
    using p(1) q(1) by (auto simp: dumpSensor_def split: sum.splits)
  then show ?thesis using eq Join_inject [OF p(2) q(2)] by simp
next
  case False
  define n where "n = length (sc_Schema s)"
  have labels: "n < length r \<and> (\<forall>i<n. map_of (Labels z) (sc_Schema s ! i) = Some (r ! i)) \<and>
      map_of (Labels z) ''sensor'' = Some (Join (drop n r) ''.'')"
    if "dumpSensor ops s r u ts = Inr z" "dot_free r" for r u z
  proof -
    have "Split (hd r) ''.'' = r" if "length r = 1"
      using that \<open>dot_free r\<close> by (cases r) (auto simp: dot_free_def Split_char_notin)
    then have "(if length r = 1 then Split (hd r) ''.'' else r) = r" by simp
    then have r: "n < length r" "Labels z = (let l = AList.update ''sensor'' (Join (drop n r) ''.'') (schema_labels (sc_Schema s) r [])
        in if sc_prefix s \<noteq> [] then AList.update ''prefix'' (TrimRight (sc_prefix s) ''.'') l else l)"
      using that(1) False by (auto simp: dumpSensor_def Let_def n_def Suc_le_eq split: sum.splits if_splits)
    have "sc_Schema s ! i \<noteq> ''sensor'' \<and> sc_Schema s ! i \<noteq> ''prefix''" if "i < n" for i
      using schema nth_mem [of i "sc_Schema s"] that unfolding plain_schema_def n_def by metis
    then show ?thesis
      using r schema schema_labels_nth [of "sc_Schema s" _ r "[]"] by (auto simp: Let_def plain_schema_def n_def)
  qed
  note lp = labels [OF p] and lq = labels [OF q]
  have "take n p = take n q"
  proof (rule nth_equalityI)
    fix i assume "i < length (take n p)"
    then have "i < n" by simp
    then show "take n p ! i = take n q ! i" using lp lq eq by (metis nth_take option.inject)
  qed (use lp lq in simp)
  moreover have "dot_free (drop n p)" "dot_free (drop n q)"
    using p(2) q(2) lp lq by (auto simp: dot_free_def dest: in_set_dropD)
  then have "drop n p = drop n q" using lp lq eq Join_inject by (metis option.inject)
  ultimately show ?thesis by (metis append_take_drop_id)
qed

lemma distinct_labels:
  assumes "dump_leaves ops s ts ls = Inr xs" and "distinct (map fst ls)" and "\<forall>p\<in>fst ` set ls. dot_free p"
    and "plain_schema (sc_Schema s)"
  shows "distinct (map Labels xs)"
proof -
  have a: "list_all2 (\<lambda>(path, v) x. dumpSensor ops s path v ts = Inr x) ls xs" by (rule dump_leaves_Inr [OF assms(1)])
  have "map Labels xs ! i \<noteq> map Labels xs ! j" if "i < length xs" "j < length xs" "i \<noteq> j" for i j
  proof
    assume "map Labels xs ! i = map Labels xs ! j"
    then have eq: "Labels (xs ! i) = Labels (xs ! j)" using that by simp
    have l: "length ls = length xs" using a by (rule list_all2_lengthD)
    have d: "dumpSensor ops s (fst (ls ! k)) (snd (ls ! k)) ts = Inr (xs ! k)" if "k < length xs" for k
      using list_all2_nthD2 [OF a that] by (simp add: case_prod_beta)
    have f: "dot_free (fst (ls ! k))" if "k < length xs" for k using assms(3) l that by simp
    have "fst (ls ! i) = fst (ls ! j)"
      using labels_inject [OF d [OF that(1)] f [OF that(1)] d [OF that(2)] f [OF that(2)] assms(4) eq] .
    then show False using assms(2) that l by (simp add: distinct_conv_nth)
  qed
  then show ?thesis by (simp add: distinct_conv_nth)
qed

section \<open>Lemmas on posting\<close>

lemma post_loop_after_timeout:
  "snd (post_loop retry post attempt True sendErr) \<noteq> None"
proof (induction retry post attempt "True" sendErr rule: post_loop.induct)
  case (1 retry post attempt sendErr)
  show ?case
  proof (cases "attempt \<ge> retry")
    case False
    then show ?thesis
      using 1 by (subst post_loop.simps) (auto simp: Let_def split: post_result.splits)
  qed (simp add: post_loop.simps)
qed

lemma post_loop_count: "attempt \<le> retry \<Longrightarrow> fst (post_loop retry post attempt t e) \<le> retry"
proof (induction retry post attempt t e rule: post_loop.induct)
  case (1 retry post attempt t e)
  show ?case
  proof (cases "attempt \<ge> retry")
    case False
    then show ?thesis
      using 1 by (subst post_loop.simps) (auto simp: Let_def split: post_result.splits prod.splits)
  qed (use 1 in \<open>simp add: post_loop.simps\<close>)
qed

lemma post_loop_first:
  assumes "0 < retry"
  shows "snd (post_loop retry post 0 False None) = None \<longleftrightarrow> post 1 = Response 200"
proof (cases "post 1")
  case (Response status)
  then show ?thesis
    using assms post_loop_after_timeout [of retry post 1 "Some (BadStatus 408)"]
    by (subst post_loop.simps) (auto simp: Let_def)
next
  case ContextDone
  then show ?thesis
    using assms post_loop_after_timeout [of retry post 1 None] by (subst post_loop.simps) (simp add: Let_def)
next
  case NetError
  then show ?thesis using assms by (subst post_loop.simps) (simp add: Let_def)
qed

text \<open>
  A payload list whose last item is bad is refused as a whole; a bad item before the last is left out
  without an error.
\<close>

definition item_error :: "'f float_ops \<Rightarrow> Sender \<Rightarrow> 'f Payload \<Rightarrow> int \<Rightarrow> sensor_error option" where
  "item_error ops s item ts = (case snd (push_item ops s item ts) of Inl e \<Rightarrow> Some e | Inr _ \<Rightarrow> None)"

lemma push_items_error:
  "data \<noteq> [] \<Longrightarrow> \<exists>s'. snd (push_items ops s data ts groups err) = item_error ops s' (last data) ts"
proof (induction data arbitrary: s groups err)
  case (Cons item data)
  obtain s' r where r: "push_item ops s item ts = (s', r)" by fastforce
  define groups' where "groups' = (case r of Inr (Some p) \<Rightarrow> groups @ [p] | _ \<Rightarrow> groups)"
  have step: "push_items ops s (item # data) ts groups err = push_items ops s' data ts groups' (item_error ops s item ts)"
    by (simp add: item_error_def groups'_def r split: sum.split option.split)
  show ?case
  proof (cases "data = []")
    case True
    then show ?thesis unfolding step by (intro exI [of _ s]) simp
  next
    case False
    then show ?thesis unfolding step using Cons.IH by simp
  qed
qed simp

section \<open>Properties\<close>

text \<open>
  C29. The sensors of a result are its leaves: dumping a map gives one sensor per scalar, in order,
  with its value and the time, or the error of the first scalar that is no number; a slice that does
  not fit the fields is an error. When keys, fields and schema are distinct, names are without dots
  and the schema does not use \<open>sensor\<close> or \<open>prefix\<close>, no two sensors of a push have the same labels.
\<close>

theorem solomon_sensors:
  shows "(case map_leaves (sc_Fields s) [] kvs of
      None \<Rightarrow> \<exists>err. dumpMap ops s [] [] kvs ts = Inl err
    | Some ls \<Rightarrow> dumpMap ops s [] [] kvs ts = dump_leaves ops s ts ls \<and>
        (\<forall>xs. dump_leaves ops s ts ls = Inr xs \<longrightarrow>
          map Ts xs = replicate (length ls) ts \<and>
          map (\<lambda>x. Inr (Value x)) xs = map (sensor_value ops \<circ> snd) ls \<and>
          (distinct (sc_Fields s) \<and> distinct (map fst kvs) \<and> distinct_entries kvs \<and>
           (\<forall>p\<in>fst ` set ls. dot_free p) \<and> plain_schema (sc_Schema s) \<longrightarrow> distinct (map Labels xs))))"
proof (cases "map_leaves (sc_Fields s) [] kvs")
  case None
  then show ?thesis using dumpMap_leaves(2) [OF refl, of ops s ts "[]" "[]" kvs] by (simp add: dumps_as_def)
next
  case (Some ls)
  have "dumpMap ops s [] [] kvs ts = dump_leaves ops s ts ls"
    using dumpMap_leaves(2) [OF refl, of ops s ts "[]" "[]" kvs] Some
    by (cases "dump_leaves ops s ts ls") (simp_all add: dumps_as_def)
  moreover have "map Ts xs = replicate (length ls) ts \<and>
      map (\<lambda>x. Inr (Value x)) xs = map (sensor_value ops \<circ> snd) ls" if xs: "dump_leaves ops s ts ls = Inr xs" for xs
    using dump_leaves_Inr [OF xs] dumpSensor_Inr [of ops s _ _ ts]
    by (induction ls xs rule: list_all2_induct) (auto simp: case_prod_beta)
  moreover have "distinct (map Labels xs)"
    if "dump_leaves ops s ts ls = Inr xs" "distinct (sc_Fields s)" "distinct (map fst kvs)" "distinct_entries kvs"
      "\<forall>p\<in>fst ` set ls. dot_free p" "plain_schema (sc_Schema s)" for xs
    using distinct_labels [OF that(1) leaves_distinct(2) [OF that(2) Some that(3,4)] that(5,6)] .
  ultimately show ?thesis unfolding Some by auto
qed

definition sample_ops :: "int float_ops" where
  "sample_ops = \<lparr>FloatOfInt = \<lambda>i. i, ParseFloat = \<lambda>t. if t = ''7'' then Some 7 else None, FormatV = \<lambda>v. [], FormatQ = \<lambda>b. []\<rparr>"

definition sample_sender :: Sender where
  "sample_sender = NewSender \<lparr>sc_API = [], sc_Project = ''p'', sc_Cluster = ''c'', sc_Service = ''svc'', sc_Timeout = 5,
     sc_Fields = [''75'', ''99''], sc_Schema = []\<rparr>"

theorem solomon_sensors_witness:
  "\<exists>xs. dumpMap sample_ops sample_sender [] [] [(''rt'', RSlice [RInt 3, RString ''7'']), (''rps'', RUint 4)] 5 = Inr xs \<and>
    map Value xs = [3, 7, 4] \<and> distinct (map Labels xs)"
proof -
  let ?kvs = "[(''rt'', RSlice [RInt 3, RString ''7'']), (''rps'', RUint 4)]"
  let ?ls = "[([''rt'', ''75''], RInt 3), ([''rt'', ''99''], RString ''7''), ([''rps''], RUint 4)] :: (string list \<times> int rval) list"
  have l: "map_leaves (sc_Fields sample_sender) [] ?kvs = Some ?ls"
    by (simp add: slice_leaves_def sample_sender_def NewSender_def Config.defs)
  obtain xs where xs: "dump_leaves sample_ops sample_sender 5 ?ls = Inr xs"
    by (simp add: dumpSensor_def sensor_value_def sample_ops_def sample_sender_def NewSender_def Config.defs)
  have "distinct (sc_Fields sample_sender)" "plain_schema (sc_Schema sample_sender)"
    by (simp_all add: sample_sender_def NewSender_def Config.defs plain_schema_def)
  moreover have "\<forall>p\<in>fst ` set ?ls. dot_free p" by (simp add: dot_free_def)
  moreover have "distinct (map fst ?kvs)" "distinct_entries ?kvs" by simp_all
  moreover have "map (sensor_value sample_ops \<circ> snd) ?ls = [Inr 3, Inr 7, Inr 4]"
    by (simp add: sensor_value_def sample_ops_def)
  ultimately have *: "dumpMap sample_ops sample_sender [] [] ?kvs 5 = Inr xs"
      "map (\<lambda>x. Inr (Value x)) xs = ([Inr 3, Inr 7, Inr 4] :: (sensor_error + int) list)" "distinct (map Labels xs)"
    using solomon_sensors [where s = sample_sender and kvs = ?kvs and ops = sample_ops and ts = 5] xs
    unfolding l option.case by metis+
  have "map (Inr :: int \<Rightarrow> sensor_error + int) (map Value xs) = map Inr [3, 7, 4]" using *(2) by (simp add: o_def)
  then have "map Value xs = [3, 7, 4]" by (rule map_injective [OF _ inj_Inr])
  then show ?thesis using *(1,3) by (intro exI [of _ xs] conjI)
qed

text \<open>
  C30. A worker posts a job at most \<open>Retry\<close> times, and reports success exactly when the first post is
  answered with 200: once a post has timed out, a later success is taken for a failure, and is posted
  again while attempts remain.
\<close>

theorem solomon_retries:
  assumes "0 < w_Retry w"
  shows "fst (sendToSolomon w post) \<le> w_Retry w \<and>
    (snd (sendToSolomon w post) = None \<longleftrightarrow> post 1 = Response 200) \<and>
    ((\<forall>k. 1 < k \<longrightarrow> post k = Response 200) \<and> post 1 = ContextDone \<longrightarrow>
      sendToSolomon w post = (w_Retry w, Some (Dropped (w_Retry w))))"
proof -
  have ok: "post_loop (w_Retry w) post attempt True e = (w_Retry w, Some (Dropped (w_Retry w)))"
    if "\<forall>k. 1 < k \<longrightarrow> post k = Response 200" "1 \<le> attempt" "attempt \<le> w_Retry w" for attempt e
    using that
  proof (induction "w_Retry w - attempt" arbitrary: attempt e)
    case 0
    then show ?case by (subst post_loop.simps) simp
  next
    case (Suc n)
    then show ?case using Suc.hyps(1) [of "Suc attempt" None] by (subst post_loop.simps) (simp add: Let_def)
  qed
  have "post_loop (w_Retry w) post 0 False None = post_loop (w_Retry w) post 1 True None" if "post 1 = ContextDone"
    using that assms by (subst post_loop.simps) (simp add: Let_def)
  then show ?thesis
    using assms post_loop_count [of 0 "w_Retry w" post False None] post_loop_first [OF assms] ok [of 1 None]
    by (auto simp: sendToSolomon_def)
qed

theorem solomon_retries_witness:
  "sendToSolomon (newWorker 0 postRetries 50) (\<lambda>k. if k = 1 then ContextDone else Response 200) = (3, Some (Dropped 3))"
  using solomon_retries [of "newWorker 0 postRetries 50" "\<lambda>k. if k = 1 then ContextDone else Response 200"]
  by (simp add: newWorker_def postRetries_def)

end
