(* ===== verification/ConnPool.thy ===== *)
theory ConnPool
  imports Prelude
begin

text \<open>
  \<open>senders/graphite/connectionpool.go\<close>: the connections of the graphite sender, one per endpoint. An
  entry is a pointer into \<open>pc_entries\<close>, a connection a number. \<open>Get\<close> is cut where it leaves the mutex:
  the goroutine that found no entry dials (\<open>pc_calls\<close>), stores the outcome, and then closes \<open>ready\<close>
  (\<open>pc_finishing\<close>). Other goroutines run between these steps. What a dial gives is an argument.
\<close>

section \<open>Dialling\<close>

datatype conn_arg = IntArg int | OtherArg

datatype 'e conn_error = NotEnoughArguments | BadArguments | DialFailed 'e nat

text \<open>Attempt \<open>i\<close> of \<open>retry\<close>; \<open>conn\<close> and \<open>err\<close> are the results so far.\<close>

function dial_attempts :: "int \<Rightarrow> (nat \<Rightarrow> 'e + nat) \<Rightarrow> nat \<Rightarrow> nat option \<times> 'e conn_error option \<Rightarrow>
    nat option \<times> 'e conn_error option" where
  "dial_attempts retry dial i res =
     (if int i > retry then res
      else case dial i of
        Inr conn \<Rightarrow> (Some conn, None)
      | Inl e \<Rightarrow> dial_attempts retry dial (Suc i) (None, Some (DialFailed e i)))"
  by pat_completeness auto
termination
  by (relation "measure (\<lambda>(retry, dial, i, res). nat (retry + 1 - int i))") auto

declare dial_attempts.simps [simp del]

definition NewConn :: "conn_arg list \<Rightarrow> (nat \<Rightarrow> 'e + nat) \<Rightarrow> nat option \<times> 'e conn_error option" where
  "NewConn args dial =
     (if length args < 2 then (None, Some NotEnoughArguments)
      else case (args ! 0, args ! 1) of
        (IntArg retry, IntArg timeout) \<Rightarrow> dial_attempts retry dial 1 (None, None)
      | _ \<Rightarrow> (None, Some BadArguments))"

section \<open>The pool\<close>

record 'e pool_entry =
  pe_service :: "nat option"
  pe_err :: "'e option"
  pe_ready :: bool

record 'e cacher =
  pc_cache :: "(string, nat) gomap"
  pc_entries :: "'e pool_entry list"
  pc_calls :: "(string \<times> nat) list"
  pc_finishing :: "nat list"
  pc_closed :: "nat list"

definition NewCacher :: "'e cacher" where
  "NewCacher = \<lparr>pc_cache = [], pc_entries = [], pc_calls = [], pc_finishing = [], pc_closed = []\<rparr>"

text \<open>\<open>Get\<close> under the mutex: the entry to wait for, made and to be dialled by this goroutine if new.\<close>

definition Get_lookup :: "string \<Rightarrow> 'e cacher \<Rightarrow> 'e cacher \<times> nat" where
  "Get_lookup name c =
     (case map_of (pc_cache c) name of
        Some p \<Rightarrow> (c, p)
      | None \<Rightarrow>
          let p = length (pc_entries c) in
          (c\<lparr>pc_entries := pc_entries c @ [\<lparr>pe_service = None, pe_err = None, pe_ready = False\<rparr>],
             pc_cache := AList.update name p (pc_cache c), pc_calls := (name, p) # pc_calls c\<rparr>, p))"

text \<open>
  The dial has returned: its results go into the entry, and an error takes the endpoint out of the
  cache. Between the two nothing is seen that could not be seen before both: the entry has no service
  and is not ready.
\<close>

definition Get_fetched :: "string \<Rightarrow> nat \<Rightarrow> nat option \<times> 'e option \<Rightarrow> 'e cacher \<Rightarrow> 'e cacher" where
  "Get_fetched name p r c =
     c\<lparr>pc_entries := (pc_entries c)[p := (pc_entries c ! p)\<lparr>pe_service := fst r, pe_err := snd r\<rparr>],
       pc_cache := (if snd r \<noteq> None then AList.delete name (pc_cache c) else pc_cache c),
       pc_calls := removeAll (name, p) (pc_calls c), pc_finishing := p # pc_finishing c\<rparr>"

definition Get_close :: "nat \<Rightarrow> 'e cacher \<Rightarrow> gopanic + 'e cacher" where
  "Get_close p c =
     (if pe_ready (pc_entries c ! p) then Inl CloseOfClosedChannel
      else Inr (c\<lparr>pc_entries := (pc_entries c)[p := (pc_entries c ! p)\<lparr>pe_ready := True\<rparr>],
                  pc_finishing := removeAll p (pc_finishing c)\<rparr>))"

text \<open>What \<open>Get\<close> returns once the entry is ready.\<close>

definition Get_result :: "nat \<Rightarrow> 'e cacher \<Rightarrow> nat option \<times> 'e option" where
  "Get_result p c = (pe_service (pc_entries c ! p), pe_err (pc_entries c ! p))"

text \<open>A whole \<open>Get\<close> with no other goroutine in the pool; \<open>None\<close> when it waits for a dial nobody makes.\<close>

definition pool_Get :: "string \<Rightarrow> nat option \<times> 'e option \<Rightarrow> 'e cacher \<Rightarrow> (gopanic + 'e cacher \<times> nat option \<times> 'e option) option" where
  "pool_Get name r c =
     (case map_of (pc_cache c) name of
        Some p \<Rightarrow> if pe_ready (pc_entries c ! p) then Some (Inr (c, Get_result p c)) else None
      | None \<Rightarrow>
          (case Get_lookup name c of (c, p) \<Rightarrow>
             Some (bind_sum (Get_close p (Get_fetched name p r c)) (\<lambda>c. Inr (c, Get_result p c)))))"

text \<open>
  \<open>Evict\<close> compares the address of the connection with that of every entry in map order; an entry whose
  dial has not returned has a nil service, which has no address.
\<close>

fun evict_scan :: "string list \<Rightarrow> nat \<Rightarrow> 'e cacher \<Rightarrow> gopanic + 'e cacher" where
  "evict_scan [] conn c = Inr c"
| "evict_scan (n # ns) conn c =
     (case map_of (pc_cache c) n of
        None \<Rightarrow> evict_scan ns conn c
      | Some p \<Rightarrow>
          (case pe_service (pc_entries c ! p) of
             None \<Rightarrow> Inl ZeroReflectValue
           | Some s \<Rightarrow>
               if s = conn then Inr (c\<lparr>pc_cache := AList.delete n (pc_cache c), pc_closed := s # pc_closed c\<rparr>)
               else evict_scan ns conn c))"

definition Evict :: "nat list \<Rightarrow> nat \<Rightarrow> 'e cacher \<Rightarrow> gopanic + 'e cacher" where
  "Evict order conn c = evict_scan (range_keys order (pc_cache c)) conn c"

section \<open>Runs\<close>

text \<open>Every dial that succeeds gives a connection of its own.\<close>

definition services :: "'e cacher \<Rightarrow> nat set" where
  "services c = {s. \<exists>e\<in>set (pc_entries c). pe_service e = Some s}"

definition dial_gives :: "nat option \<times> 'e option \<Rightarrow> 'e cacher \<Rightarrow> bool" where
  "dial_gives r c \<longleftrightarrow> (case r of (Some s, None) \<Rightarrow> s \<notin> services c | (None, Some err) \<Rightarrow> True | _ \<Rightarrow> False)"

inductive pool_step :: "'e cacher \<Rightarrow> gopanic + 'e cacher \<Rightarrow> bool" where
  lookup: "pool_step c (Inr (fst (Get_lookup name c)))"
| fetched: "(name, p) \<in> set (pc_calls c) \<Longrightarrow> dial_gives r c \<Longrightarrow> pool_step c (Inr (Get_fetched name p r c))"
| close_ready: "p \<in> set (pc_finishing c) \<Longrightarrow> pool_step c (Get_close p c)"
| evict: "pool_step c (Evict order conn c)"

inductive pool_reachable :: "'e cacher \<Rightarrow> bool" where
  init: "pool_reachable NewCacher"
| step: "pool_reachable c \<Longrightarrow> pool_step c (Inr c') \<Longrightarrow> pool_reachable c'"

inductive_cases pool_stepE: "pool_step c r"

section \<open>The invariant\<close>

abbreviation service_at :: "'e cacher \<Rightarrow> nat \<Rightarrow> nat option" where
  "service_at c p \<equiv> pe_service (pc_entries c ! p)"

text \<open>A call dials the endpoint whose entry is in the cache; an entry without a call has an open connection.\<close>

definition calls_inv :: "'e cacher \<Rightarrow> bool" where
  "calls_inv c \<longleftrightarrow> distinct (map fst (pc_calls c)) \<and>
     (\<forall>(name, p)\<in>set (pc_calls c). map_of (pc_cache c) name = Some p \<and> service_at c p = None \<and>
        \<not> pe_ready (pc_entries c ! p) \<and> p \<notin> set (pc_finishing c))"

definition pooled_inv :: "'e cacher \<Rightarrow> bool" where
  "pooled_inv c \<longleftrightarrow> go_map (pc_cache c) \<and>
     (\<forall>name p. map_of (pc_cache c) name = Some p \<longrightarrow> p < length (pc_entries c) \<and>
        ((name, p) \<in> set (pc_calls c) \<or> (\<exists>s. service_at c p = Some s \<and> s \<notin> set (pc_closed c))) \<and>
        (\<forall>m. map_of (pc_cache c) m = Some p \<longrightarrow> m = name))"

definition finishing_inv :: "'e cacher \<Rightarrow> bool" where
  "finishing_inv c \<longleftrightarrow>
     (\<forall>p\<in>set (pc_finishing c). p < length (pc_entries c) \<and> \<not> pe_ready (pc_entries c ! p))"

definition services_inv :: "'e cacher \<Rightarrow> bool" where
  "services_inv c \<longleftrightarrow> set (pc_closed c) \<subseteq> services c \<and>
     (\<forall>p q. p < length (pc_entries c) \<longrightarrow> q < length (pc_entries c) \<longrightarrow> service_at c p \<noteq> None \<longrightarrow>
        service_at c p = service_at c q \<longrightarrow> p = q)"

definition pool_inv :: "'e cacher \<Rightarrow> bool" where
  "pool_inv c \<longleftrightarrow> calls_inv c \<and> pooled_inv c \<and> finishing_inv c \<and> services_inv c"

lemma services_nth: "services c = {s. \<exists>p<length (pc_entries c). service_at c p = Some s}"
  unfolding services_def by (auto simp: in_set_conv_nth) (metis nth_mem)

lemma calls_invD:
  assumes "pool_inv c" and "(n, p) \<in> set (pc_calls c)"
  shows "map_of (pc_cache c) n = Some p" "service_at c p = None" "\<not> pe_ready (pc_entries c ! p)" "p \<notin> set (pc_finishing c)"
  using assms unfolding pool_inv_def calls_inv_def by blast+

lemma pool_cacheD:
  assumes "pool_inv c" and "map_of (pc_cache c) n = Some p"
  shows "p < length (pc_entries c)"
    "(n, p) \<in> set (pc_calls c) \<or> (\<exists>s. service_at c p = Some s \<and> s \<notin> set (pc_closed c))"
    "map_of (pc_cache c) m = Some p \<Longrightarrow> m = n"
  using assms unfolding pool_inv_def pooled_inv_def by blast+

lemma services_invD:
  assumes "pool_inv c" and "p < length (pc_entries c)" and "service_at c p = Some s"
  shows "s \<in> services c" "q < length (pc_entries c) \<Longrightarrow> service_at c q = Some s \<Longrightarrow> q = p"
proof -
  show "s \<in> services c" using assms(2,3) unfolding services_nth by blast
  assume "q < length (pc_entries c)" "service_at c q = Some s"
  then show "q = p" using assms unfolding pool_inv_def services_inv_def by (metis option.distinct(1))
qed

lemma closed_services: "pool_inv c \<Longrightarrow> s \<in> set (pc_closed c) \<Longrightarrow> s \<in> services c"
  unfolding pool_inv_def services_inv_def by blast

lemma pool_inv_init: "pool_inv NewCacher"
  by (simp add: pool_inv_def calls_inv_def pooled_inv_def finishing_inv_def services_inv_def NewCacher_def)

lemma pool_inv_lookup:
  assumes "pool_inv c"
  shows "pool_inv (fst (Get_lookup name c))"
proof (cases "map_of (pc_cache c) name")
  case None
  have p: "p < length (pc_entries c)" if "map_of (pc_cache c) n = Some p" for n p
    using assms that by (auto simp: pool_inv_def pooled_inv_def)
  have calls: "name \<notin> fst ` set (pc_calls c)" "p < length (pc_entries c)" if "(n, p) \<in> set (pc_calls c)" for n p
    using assms None that p by (auto simp: pool_inv_def calls_inv_def)
  have "name \<notin> fst ` set (pc_calls c)" using assms None by (force simp: pool_inv_def calls_inv_def)
  moreover have "length (pc_entries c) \<notin> set (pc_finishing c)" using assms by (auto simp: pool_inv_def finishing_inv_def)
  ultimately have "calls_inv (fst (Get_lookup name c))"
    using assms None calls(2)
    by (auto simp: pool_inv_def calls_inv_def Get_lookup_def Let_def nth_append dest: calls(2))
  moreover have "pooled_inv (fst (Get_lookup name c))"
    using assms None p by (auto simp: pool_inv_def pooled_inv_def Get_lookup_def Let_def nth_append less_Suc_eq)
  moreover have "finishing_inv (fst (Get_lookup name c))"
    using assms None by (auto simp: pool_inv_def finishing_inv_def Get_lookup_def Let_def nth_append)
  moreover have "services_inv (fst (Get_lookup name c))"
    using assms None by (auto simp: pool_inv_def services_inv_def Get_lookup_def Let_def nth_append services_def)
  ultimately show ?thesis by (simp add: pool_inv_def)
qed (use assms in \<open>simp add: Get_lookup_def\<close>)

text \<open>The state after a dial, field by field.\<close>

lemma Get_fetched_fields:
  "pc_calls (Get_fetched name p r c) = removeAll (name, p) (pc_calls c)"
  "pc_finishing (Get_fetched name p r c) = p # pc_finishing c"
  "pc_closed (Get_fetched name p r c) = pc_closed c"
  "length (pc_entries (Get_fetched name p r c)) = length (pc_entries c)"
  "map_of (pc_cache (Get_fetched name p r c)) =
    (if snd r \<noteq> None then (map_of (pc_cache c))(name := None) else map_of (pc_cache c))"
  "go_map (pc_cache (Get_fetched name p r c)) = go_map (if snd r \<noteq> None then AList.delete name (pc_cache c) else pc_cache c)"
  by (simp_all add: Get_fetched_def)

lemma Get_fetched_at:
  assumes "p < length (pc_entries c)"
  shows "service_at (Get_fetched name p r c) q = (if q = p then fst r else service_at c q)"
    "pe_ready (pc_entries (Get_fetched name p r c) ! q) = pe_ready (pc_entries c ! q)"
  using assms by (simp_all add: Get_fetched_def nth_list_update)

lemma other_call:
  assumes inv: "pool_inv c" and call: "(name, p) \<in> set (pc_calls c)" and "(n, q) \<in> set (pc_calls c)" "(n, q) \<noteq> (name, p)"
  shows "n \<noteq> name \<and> q \<noteq> p"
proof -
  have p: "map_of (pc_cache c) name = Some p" by (rule calls_invD(1) [OF inv call])
  have m: "map_of (pc_cache c) n = Some q" by (rule calls_invD(1) [OF inv assms(3)])
  have "n = name" if "q = p" using m unfolding that by (rule pool_cacheD(3) [OF inv p])
  moreover have "q = p" if "n = name" using m p that by simp
  ultimately show ?thesis using assms(4) by blast
qed

lemma calls_inv_fetched:
  assumes inv: "pool_inv c" and call: "(name, p) \<in> set (pc_calls c)"
  shows "calls_inv (Get_fetched name p r c)"
  unfolding calls_inv_def Get_fetched_fields
proof (intro conjI ballI)
  note plen = pool_cacheD(1) [OF inv calls_invD(1) [OF inv call]]
  have cinv: "calls_inv c" using inv by (simp add: pool_inv_def)
  show "distinct (map fst (removeAll (name, p) (pc_calls c)))"
    using cinv by (auto simp: calls_inv_def distinct_map distinct_removeAll inj_on_def)
  fix x assume x: "x \<in> set (removeAll (name, p) (pc_calls c))"
  obtain n q where nq: "x = (n, q)" by (cases x)
  then have c: "(n, q) \<in> set (pc_calls c)" "n \<noteq> name" "q \<noteq> p" using x other_call [OF inv call, of n q] by auto
  then show "case x of (n, q) \<Rightarrow>
      (if snd r \<noteq> None then (map_of (pc_cache c))(name := None) else map_of (pc_cache c)) n = Some q \<and>
      service_at (Get_fetched name p r c) q = None \<and> \<not> pe_ready (pc_entries (Get_fetched name p r c) ! q) \<and>
      q \<notin> set (p # pc_finishing c)"
    using calls_invD [OF inv c(1)] by (simp add: nq Get_fetched_at [OF plen])
qed

lemma pooled_inv_fetched:
  assumes inv: "pool_inv c" and call: "(name, p) \<in> set (pc_calls c)" and r: "dial_gives r c"
  shows "pooled_inv (Get_fetched name p r c)"
  unfolding pooled_inv_def Get_fetched_fields
proof (intro conjI allI impI)
  note p = calls_invD(1) [OF inv call]
  note at = Get_fetched_at(1) [OF pool_cacheD(1) [OF inv p]]
  have "go_map (pc_cache c)" using inv by (simp add: pool_inv_def pooled_inv_def)
  then show "go_map (if snd r \<noteq> None then AList.delete name (pc_cache c) else pc_cache c)" by simp
  fix n q assume n: "(if snd r \<noteq> None then (map_of (pc_cache c))(name := None) else map_of (pc_cache c)) n = Some q"
  then have nq: "map_of (pc_cache c) n = Some q" by (simp split: if_splits)
  show "q < length (pc_entries c)" by (rule pool_cacheD(1) [OF inv nq])
  show "(n, q) \<in> set (removeAll (name, p) (pc_calls c)) \<or>
      (\<exists>s. service_at (Get_fetched name p r c) q = Some s \<and> s \<notin> set (pc_closed c))"
  proof (cases "n = name")
    case True
    then have "snd r = None" "q = p" using n nq p by (auto split: if_splits)
    moreover from this obtain s where "fst r = Some s" "s \<notin> services c"
      using r by (cases r) (auto simp: dial_gives_def split: option.splits)
    ultimately show ?thesis using closed_services [OF inv] by (auto simp: at)
  next
    case False
    then have "q \<noteq> p" using pool_cacheD(3) [OF inv p] nq by blast
    then show ?thesis using pool_cacheD(2) [OF inv nq] False by (simp add: at)
  qed
  fix m assume "(if snd r \<noteq> None then (map_of (pc_cache c))(name := None) else map_of (pc_cache c)) m = Some q"
  then show "m = n" using pool_cacheD(3) [OF inv nq] by (simp split: if_splits)
qed

lemma services_inv_fetched:
  assumes inv: "pool_inv c" and call: "(name, p) \<in> set (pc_calls c)" and r: "dial_gives r c"
  shows "services_inv (Get_fetched name p r c)"
  unfolding services_inv_def Get_fetched_fields
proof (intro conjI allI impI)
  let ?c = "Get_fetched name p r c"
  note p = calls_invD [OF inv call]
  note at = Get_fetched_at(1) [OF pool_cacheD(1) [OF inv p(1)]]
  have "s \<in> services ?c" if s: "s \<in> services c" for s
  proof -
    obtain q where q: "q < length (pc_entries c)" "service_at c q = Some s" using s unfolding services_nth by blast
    then have "service_at ?c q = Some s" using p(2) by (auto simp: at)
    then show ?thesis using q(1) unfolding services_nth Get_fetched_fields by blast
  qed
  then show "set (pc_closed c) \<subseteq> services ?c" using closed_services [OF inv] by blast
  fix q q' assume q: "q < length (pc_entries c)" "q' < length (pc_entries c)" "service_at ?c q \<noteq> None" "service_at ?c q = service_at ?c q'"
  then obtain s where s: "service_at ?c q = Some s" "service_at ?c q' = Some s" by auto
  have fresh: "service_at c u \<noteq> Some s" if "fst r = Some s" "u < length (pc_entries c)" for u
    using r that unfolding dial_gives_def services_nth by (cases r) (auto split: option.splits)
  show "q = q'"
  proof (cases "q = p \<or> q' = p")
    case True
    then show ?thesis using s fresh q(1,2) by (auto simp: at split: if_splits)
  next
    case False
    then show ?thesis using services_invD(2) [OF inv q(2) _ q(1)] s by (simp add: at)
  qed
qed

lemma pool_inv_fetched:
  assumes inv: "pool_inv c" and call: "(name, p) \<in> set (pc_calls c)" and r: "dial_gives r c"
  shows "pool_inv (Get_fetched name p r c)"
proof -
  note p = calls_invD [OF inv call]
  note plen = pool_cacheD(1) [OF inv p(1)]
  have "finishing_inv (Get_fetched name p r c)"
    unfolding finishing_inv_def Get_fetched_fields Get_fetched_at [OF plen]
    using inv p plen by (auto simp: pool_inv_def finishing_inv_def)
  then show ?thesis
    using calls_inv_fetched [OF inv call] pooled_inv_fetched [OF assms] services_inv_fetched [OF assms] by (simp add: pool_inv_def)
qed

lemma pool_inv_close:
  assumes inv: "pool_inv c" and p: "p \<in> set (pc_finishing c)"
  shows "\<exists>c'. Get_close p c = Inr c' \<and> pool_inv c'"
proof -
  have fin: "p < length (pc_entries c)" "\<not> pe_ready (pc_entries c ! p)"
    using inv p unfolding pool_inv_def finishing_inv_def by blast+
  define c' where "c' = c\<lparr>pc_entries := (pc_entries c)[p := (pc_entries c ! p)\<lparr>pe_ready := True\<rparr>],
    pc_finishing := removeAll p (pc_finishing c)\<rparr>"
  have at: "service_at c' q = service_at c q" "q \<noteq> p \<Longrightarrow> pe_ready (pc_entries c' ! q) = pe_ready (pc_entries c ! q)" for q
    using fin(1) by (simp_all add: c'_def nth_list_update)
  have flds: "pc_calls c' = pc_calls c" "pc_cache c' = pc_cache c" "pc_closed c' = pc_closed c"
      "pc_finishing c' = removeAll p (pc_finishing c)" "length (pc_entries c') = length (pc_entries c)"
    by (simp_all add: c'_def)
  have "calls_inv c'"
    unfolding calls_inv_def flds
  proof (intro conjI ballI)
    show "distinct (map fst (pc_calls c))" using inv by (simp add: pool_inv_def calls_inv_def)
    fix x assume x: "x \<in> set (pc_calls c)"
    obtain n q where nq: "x = (n, q)" by (cases x)
    note d = calls_invD [OF inv x [unfolded nq]]
    have "q \<noteq> p" using d(4) p by blast
    then show "case x of (n, q) \<Rightarrow> map_of (pc_cache c) n = Some q \<and> service_at c' q = None \<and>
        \<not> pe_ready (pc_entries c' ! q) \<and> q \<notin> set (removeAll p (pc_finishing c))" using d nq at by simp
  qed
  moreover have "pooled_inv c'" using inv unfolding pool_inv_def pooled_inv_def flds at by blast
  moreover have "finishing_inv c'" using inv at unfolding pool_inv_def finishing_inv_def flds by auto
  moreover have "services_inv c'" using inv unfolding pool_inv_def services_inv_def services_nth flds at by blast
  ultimately show ?thesis using fin(2) by (simp add: Get_close_def c'_def pool_inv_def)
qed

section \<open>Eviction\<close>

definition dialling :: "'e cacher \<Rightarrow> string \<Rightarrow> bool" where
  "dialling c n \<longleftrightarrow> n \<in> fst ` set (pc_calls c)"

definition owns :: "'e cacher \<Rightarrow> nat \<Rightarrow> string \<Rightarrow> bool" where
  "owns c conn n \<longleftrightarrow> (case map_of (pc_cache c) n of None \<Rightarrow> False | Some p \<Rightarrow> service_at c p = Some conn)"

definition evicted :: "'e cacher \<Rightarrow> nat \<Rightarrow> string \<Rightarrow> 'e cacher" where
  "evicted c conn n = c\<lparr>pc_cache := AList.delete n (pc_cache c), pc_closed := conn # pc_closed c\<rparr>"

lemma dialling_iff:
  assumes inv: "pool_inv c" and n: "map_of (pc_cache c) n = Some p"
  shows "dialling c n \<longleftrightarrow> service_at c p = None"
proof
  assume "dialling c n"
  then obtain q where q: "(n, q) \<in> set (pc_calls c)" by (auto simp: dialling_def)
  show "service_at c p = None" using calls_invD(1,2) [OF inv q] n by simp
next
  assume "service_at c p = None"
  then have "(n, p) \<in> set (pc_calls c)" using pool_cacheD(2) [OF inv n] by simp
  then show "dialling c n" by (force simp: dialling_def)
qed

lemma evict_scan_result:
  assumes inv: "pool_inv c"
  shows "evict_scan ns conn c =
    (case find (\<lambda>n. owns c conn n \<or> dialling c n) ns of
       None \<Rightarrow> Inr c
     | Some n \<Rightarrow> if owns c conn n then Inr (evicted c conn n) else Inl ZeroReflectValue)"
proof (induction ns)
  case (Cons n ns)
  show ?case
  proof (cases "map_of (pc_cache c) n")
    case None
    then have "\<not> dialling c n" using calls_invD(1) [OF inv] by (fastforce simp: dialling_def)
    then show ?thesis using None Cons.IH by (simp add: owns_def)
  next
    case (Some p)
    then show ?thesis
      using Cons.IH dialling_iff [OF inv Some] by (auto simp: owns_def evicted_def split: option.split)
  qed
qed simp

lemma pool_inv_evicted:
  assumes inv: "pool_inv c" and own: "owns c conn n"
  shows "pool_inv (evicted c conn n)"
proof -
  obtain p where p: "map_of (pc_cache c) n = Some p" "service_at c p = Some conn"
    using own by (auto simp: owns_def split: option.splits)
  note plen = pool_cacheD(1) [OF inv p(1)]
  have flds: "pc_calls (evicted c conn n) = pc_calls c" "map_of (pc_cache (evicted c conn n)) = (map_of (pc_cache c))(n := None)"
      "pc_closed (evicted c conn n) = conn # pc_closed c" "pc_finishing (evicted c conn n) = pc_finishing c"
      "pc_entries (evicted c conn n) = pc_entries c" "go_map (pc_cache (evicted c conn n)) = go_map (AList.delete n (pc_cache c))"
    by (simp_all add: evicted_def)
  have not_n: "m \<noteq> n" if "(m, q) \<in> set (pc_calls c)" for m q
    using calls_invD(1,2) [OF inv that] p by auto
  have "calls_inv (evicted c conn n)"
    unfolding calls_inv_def flds
  proof (intro conjI ballI)
    show "distinct (map fst (pc_calls c))" using inv by (simp add: pool_inv_def calls_inv_def)
    fix x assume x: "x \<in> set (pc_calls c)"
    obtain m q where mq: "x = (m, q)" by (cases x)
    show "case x of (m, q) \<Rightarrow> ((map_of (pc_cache c))(n := None)) m = Some q \<and> service_at c q = None \<and>
        \<not> pe_ready (pc_entries c ! q) \<and> q \<notin> set (pc_finishing c)"
      using calls_invD [OF inv x [unfolded mq]] not_n [OF x [unfolded mq]] mq by simp
  qed
  moreover have "pooled_inv (evicted c conn n)"
    unfolding pooled_inv_def flds
  proof (intro conjI allI impI)
    show "go_map (AList.delete n (pc_cache c))" using inv by (simp add: pool_inv_def pooled_inv_def)
    fix m q assume "((map_of (pc_cache c))(n := None)) m = Some q"
    then have m: "m \<noteq> n" "map_of (pc_cache c) m = Some q" by (simp_all split: if_splits)
    show "q < length (pc_entries c)" by (rule pool_cacheD(1) [OF inv m(2)])
    have "service_at c q \<noteq> Some conn"
    proof
      assume "service_at c q = Some conn"
      then have "q = p" using services_invD(2) [OF inv plen p(2) pool_cacheD(1) [OF inv m(2)]] by simp
      then show False using pool_cacheD(3) [OF inv p(1)] m by blast
    qed
    then show "(m, q) \<in> set (pc_calls c) \<or> (\<exists>s. service_at c q = Some s \<and> s \<notin> set (conn # pc_closed c))"
      using pool_cacheD(2) [OF inv m(2)] by auto
    fix k assume "((map_of (pc_cache c))(n := None)) k = Some q"
    then show "k = m" using pool_cacheD(3) [OF inv m(2)] by (simp split: if_splits)
  qed
  moreover have "finishing_inv (evicted c conn n)" using inv unfolding pool_inv_def finishing_inv_def flds by blast
  moreover have "services_inv (evicted c conn n)"
    using inv services_invD(1) [OF inv plen p(2)] unfolding pool_inv_def services_inv_def services_def flds by auto
  ultimately show ?thesis by (simp add: pool_inv_def)
qed

lemma pool_step_inv:
  assumes "pool_step c r" and inv: "pool_inv c"
  shows "r = Inl ZeroReflectValue \<or> (\<exists>c'. r = Inr c' \<and> pool_inv c')"
  using assms(1)
proof cases
  case (lookup name)
  then show ?thesis using pool_inv_lookup [OF inv] by blast
next
  case (fetched name p res)
  then show ?thesis using pool_inv_fetched [OF inv] by blast
next
  case (close_ready p)
  then show ?thesis using pool_inv_close [OF inv] by blast
next
  case (evict order conn)
  then show ?thesis using inv pool_inv_evicted [OF inv]
    by (auto simp: Evict_def evict_scan_result [OF inv] split: option.split)
qed

interpretation pool_run: panicking_steps pool_step pool_inv "\<lambda>p. p = ZeroReflectValue"
  by unfold_locales (use pool_step_inv in blast)

lemma pool_reachable_inv: "pool_reachable c \<Longrightarrow> pool_inv c"
  by (induction rule: pool_reachable.induct) (blast intro: pool_inv_init pool_run.calm.step_inv)+

section \<open>Properties\<close>

text \<open>
  C32. In every run of the pool an endpoint is dialled by one goroutine at a time, an endpoint in the pool
  that is not being dialled has an open connection that no other endpoint has, and \<open>ready\<close> is closed
  once. Evicting a connection closes it and takes out exactly its endpoint, unless the map is visited at
  an endpoint still being dialled first: then it panics.
\<close>

theorem pool_connections:
  assumes "pool_reachable c"
  shows "distinct (map fst (pc_calls c)) \<and>
    (\<forall>n p. map_of (pc_cache c) n = Some p \<and> \<not> dialling c n \<longrightarrow>
      (\<exists>s. service_at c p = Some s \<and> s \<notin> set (pc_closed c) \<and> (\<forall>m. owns c s m \<longrightarrow> m = n))) \<and>
    \<not> pool_step c (Inl CloseOfClosedChannel) \<and>
    Evict order conn c =
      (case find (\<lambda>n. owns c conn n \<or> dialling c n) (range_keys order (pc_cache c)) of
         None \<Rightarrow> Inr c
       | Some n \<Rightarrow> if owns c conn n then Inr (evicted c conn n) else Inl ZeroReflectValue)"
proof -
  have inv: "pool_inv c" using assms by (rule pool_reachable_inv)
  have "\<exists>s. service_at c p = Some s \<and> s \<notin> set (pc_closed c) \<and> (\<forall>m. owns c s m \<longrightarrow> m = n)"
    if n: "map_of (pc_cache c) n = Some p" and d: "\<not> dialling c n" for n p
  proof -
    have "(n, p) \<notin> set (pc_calls c)" using d by (force simp: dialling_def)
    then obtain s where s: "service_at c p = Some s" "s \<notin> set (pc_closed c)" using pool_cacheD(2) [OF inv n] by blast
    have "m = n" if own: "owns c s m" for m
    proof -
      obtain q where q: "map_of (pc_cache c) m = Some q" "service_at c q = Some s"
        using own by (auto simp: owns_def split: option.splits)
      have "q = p" using services_invD(2) [OF inv pool_cacheD(1) [OF inv n] s(1) pool_cacheD(1) [OF inv q(1)] q(2)] .
      then show ?thesis using pool_cacheD(3) [OF inv n] q(1) by blast
    qed
    then show ?thesis using s by blast
  qed
  moreover have "distinct (map fst (pc_calls c))" using inv by (simp add: pool_inv_def calls_inv_def)
  moreover have "\<not> pool_step c (Inl CloseOfClosedChannel)" using pool_run.no_panic [OF inv] by blast
  ultimately show ?thesis unfolding Evict_def evict_scan_result [OF inv] by blast
qed

text \<open>One endpoint connected, another being dialled: evicting the first depends on the order of the map.\<close>

definition two_endpoints :: "string cacher" where
  "two_endpoints = fst (Get_lookup ''b'' (Get_fetched ''a'' 0 (Some 7, None) (fst (Get_lookup ''a'' NewCacher))))"

theorem pool_connections_witness:
  "pool_reachable two_endpoints \<and>
    (\<exists>c. Evict [0] 7 two_endpoints = Inr c \<and> pc_closed c = [7] \<and> pc_cache c = [(''b'', 1)]) \<and>
    Evict [1] 7 two_endpoints = Inl ZeroReflectValue"
proof -
  have "pool_reachable (fst (Get_lookup ''a'' (NewCacher :: string cacher)))"
    by (rule pool_reachable.step [OF pool_reachable.init pool_step.lookup])
  then have "pool_reachable (Get_fetched ''a'' 0 (Some 7, None) (fst (Get_lookup ''a'' (NewCacher :: string cacher))))"
    by (rule pool_reachable.step [OF _ pool_step.fetched])
      (simp_all add: Get_lookup_def NewCacher_def dial_gives_def services_def)
  then have reach: "pool_reachable two_endpoints"
    unfolding two_endpoints_def by (rule pool_reachable.step [OF _ pool_step.lookup])
  have own: "owns two_endpoints 7 ''a''" "dialling two_endpoints ''b''" "\<not> owns two_endpoints 7 ''b''"
      "\<not> dialling two_endpoints ''a''" "range_keys [0] (pc_cache two_endpoints) = [''a'', ''b'']"
      "range_keys [1] (pc_cache two_endpoints) = [''b'', ''a'']" by code_simp+
  have "evicted two_endpoints 7 ''a'' = two_endpoints\<lparr>pc_cache := [(''b'', 1)], pc_closed := [7]\<rparr>" by code_simp
  then show ?thesis
    using reach own pool_connections [OF reach, of "[0]" 7] pool_connections [OF reach, of "[1]" 7] by simp
qed

end
