(* ===== verification/Graphite.thy ===== *)
theory Graphite
  imports SenderData ConnPool
begin

text \<open>
  \<open>senders/graphite/graphite.go\<close>: the scalars of a result are written to a connection as lines of the
  graphite protocol. The connection is the list of the lines it took; an argument says which writes
  fail. \<open>NameStack\<close> is a slice passed by value: a callee only writes behind the names of its caller, so
  the caller's stack is unchanged by a call, however it returns.
\<close>

section \<open>Data\<close>

record GraphiteConfig =
  gc_Cluster :: string
  gc_Endpoint :: string
  gc_Fields :: "string list"

record GraphiteSender =
  g_cluster :: string
  g_endpoint :: string
  g_fields :: "string list"

definition graphite_NewSender :: "GraphiteConfig \<Rightarrow> GraphiteSender" where
  "graphite_NewSender cfg = \<lparr>g_cluster = gc_Cluster cfg, g_endpoint = gc_Endpoint cfg, g_fields = gc_Fields cfg\<rparr>"

text \<open>A connection, and whether it has been evicted from the pool after a failed write.\<close>

record sink =
  Lines :: "string list"
  Evicted :: bool

datatype graphite_error = WriteError | SliceMismatch nat nat

text \<open>How a call ends early: with an error, or a panic of the goroutine.\<close>

datatype stop = Failed graphite_error | Panics gopanic

type_synonym written = "sink \<times> stop option"

section \<open>Lines\<close>

definition formatSubgroup :: "string \<Rightarrow> string" where
  "formatSubgroup input = ReplaceAll (ReplaceAll input ''.'' ''_'') ''-'' ''_''"

definition makePoint :: "string \<Rightarrow> string \<Rightarrow> NameStack \<Rightarrow> string \<Rightarrow> int \<Rightarrow> string" where
  "makePoint cluster subgroup metric value timestamp =
     (let subgroup = formatSubgroup subgroup in
      cluster @ ''.combaine'' @ ''.'' @ subgroup @ ''.'' @ Join metric ''.'' @ '' '' @ value
        @ '' '' @ Itoa timestamp @ [CHR 0x0A])"

definition graphite_send :: "(nat \<Rightarrow> bool) \<Rightarrow> sink \<Rightarrow> string \<Rightarrow> written" where
  "graphite_send fails sock line =
     (if fails (length (Lines sock)) then (sock\<lparr>Evicted := True\<rparr>, Some (Failed WriteError))
      else (sock\<lparr>Lines := Lines sock @ [line]\<rparr>, None))"

type_synonym point_format = "NameStack \<Rightarrow> string \<Rightarrow> int \<Rightarrow> string"

definition sendInterface :: "(nat \<Rightarrow> bool) \<Rightarrow> sink \<Rightarrow> NameStack \<Rightarrow> point_format \<Rightarrow> string \<Rightarrow> int \<Rightarrow> written" where
  "sendInterface fails sock metricName f value timestamp = graphite_send fails sock (f metricName value timestamp)"

section \<open>Values\<close>

fun send_elems :: "'f float_ops \<Rightarrow> (nat \<Rightarrow> bool) \<Rightarrow> sink \<Rightarrow> NameStack \<Rightarrow> point_format \<Rightarrow> (string \<times> 'f rval) list \<Rightarrow> int \<Rightarrow>
    written" where
  "send_elems ops fails sock metricName f [] timestamp = (sock, None)"
| "send_elems ops fails sock metricName f ((field, item) # items) timestamp =
     (case sendInterface fails sock (NameStack_Push field metricName) f (InterfaceToString ops item) timestamp of
        (sock, Some err) \<Rightarrow> (sock, Some err)
      | (sock, None) \<Rightarrow> send_elems ops fails sock metricName f items timestamp)"

definition sendSlice :: "'f float_ops \<Rightarrow> (nat \<Rightarrow> bool) \<Rightarrow> GraphiteSender \<Rightarrow> sink \<Rightarrow> NameStack \<Rightarrow> point_format \<Rightarrow>
    'f rval list \<Rightarrow> int \<Rightarrow> written" where
  "sendSlice ops fails g sock metricName f vs timestamp =
     (if length (g_fields g) = 0 \<or> length (g_fields g) \<noteq> length vs
      then (sock, Some (Failed (SliceMismatch (length (g_fields g)) (length vs))))
      else send_elems ops fails sock metricName f (zip (g_fields g) vs) timestamp)"

text \<open>
  A nil in a map has no kind; the default case asks \<open>reflect\<close> for its value, which panics. The entries
  are in the order of \<open>MapKeys\<close>.
\<close>

fun sendMap :: "'f float_ops \<Rightarrow> (nat \<Rightarrow> bool) \<Rightarrow> GraphiteSender \<Rightarrow> sink \<Rightarrow> NameStack \<Rightarrow> point_format \<Rightarrow>
    (string \<times> 'f rval) list \<Rightarrow> int \<Rightarrow> written" where
  "sendMap ops fails g sock metricName f [] timestamp = (sock, None)"
| "sendMap ops fails g sock metricName f ((key, item) # kvs) timestamp =
     (case (case item of
        RSlice vs \<Rightarrow> sendSlice ops fails g sock (NameStack_Push key metricName) f vs timestamp
      | RBytes b \<Rightarrow> sendSlice ops fails g sock (NameStack_Push key metricName) f (map (\<lambda>c. RUint (of_char c)) b) timestamp
      | RMap m \<Rightarrow> sendMap ops fails g sock (NameStack_Push key metricName) f m timestamp
      | RNil \<Rightarrow> (sock, Some (Panics ZeroReflectValue))
      | _ \<Rightarrow> sendInterface fails sock (NameStack_Push key metricName) f (InterfaceToString ops item) timestamp) of
        (sock, Some err) \<Rightarrow> (sock, Some err)
      | (sock, None) \<Rightarrow> sendMap ops fails g sock metricName f kvs timestamp)"

section \<open>Payloads\<close>

text \<open>
  The stack of names is shared by the payloads: a payload without a subgroup name is skipped after its
  aggregate has been pushed, and nothing pops it.
\<close>

definition graphite_item :: "'f float_ops \<Rightarrow> (nat \<Rightarrow> bool) \<Rightarrow> GraphiteSender \<Rightarrow> sink \<Rightarrow> NameStack \<Rightarrow> string \<Rightarrow> 'f rval \<Rightarrow>
    int \<Rightarrow> written" where
  "graphite_item ops fails g sock metricName subgroup result timestamp =
     (let pointFormatter = makePoint (g_cluster g) subgroup in
      case result of
        RSlice vs \<Rightarrow> sendSlice ops fails g sock metricName pointFormatter vs timestamp
      | RBytes b \<Rightarrow> sendSlice ops fails g sock metricName pointFormatter (map (\<lambda>c. RUint (of_char c)) b) timestamp
      | RMap m \<Rightarrow> sendMap ops fails g sock metricName pointFormatter m timestamp
      | v \<Rightarrow> sendInterface fails sock metricName pointFormatter (InterfaceToString ops v) timestamp)"

fun graphite_items :: "'f float_ops \<Rightarrow> (nat \<Rightarrow> bool) \<Rightarrow> GraphiteSender \<Rightarrow> 'f Payload list \<Rightarrow> int \<Rightarrow> NameStack \<Rightarrow> sink \<Rightarrow>
    written" where
  "graphite_items ops fails g [] timestamp metricName sock = (sock, None)"
| "graphite_items ops fails g (aggItem # data) timestamp metricName sock =
     (let metricName = NameStack_Push (lookup_zero [] (p_Tags aggItem) ''aggregate'') metricName in
      case GetSubgroupName (p_Tags aggItem) of
        Inl err \<Rightarrow> graphite_items ops fails g data timestamp metricName sock
      | Inr subgroup \<Rightarrow>
          (case graphite_item ops fails g sock metricName subgroup (p_Result aggItem) timestamp of
             (sock, Some err) \<Rightarrow> (sock, Some err)
           | (sock, None) \<Rightarrow>
               (case NameStack_Pop metricName of
                  Inl panic \<Rightarrow> (sock, Some (Panics panic))
                | Inr (item, metricName) \<Rightarrow> graphite_items ops fails g data timestamp metricName sock)))"

definition graphite_sendInternal :: "'f float_ops \<Rightarrow> (nat \<Rightarrow> bool) \<Rightarrow> GraphiteSender \<Rightarrow> 'f Payload list \<Rightarrow> int \<Rightarrow> sink \<Rightarrow>
    written" where
  "graphite_sendInternal ops fails g data timestamp sock = graphite_items ops fails g data timestamp [] sock"

text \<open>
  \<open>Send\<close> with no other goroutine in the pool: \<open>dial\<close> gives the outcome of each attempt, \<open>order\<close> the order
  in which \<open>Evict\<close> visits the pool after a failed write. The error of the connection comes first.
\<close>

datatype 'e graphite_send_result = Sent | ConnError "'e conn_error" | Stopped stop | Waits

definition connectionTimeout :: int where "connectionTimeout = 300"

definition graphite_Send :: "'f float_ops \<Rightarrow> (nat \<Rightarrow> bool) \<Rightarrow> (nat \<Rightarrow> 'e + nat) \<Rightarrow> nat list \<Rightarrow> GraphiteSender \<Rightarrow>
    'f Payload list \<Rightarrow> int \<Rightarrow> 'e conn_error cacher \<Rightarrow> 'e conn_error cacher \<times> string list \<times> 'e graphite_send_result" where
  "graphite_Send ops fails dial order g data timestamp connPool =
     (if length data = 0 then (connPool, [], Sent)
      else case pool_Get (g_endpoint g) (NewConn [IntArg 3, IntArg connectionTimeout] dial) connPool of
        None \<Rightarrow> (connPool, [], Waits)
      | Some (Inl panic) \<Rightarrow> (connPool, [], Stopped (Panics panic))
      | Some (Inr (connPool, conn, Some err)) \<Rightarrow> (connPool, [], ConnError err)
      | Some (Inr (connPool, None, None)) \<Rightarrow> (connPool, [], Stopped (Panics NilDereference))
      | Some (Inr (connPool, Some conn, None)) \<Rightarrow>
          (case graphite_sendInternal ops fails g data timestamp \<lparr>Lines = [], Evicted = False\<rparr> of
             (sock, res) \<Rightarrow>
               if Evicted sock then
                 (case Evict order conn connPool of
                    Inl panic \<Rightarrow> (connPool, Lines sock, Stopped (Panics panic))
                  | Inr connPool \<Rightarrow> (connPool, Lines sock, case res of None \<Rightarrow> Sent | Some s \<Rightarrow> Stopped s))
               else (connPool, Lines sock, case res of None \<Rightarrow> Sent | Some s \<Rightarrow> Stopped s)))"

section \<open>Lines of the leaves\<close>

text \<open>Writing lines one by one until a write fails.\<close>

fun write_lines :: "(nat \<Rightarrow> bool) \<Rightarrow> string list \<Rightarrow> sink \<Rightarrow> written" where
  "write_lines fails [] sock = (sock, None)"
| "write_lines fails (l # ls) sock =
     (case graphite_send fails sock l of (sock, Some err) \<Rightarrow> (sock, Some err) | (sock, None) \<Rightarrow> write_lines fails ls sock)"

lemma write_lines_append:
  "write_lines fails (ls @ ms) sock =
    (case write_lines fails ls sock of (sock, Some err) \<Rightarrow> (sock, Some err) | (sock, None) \<Rightarrow> write_lines fails ms sock)"
  by (induction ls arbitrary: sock) (auto split: prod.split option.split)

lemma write_lines_single: "write_lines fails [l] sock = graphite_send fails sock l"
  by (auto split: prod.split option.split)

text \<open>What a connection has taken at the end: all lines, or those before the first write that fails.\<close>

lemma write_lines_result:
  "write_lines fails ls sock =
    (case find fails [length (Lines sock)..<length (Lines sock) + length ls] of
       None \<Rightarrow> (sock\<lparr>Lines := Lines sock @ ls\<rparr>, None)
     | Some n \<Rightarrow> (sock\<lparr>Lines := Lines sock @ take (n - length (Lines sock)) ls, Evicted := True\<rparr>, Some (Failed WriteError)))"
proof (induction ls arbitrary: sock)
  case (Cons l ls)
  show ?case
  proof (cases "fails (length (Lines sock))")
    case True
    then show ?thesis by (simp add: graphite_send_def upt_rec)
  next
    case False
    have "find fails [length (Lines sock)..<length (Lines sock) + length (l # ls)] =
        find fails [Suc (length (Lines sock))..<Suc (length (Lines sock)) + length ls]"
      using False by (subst upt_conv_Cons) auto
    moreover have "n - length (Lines sock) = Suc (n - Suc (length (Lines sock)))"
      if "find fails [Suc (length (Lines sock))..<Suc (length (Lines sock)) + length ls] = Some n" for n
    proof -
      have "n \<in> set [Suc (length (Lines sock))..<Suc (length (Lines sock)) + length ls]"
        using that by (metis find_Some_iff nth_mem)
      then show ?thesis by auto
    qed
    ultimately show ?thesis using False Cons.IH [of "sock\<lparr>Lines := Lines sock @ [l]\<rparr>"]
      by (auto simp: graphite_send_def split: option.split)
  qed
qed simp

definition leaf_lines :: "'f float_ops \<Rightarrow> point_format \<Rightarrow> int \<Rightarrow> (string list \<times> 'f rval) list \<Rightarrow> string list" where
  "leaf_lines ops f ts = map (\<lambda>(path, v). f path (InterfaceToString ops v) ts)"

lemma leaf_lines_append: "leaf_lines ops f ts (ls @ ms) = leaf_lines ops f ts ls @ leaf_lines ops f ts ms"
  by (simp add: leaf_lines_def)

text \<open>No nil stands as a value in a map.\<close>

fun nil_free :: "'f rval \<Rightarrow> bool" and nil_free_entries :: "(string \<times> 'f rval) list \<Rightarrow> bool" where
  "nil_free (RMap kvs) \<longleftrightarrow> nil_free_entries kvs"
| "nil_free _ \<longleftrightarrow> True"
| "nil_free_entries [] \<longleftrightarrow> True"
| "nil_free_entries ((k, v) # kvs) \<longleftrightarrow> v \<noteq> RNil \<and> nil_free v \<and> nil_free_entries kvs"

lemma send_elems_lines:
  "send_elems ops fails sock path f items ts =
    write_lines fails (leaf_lines ops f ts (map (\<lambda>(n, v). (path @ [n], v)) items)) sock"
  by (induction ops fails sock path f items ts rule: send_elems.induct)
    (auto simp: leaf_lines_def sendInterface_def NameStack_Push_def split: prod.split option.split)

lemma sendSlice_lines:
  "slice_leaves (g_fields g) path vs = Some ls \<Longrightarrow>
    sendSlice ops fails g sock path f vs ts = write_lines fails (leaf_lines ops f ts ls) sock"
  by (auto simp: slice_leaves_def sendSlice_def send_elems_lines split: if_splits)

lemma sendInterface_lines:
  "sendInterface fails sock path f (InterfaceToString ops v) ts = write_lines fails (leaf_lines ops f ts [(path, v)]) sock"
  by (simp add: leaf_lines_def sendInterface_def split: prod.split option.split)

text \<open>Each value of a map goes out like its leaves.\<close>

abbreviation send_value :: "'f float_ops \<Rightarrow> (nat \<Rightarrow> bool) \<Rightarrow> GraphiteSender \<Rightarrow> sink \<Rightarrow> NameStack \<Rightarrow> point_format \<Rightarrow>
    'f rval \<Rightarrow> int \<Rightarrow> written" where
  "send_value ops fails g sock path f item ts \<equiv>
     (case item of
        RSlice vs \<Rightarrow> sendSlice ops fails g sock path f vs ts
      | RBytes b \<Rightarrow> sendSlice ops fails g sock path f (map (\<lambda>c. RUint (of_char c)) b) ts
      | RMap m \<Rightarrow> sendMap ops fails g sock path f m ts
      | v \<Rightarrow> sendInterface fails sock path f (InterfaceToString ops v) ts)"

lemma sendMap_lines:
  "names = g_fields g \<Longrightarrow> leaves names path v = Some ls \<Longrightarrow> nil_free v \<Longrightarrow>
    send_value ops fails g sock path f v ts = write_lines fails (leaf_lines ops f ts ls) sock"
  "names = g_fields g \<Longrightarrow> map_leaves names path kvs = Some ls \<Longrightarrow> nil_free_entries kvs \<Longrightarrow>
    sendMap ops fails g sock path f kvs ts = write_lines fails (leaf_lines ops f ts ls) sock"
proof (induction names path v and names path kvs arbitrary: sock ls and sock ls rule: leaves_map_leaves.induct)
  case (6 names path k v kvs)
  obtain l1 l2 where l: "leaves names (path @ [k]) v = Some l1" "map_leaves names path kvs = Some l2" "ls = l1 @ l2"
    using "6.prems"(2) by (rule map_leaves_Cons)
  have v: "v \<noteq> RNil" "nil_free v" "nil_free_entries kvs" using "6.prems"(3) by simp_all
  have "sendMap ops fails g sock path f ((k, v) # kvs) ts =
      (case send_value ops fails g sock (path @ [k]) f v ts of
         (sock, Some err) \<Rightarrow> (sock, Some err) | (sock, None) \<Rightarrow> sendMap ops fails g sock path f kvs ts)"
    using v(1) by (simp add: NameStack_Push_def split: rval.split)
  also have "\<dots> = (case write_lines fails (leaf_lines ops f ts l1) sock of
         (sock, Some err) \<Rightarrow> (sock, Some err) | (sock, None) \<Rightarrow> write_lines fails (leaf_lines ops f ts l2) sock)"
    unfolding "6.IH"(1) [OF "6.prems"(1) l(1) v(2)] "6.IH"(2) [OF l(1) "6.prems"(1) l(2) v(3)] ..
  also have "\<dots> = write_lines fails (leaf_lines ops f ts ls) sock"
    unfolding l(3) leaf_lines_append write_lines_append ..
  finally show ?case .
next
  case (5 names path)
  then show ?case by (simp add: leaf_lines_def)
qed (simp_all add: sendSlice_lines sendInterface_lines del: write_lines.simps)

section \<open>Properties\<close>

text \<open>The aggregates left on the stack by payloads without a subgroup name, and the lines of a payload.\<close>

definition aggregate_of :: "'f Payload \<Rightarrow> string" where
  "aggregate_of item = lookup_zero [] (p_Tags item) ''aggregate''"

definition left_on_stack :: "'f Payload list \<Rightarrow> NameStack" where
  "left_on_stack data = map aggregate_of (filter (\<lambda>i. isl (GetSubgroupName (p_Tags i))) data)"

definition payload_lines :: "'f float_ops \<Rightarrow> GraphiteSender \<Rightarrow> int \<Rightarrow> NameStack \<Rightarrow> 'f Payload \<Rightarrow> string list" where
  "payload_lines ops g ts stack item =
     (case (GetSubgroupName (p_Tags item), leaves (g_fields g) [] (p_Result item)) of
        (Inr subgroup, Some ls) \<Rightarrow> map (\<lambda>(path, v). makePoint (g_cluster g) subgroup (stack @ aggregate_of item # path)
          (InterfaceToString ops v) ts) ls
      | _ \<Rightarrow> [])"

lemma left_on_stack_Cons:
  "left_on_stack (item # data) = (case GetSubgroupName (p_Tags item) of Inl _ \<Rightarrow> [aggregate_of item] | Inr _ \<Rightarrow> []) @ left_on_stack data"
  by (auto simp: left_on_stack_def split: sum.split)

lemma graphite_items_lines:
  assumes "\<forall>item\<in>set data. nil_free (p_Result item) \<and> leaves (g_fields g) [] (p_Result item) \<noteq> None"
  shows "graphite_items ops fails g data ts stack sock =
    write_lines fails (concat (map (\<lambda>i. payload_lines ops g ts (stack @ left_on_stack (take i data)) (data ! i))
      [0..<length data])) sock"
  using assms
proof (induction data arbitrary: stack sock)
  case (Cons item data)
  let ?agg = "aggregate_of item"
  let ?rest = "\<lambda>stack. concat (map (\<lambda>i. payload_lines ops g ts (stack @ left_on_stack (take i data)) (data ! i)) [0..<length data])"
  have IH: "graphite_items ops fails g data ts stack sock = write_lines fails (?rest stack) sock" for stack sock
    using Cons by simp
  have upt: "concat (map h [0..<length (item # data)]) = h 0 @ concat (map (\<lambda>i. h (Suc i)) [0..<length data])" for h :: "nat \<Rightarrow> string list"
    by (simp add: upt_conv_Cons map_Suc_upt [symmetric] comp_def del: upt_Suc)
  show ?case
  proof (cases "GetSubgroupName (p_Tags item)")
    case (Inl err)
    have "payload_lines ops g ts stack' item = []" for stack' using Inl by (simp add: payload_lines_def)
    moreover have "graphite_items ops fails g (item # data) ts stack sock = graphite_items ops fails g data ts (stack @ [?agg]) sock"
      using Inl by (simp add: aggregate_of_def NameStack_Push_def Let_def)
    ultimately show ?thesis unfolding upt using Inl by (simp add: IH left_on_stack_Cons)
  next
    case (Inr subgroup)
    let ?f = "makePoint (g_cluster g) subgroup"
    obtain ls where ls: "leaves (g_fields g) [] (p_Result item) = Some ls" using Cons.prems by auto
    have shift: "leaves (g_fields g) (stack @ [?agg]) (p_Result item) = Some (map (\<lambda>(q, v). ((stack @ [?agg]) @ q, v)) ls)"
      using leaves_shift(1) [OF ls, of "stack @ [?agg]"] by (simp only: append_Nil2)
    have "graphite_item ops fails g sock (stack @ [?agg]) subgroup (p_Result item) ts =
        write_lines fails (leaf_lines ops ?f ts (map (\<lambda>(q, v). ((stack @ [?agg]) @ q, v)) ls)) sock"
      unfolding graphite_item_def Let_def
      by (rule sendMap_lines(1) [OF refl shift]) (use Cons.prems in simp_all)
    moreover have "leaf_lines ops ?f ts (map (\<lambda>(q, v). ((stack @ [?agg]) @ q, v)) ls) = payload_lines ops g ts stack item"
      using Inr ls by (simp add: leaf_lines_def payload_lines_def case_prod_beta)
    ultimately have item: "graphite_item ops fails g sock (stack @ [?agg]) subgroup (p_Result item) ts =
        write_lines fails (payload_lines ops g ts stack item) sock" by simp
    have "graphite_items ops fails g (item # data) ts stack sock =
        (case write_lines fails (payload_lines ops g ts stack item) sock of
           (sock, Some err) \<Rightarrow> (sock, Some err) | (sock, None) \<Rightarrow> write_lines fails (?rest stack) sock)"
      using Inr item
      by (simp add: IH aggregate_of_def NameStack_Push_def NameStack_Pop_def Let_def split: prod.split option.split)
    also have "\<dots> = write_lines fails (payload_lines ops g ts stack item @ ?rest stack) sock"
      by (rule write_lines_append [symmetric])
    finally show ?thesis unfolding upt using Inr by (simp add: left_on_stack_Cons left_on_stack_def [of "[]"])
  qed
qed simp

text \<open>
  C31. Sending payloads without a nil in a map and with slices that fit the fields writes one line per
  scalar, payload after payload, up to the first write that fails; every payload's lines carry before
  their own aggregate the aggregates of the earlier payloads that had no subgroup name.
\<close>

theorem graphite_lines:
  assumes "\<forall>item\<in>set data. nil_free (p_Result item) \<and> leaves (g_fields g) [] (p_Result item) \<noteq> None"
    and "ls = concat (map (\<lambda>i. payload_lines ops g ts (left_on_stack (take i data)) (data ! i)) [0..<length data])"
  shows "graphite_sendInternal ops fails g data ts \<lparr>Lines = [], Evicted = False\<rparr> =
    (case find fails [0..<length ls] of
       None \<Rightarrow> (\<lparr>Lines = ls, Evicted = False\<rparr>, None)
     | Some n \<Rightarrow> (\<lparr>Lines = take n ls, Evicted = True\<rparr>, Some (Failed WriteError)))"
  using assms(2) graphite_items_lines [OF assms(1), of ops fails ts "[]" "\<lparr>Lines = [], Evicted = False\<rparr>"]
  by (simp add: graphite_sendInternal_def write_lines_result cong: option.case_cong)

definition sample_graphite :: GraphiteSender where
  "sample_graphite = graphite_NewSender \<lparr>gc_Cluster = ''c'', gc_Endpoint = ''e:42000'', gc_Fields = [''75'', ''99'']\<rparr>"

definition sample_format :: "int float_ops" where
  "sample_format = \<lparr>FloatOfInt = \<lambda>i. i, ParseFloat = \<lambda>t. None, FormatV = \<lambda>v. (case v of RUint n \<Rightarrow> utoa n | _ \<Rightarrow> ''?''),
     FormatQ = \<lambda>b. b\<rparr>"

definition sample_payloads :: "int Payload list" where
  "sample_payloads =
     [\<lparr>p_Tags = [(''aggregate'', ''a'')], p_Result = RUint 1\<rparr>,
      \<lparr>p_Tags = [(''aggregate'', ''b''), (''name'', ''h.x''), (''type'', ''host'')],
       p_Result = RMap [(''rt'', RSlice [RUint 2, RUint 3]), (''n'', RUint 4)]\<rparr>]"

theorem graphite_lines_witness:
  "graphite_sendInternal sample_format (\<lambda>n. n = 2) sample_graphite sample_payloads 7 \<lparr>Lines = [], Evicted = False\<rparr> =
    (\<lparr>Lines = [''c.combaine.h_x.a.b.rt.75 2 7'' @ [CHR 0x0A], ''c.combaine.h_x.a.b.rt.99 3 7'' @ [CHR 0x0A]],
       Evicted = True\<rparr>, Some (Failed WriteError))"
proof -
  define ls where "ls = concat (map (\<lambda>i. payload_lines sample_format sample_graphite 7 (left_on_stack (take i sample_payloads))
    (sample_payloads ! i)) [0..<length sample_payloads])"
  have ok: "\<forall>item\<in>set sample_payloads. nil_free (p_Result item) \<and> leaves (g_fields sample_graphite) [] (p_Result item) \<noteq> None"
    by (simp add: sample_payloads_def sample_graphite_def graphite_NewSender_def slice_leaves_def)
  have "ls = [''c.combaine.h_x.a.b.rt.75 2 7'' @ [CHR 0x0A], ''c.combaine.h_x.a.b.rt.99 3 7'' @ [CHR 0x0A],
      ''c.combaine.h_x.a.b.n 4 7'' @ [CHR 0x0A]]"
    unfolding ls_def by code_simp
  then show ?thesis using graphite_lines [OF ok ls_def, of "\<lambda>n. n = 2"] by (simp add: upt_rec)
qed

end
