(* ===== verification/JugglerConfig.thy ===== *)
theory JugglerConfig
  imports Discovery
begin

text \<open>
  \<open>senders/juggler/config.go\<close>: the settings of the juggler sender, read once from a file, and those
  of a task, completed by them. The environment, the file, the YAML decoder and the network are
  arguments. Durations are 64-bit numbers of nanoseconds.
\<close>

section \<open>Data\<close>

record jugglerFlapConfig =
  BoostTime :: int
  StableTime :: int
  CriticalTime :: int

text \<open>The conditions \<open>OK\<close>, \<open>INFO\<close>, \<open>WARN\<close>, \<open>CRIT\<close> may be nil, the other lists are used by length only.\<close>

record JugglerConfig =
  jc_PluginsDir :: string
  jc_Plugin :: string
  jc_Host :: string
  jc_Method :: string
  jc_Aggregator :: string
  jc_AggregatorKWArgs :: PluginConfig
  jc_Notifications :: "PluginConfig list"
  jc_TTL :: int
  jc_CheckName :: string
  jc_Description :: string
  jc_Tags :: "string list"
  jc_Flaps :: "jugglerFlapConfig option"
  jc_Variables :: "(string, string) gomap"
  jc_FlapsByChecks :: "(string, jugglerFlapConfig) gomap"
  jc_JPluginConfig :: PluginConfig
  jc_JHosts :: "string list"
  jc_JFrontend :: "string list"
  jc_OK :: "string list option"
  jc_INFO :: "string list option"
  jc_WARN :: "string list option"
  jc_CRIT :: "string list option"
  jc_BatchSize :: int
  jc_BatchEndpoint :: string
  jc_Namespace :: string
  jc_Token :: string

record pluginEventsStoreConfig =
  es_Cluster :: string
  es_Fetcher :: PluginConfig
  es_Database :: string
  es_AuthDB :: string
  es_User :: string
  es_Password :: string

record SenderConfig =
  sd_CacheTTL :: "64 word"
  sd_CacheCleanInterval :: "64 word"
  sd_PluginsDir :: string
  sd_Hosts :: "string list"
  sd_Frontend :: "string list"
  sd_BatchSize :: int
  sd_BatchEndpoint :: string
  sd_Token :: string
  sd_Store :: pluginEventsStoreConfig

definition defaultConfigPath :: string where "defaultConfigPath = ''/etc/combaine/juggler.yaml''"
definition defaultPlugin :: string where "defaultPlugin = ''simple''"
definition defaultPluginsDir :: string where "defaultPluginsDir = ''/usr/lib/combaine/juggler''"
definition defaultBatchSize :: int where "defaultBatchSize = 50"
definition defaultDatabaseName :: string where "defaultDatabaseName = ''combaine''"

definition zero_JugglerConfig :: JugglerConfig where
  "zero_JugglerConfig = \<lparr>jc_PluginsDir = [], jc_Plugin = [], jc_Host = [], jc_Method = [], jc_Aggregator = [],
     jc_AggregatorKWArgs = None, jc_Notifications = [], jc_TTL = 0, jc_CheckName = [], jc_Description = [], jc_Tags = [],
     jc_Flaps = None, jc_Variables = [], jc_FlapsByChecks = [], jc_JPluginConfig = None, jc_JHosts = [], jc_JFrontend = [],
     jc_OK = None, jc_INFO = None, jc_WARN = None, jc_CRIT = None, jc_BatchSize = 0, jc_BatchEndpoint = [],
     jc_Namespace = [], jc_Token = []\<rparr>"

definition DefaultConfig :: JugglerConfig where
  "DefaultConfig = zero_JugglerConfig\<lparr>jc_PluginsDir := ''/etc/combaine/juggler/plugins'', jc_AggregatorKWArgs := Some [],
     jc_Tags := [''combaine''], jc_Flaps := None, jc_FlapsByChecks := [], jc_JPluginConfig := Some []\<rparr>"

section \<open>Operations\<close>

definition ensureDefaultTag :: "string list \<Rightarrow> string list" where
  "ensureDefaultTag jtags = (if ''combaine'' \<in> set jtags then jtags else jtags @ [''combaine''])"

definition getConfigPath :: "(string \<Rightarrow> string) \<Rightarrow> string" where
  "getConfigPath Getenv =
     (let path = Getenv ''JUGGLER_CONFIG'' in if length path = 0 then defaultConfigPath else path)"

text \<open>The defaults \<open>GetSenderConfig\<close> puts in, before the hosts of the store are resolved.\<close>

definition second :: "64 word" where "second = 1000000000"

definition sender_defaults :: "SenderConfig \<Rightarrow> SenderConfig" where
  "sender_defaults sConf =
     (let sConf = (if sd_BatchSize sConf = 0 then sConf\<lparr>sd_BatchSize := defaultBatchSize\<rparr> else sConf);
          sConf = (if sd_PluginsDir sConf = [] then sConf\<lparr>sd_PluginsDir := defaultPluginsDir\<rparr> else sConf);
          sConf = (if sd_CacheTTL sConf = 0 then sConf\<lparr>sd_CacheTTL := 60\<rparr> else sConf);
          sConf = (if sd_CacheCleanInterval sConf = 0 then sConf\<lparr>sd_CacheCleanInterval := sd_CacheTTL sConf * 5\<rparr> else sConf)
      in sConf\<lparr>sd_CacheTTL := sd_CacheTTL sConf * second, sd_CacheCleanInterval := sd_CacheCleanInterval sConf * second\<rparr>)"

definition store_database :: "SenderConfig \<Rightarrow> SenderConfig" where
  "store_database sConf =
     (if es_Database (sd_Store sConf) = [] then sConf\<lparr>sd_Store := (sd_Store sConf)\<lparr>es_Database := defaultDatabaseName\<rparr>\<rparr> else sConf)"

datatype ('d, 'e) sender_config_error = ReadError 'e | YamlError 'e | StoreLoad "'d load_error" | StoreFetch "'e fetch_error"

definition GetSenderConfig :: "(string \<Rightarrow> string) \<Rightarrow> (string \<Rightarrow> 'e + string) \<Rightarrow> (string \<Rightarrow> 'e + SenderConfig) \<Rightarrow>
    (string, ('d, 'e) FetcherLoader) gomap \<Rightarrow> 'e network \<Rightarrow> nat list \<Rightarrow> string \<Rightarrow>
    gopanic + (('d, 'e) sender_config_error + SenderConfig)" where
  "GetSenderConfig Getenv readFile unmarshal fetchers net order myname =
     (case readFile (getConfigPath Getenv) of
        Inl err \<Rightarrow> Inr (Inl (ReadError err))
      | Inr rawConfig \<Rightarrow>
          (case unmarshal rawConfig of
             Inl err \<Rightarrow> Inr (Inl (YamlError err))
           | Inr sConf \<Rightarrow>
               let sConf = sender_defaults sConf in
               case PluginConfig_Type (es_Fetcher (sd_Store sConf)) of
                 Inl _ \<Rightarrow> Inr (Inr (store_database sConf))
               | Inr _ \<Rightarrow>
                   (case LoadHostFetcher fetchers (es_Fetcher (sd_Store sConf)) of
                      Inl err \<Rightarrow> Inr (Inl (StoreLoad err))
                    | Inr fetcher \<Rightarrow>
                        (case Fetch net fetcher (es_Cluster (sd_Store sConf)) of
                           Inl panic \<Rightarrow> Inl panic
                         | Inr (Inl err) \<Rightarrow> Inr (Inl (StoreFetch err))
                         | Inr (Inr hosts) \<Rightarrow>
                             Inr (Inr (store_database (sConf\<lparr>sd_Store := (sd_Store sConf)\<lparr>es_Cluster :=
                               Join (AllHosts order myname hosts) '',''\<rparr>\<rparr>)))))))"

datatype task_config_error = HostsNotDefined

text \<open>What is changed before the error stays changed.\<close>

definition update_hosts :: "SenderConfig \<Rightarrow> JugglerConfig \<Rightarrow> JugglerConfig \<times> task_config_error option" where
  "update_hosts conf taskConf =
     (if length (jc_JHosts taskConf) = 0 then
        (if length (sd_Hosts conf) = 0 then (taskConf, Some HostsNotDefined)
         else (taskConf\<lparr>jc_JHosts := sd_Hosts conf, jc_JFrontend := sd_Frontend conf\<rparr>, None))
      else (taskConf, None))"

definition update_defaults :: "SenderConfig \<Rightarrow> JugglerConfig \<Rightarrow> JugglerConfig" where
  "update_defaults conf t =
     t\<lparr>jc_JFrontend := (if length (jc_JFrontend t) = 0 then jc_JHosts t else jc_JFrontend t),
       jc_PluginsDir := (if jc_PluginsDir t = [] then sd_PluginsDir conf else jc_PluginsDir t),
       jc_Plugin := (if jc_Plugin t = [] then defaultPlugin else jc_Plugin t),
       jc_BatchSize := (if jc_BatchSize t = 0 then sd_BatchSize conf else jc_BatchSize t),
       jc_BatchEndpoint := (if jc_BatchEndpoint t = [] then sd_BatchEndpoint conf else jc_BatchEndpoint t),
       jc_Aggregator := (if jc_Aggregator t = [] then ''timed_more_than_limit_is_problem'' else jc_Aggregator t),
       jc_Method := (if jc_Method t = [] \<and> length (jc_Notifications t) = 0 then ''GOLEM'' else jc_Method t)\<rparr>"

definition UpdateTaskConfig :: "SenderConfig \<Rightarrow> JugglerConfig \<Rightarrow> JugglerConfig \<times> task_config_error option" where
  "UpdateTaskConfig conf taskConf =
     (let t = taskConf\<lparr>jc_Tags := ensureDefaultTag (jc_Tags taskConf)\<rparr>;
          t = (if sd_Token conf \<noteq> [] \<and> sd_Token conf \<noteq> ''no-token'' then t\<lparr>jc_Token := sd_Token conf\<rparr> else t)
      in case update_hosts conf t of
           (t, Some err) \<Rightarrow> (t, Some err)
         | (t, None) \<Rightarrow> (update_defaults conf t, None))"

section \<open>Lemmas\<close>

lemma update_defaults_fields:
  "jc_JHosts (update_defaults conf t) = jc_JHosts t"
  "jc_JFrontend (update_defaults conf t) = (if jc_JFrontend t = [] then jc_JHosts t else jc_JFrontend t)"
  "jc_BatchSize (update_defaults conf t) = (if jc_BatchSize t = 0 then sd_BatchSize conf else jc_BatchSize t)"
  "jc_BatchEndpoint (update_defaults conf t) = (if jc_BatchEndpoint t = [] then sd_BatchEndpoint conf else jc_BatchEndpoint t)"
  "jc_Tags (update_defaults conf t) = jc_Tags t"
  "jc_Method (update_defaults conf t) = [] \<longleftrightarrow> jc_Method t = [] \<and> jc_Notifications t \<noteq> []"
  "jc_Notifications (update_defaults conf t) = jc_Notifications t"
  by (auto simp: update_defaults_def)

text \<open>A task that is not refused has hosts, frontends and the default tag.\<close>

lemma UpdateTaskConfig_ok:
  assumes "UpdateTaskConfig conf t = (t', None)"
  shows "jc_JHosts t' \<noteq> []" "jc_JFrontend t' \<noteq> []" "''combaine'' \<in> set (jc_Tags t')" "set (jc_Tags t) \<subseteq> set (jc_Tags t')"
    "jc_BatchSize t' = (if jc_BatchSize t = 0 then sd_BatchSize conf else jc_BatchSize t)"
  using assms
  by (auto simp: UpdateTaskConfig_def update_hosts_def Let_def update_defaults_fields ensureDefaultTag_def split: if_splits)

lemma GetSenderConfig_batch:
  assumes "GetSenderConfig Getenv readFile unmarshal fetchers net order myname = Inr (Inr conf)"
  shows "sd_BatchSize conf \<noteq> 0"
proof -
  have d: "sd_BatchSize (sender_defaults s) \<noteq> 0" for s
    by (simp add: sender_defaults_def Let_def defaultBatchSize_def)
  have "\<exists>s. sd_BatchSize conf = sd_BatchSize (sender_defaults s)"
    using assms by (auto simp: GetSenderConfig_def store_database_def Let_def split: sum.splits if_splits)
  then show ?thesis using d by auto
qed

end
