(* ===== verification/JugglerChecks.thy ===== *)
theory JugglerChecks
  imports JugglerConfig
begin

text \<open>
  \<open>senders/juggler/api.go\<close>: bringing the checks of a host in juggler in line with the configuration.
  The JSON encoder, the JSON difference (\<open>gojsondiff\<close>) and the HTTP client are arguments. A JSON
  message stays the text it is. The methods of a configuration are ASCII.
\<close>

section \<open>Data\<close>

record jugglerChildrenCheck =
  ch_Instance :: string
  ch_Host :: string
  ch_Type :: string
  ch_Service :: string

record jugglerCheck =
  ck_update :: bool
  ck_Host :: string
  ck_Service :: string
  ck_Description :: string
  ck_Aggregator :: string
  ck_AggregatorKWArgs :: string
  ck_Notifications :: "string list"
  ck_TTL :: int
  ck_Tags :: "string list"
  ck_Children :: "jugglerChildrenCheck list"
  ck_Flaps :: "jugglerFlapConfig option"
  ck_Namespace :: string

record jugglerEvent =
  ev_taskTags :: "(string, string) gomap"
  ev_Host :: string
  ev_Service :: string
  ev_Status :: string
  ev_Description :: string

text \<open>Both maps come from JSON and may be nil.\<close>

type_synonym services = "(string, jugglerCheck) gomap"
type_synonym jugglerResponse = "(string, services option) gomap option"

datatype jdelta = JArray "jdelta list" | JMoved | JOther

record 'e json_lib =
  MarshalConfig :: "PluginConfig \<Rightarrow> 'e + string"
  MarshalNotifications :: "string list \<Rightarrow> 'e + string"
  MarshalCheck :: "jugglerCheck \<Rightarrow> 'e + string"
  Compare :: "string \<Rightarrow> string \<Rightarrow> 'e + jdelta list"
  FormatDelta :: "jdelta list \<Rightarrow> 'e + string"

datatype 'e check_error = Library 'e | Timeout | UpdateFailed | Unexpected

text \<open>A step changes the settings of the sender (defaults) and the check; it may fail or panic.\<close>

type_synonym 'e ensured = "gopanic + ('e check_error + JugglerConfig \<times> jugglerCheck)"

definition notificationsDescription :: string where
  "notificationsDescription = ''autocreated by combaine (github.com/combaine)''"

definition defaultTags :: "string list" where "defaultTags = [''combaine'']"

definition golemTemplate :: string where
  "golemTemplate = ''{\"template_name\": \"golem\", \"template_kwargs\": {}, \"description\": \"'' @ notificationsDescription @ ''\"}''"

definition nl :: string where "nl = [CHR 0x0A]"

definition smsTemplate :: string where
  "smsTemplate = ''{\"template_name\": \"on_status_change\", \"template_kwargs\": {'' @ nl @
     ''\"golem_responsible\": true, \"method\": [\"sms\"], \"status\": ['' @ nl @
     [CHR 0x09] @ ''{ \"from\": \"OK\", \"to\": \"CRIT\"}, { \"from\": \"WARN\", \"to\": \"CRIT\"},'' @ nl @
     [CHR 0x09] @ ''{ \"from\": \"CRIT\", \"to\": \"WARN\"}, { \"from\": \"CRIT\", \"to\": \"OK\"}'' @ nl @
     ''], \"min_interval\": 60 }, \"description\": \"'' @ notificationsDescription @ ''\"}''"

definition needUpdated :: "jugglerCheck \<Rightarrow> jugglerCheck" where
  "needUpdated c = c\<lparr>ck_update := True\<rparr>"

definition modified :: "jugglerCheck \<Rightarrow> bool" where
  "modified c \<longleftrightarrow> ck_update c"

section \<open>Settings without a library\<close>

definition ensureTTL :: "JugglerConfig \<Rightarrow> jugglerCheck \<Rightarrow> JugglerConfig \<times> jugglerCheck" where
  "ensureTTL js c =
     (let js = (if jc_TTL js = 0 then js\<lparr>jc_TTL := 900\<rparr> else js)
      in (js, if ck_TTL c \<noteq> jc_TTL js then (needUpdated c)\<lparr>ck_TTL := jc_TTL js\<rparr> else c))"

definition ensureDescription :: "JugglerConfig \<Rightarrow> jugglerCheck \<Rightarrow> JugglerConfig \<times> jugglerCheck" where
  "ensureDescription js c =
     (let js = (if jc_Description js = [] then js\<lparr>jc_Description := jc_CheckName js\<rparr> else js)
      in (js, if ck_Description c \<noteq> jc_Description js \<and> jc_Description js \<noteq> []
              then (needUpdated c)\<lparr>ck_Description := jc_Description js\<rparr> else c))"

definition flap_unset :: "jugglerFlapConfig \<Rightarrow> bool" where
  "flap_unset f \<longleftrightarrow> StableTime f = 0 \<and> CriticalTime f = 0 \<and> BoostTime f = 0"

text \<open>The settings by check are looked up under the name the check has now; a new check has none yet.\<close>

definition flap_in_config :: "JugglerConfig \<Rightarrow> string \<Rightarrow> jugglerFlapConfig option" where
  "flap_in_config js service =
     (let inConfig = (case map_of (jc_FlapsByChecks js) service of Some f \<Rightarrow> Some f | None \<Rightarrow> jc_Flaps js)
      in case inConfig of Some f \<Rightarrow> if flap_unset f then None else Some f | None \<Rightarrow> None)"

definition ensureFlap :: "JugglerConfig \<Rightarrow> jugglerCheck \<Rightarrow> jugglerCheck" where
  "ensureFlap js c =
     (let inConfig = flap_in_config js (ck_Service c)
      in if ck_Flaps c \<noteq> inConfig then (needUpdated c)\<lparr>ck_Flaps := inConfig\<rparr> else c)"

fun add_tags :: "string list \<Rightarrow> string list \<Rightarrow> jugglerCheck \<Rightarrow> jugglerCheck" where
  "add_tags tagsSet [] c = c"
| "add_tags tagsSet (tag # tags) c =
     add_tags tagsSet tags (if tag \<in> set tagsSet then c else (needUpdated c)\<lparr>ck_Tags := ck_Tags c @ [tag]\<rparr>)"

definition ensureTags :: "JugglerConfig \<Rightarrow> jugglerCheck \<Rightarrow> JugglerConfig \<times> jugglerCheck" where
  "ensureTags js c =
     (let js = (if length (jc_Tags js) = 0 then js\<lparr>jc_Tags := defaultTags\<rparr> else js)
      in (js, if ck_Tags c = [] then (needUpdated c)\<lparr>ck_Tags := jc_Tags js\<rparr> else add_tags (ck_Tags c) (jc_Tags js) c))"

definition ensureNamespace :: "JugglerConfig \<Rightarrow> jugglerCheck \<Rightarrow> JugglerConfig \<times> jugglerCheck" where
  "ensureNamespace js c =
     (let js = (if jc_Namespace js = [] then js\<lparr>jc_Namespace := ''combaine''\<rparr> else js)
      in (js, if ck_Namespace c \<noteq> jc_Namespace js then (needUpdated c)\<lparr>ck_Namespace := jc_Namespace js\<rparr> else c))"

section \<open>Settings compared as JSON\<close>

text \<open>The difference is printed for the log without its last character.\<close>

definition log_delta :: "'e json_lib \<Rightarrow> jdelta list \<Rightarrow> gopanic + 'e check_error option" where
  "log_delta lib d =
     (case FormatDelta lib d of
        Inl err \<Rightarrow> Inr (Some (Library err))
      | Inr diffString \<Rightarrow> if diffString = [] then Inl IndexOutOfRange else Inr None)"

definition ensureAggregator :: "'e json_lib \<Rightarrow> JugglerConfig \<Rightarrow> jugglerCheck \<Rightarrow> gopanic + ('e check_error + jugglerCheck)" where
  "ensureAggregator lib js c =
     (let c = (if ck_Aggregator c \<noteq> jc_Aggregator js then (needUpdated c)\<lparr>ck_Aggregator := jc_Aggregator js\<rparr> else c) in
      case MarshalConfig lib (jc_AggregatorKWArgs js) of
        Inl err \<Rightarrow> Inr (Inl (Library err))
      | Inr configKWArgs \<Rightarrow>
          let checkKWArgs = (if ck_AggregatorKWArgs c = [] then ''null'' else ck_AggregatorKWArgs c) in
          case Compare lib configKWArgs checkKWArgs of
            Inl err \<Rightarrow> Inr (Inl (Library err))
          | Inr d \<Rightarrow>
              if d \<noteq> [] then
                bind_sum (log_delta lib d) (\<lambda>logged. Inr (case logged of
                   Some err \<Rightarrow> Inl err
                 | None \<Rightarrow> Inr ((needUpdated c)\<lparr>ck_AggregatorKWArgs := configKWArgs\<rparr>)))
              else Inr (Inr c))"

fun method_notifications :: "string list \<Rightarrow> string list" where
  "method_notifications [] = []"
| "method_notifications (m # ms) =
     (case dropWhile is_space m of
        [] \<Rightarrow> []
      | ch # _ \<Rightarrow> (let m = ToLower [ch] in
          if m = ''s'' then [smsTemplate] else if m = ''g'' then [golemTemplate] else [])) @ method_notifications ms"

text \<open>A notification without a description gets one in place; a nil notification panics there.\<close>

fun config_notifications :: "'e json_lib \<Rightarrow> PluginConfig list \<Rightarrow>
    gopanic + ('e check_error + PluginConfig list \<times> string list)" where
  "config_notifications lib [] = Inr (Inr ([], []))"
| "config_notifications lib (n # ns) =
     bind_sum (if plugin_get n ''description'' \<noteq> None then Inr n
               else case n of
                 None \<Rightarrow> Inl AssignmentToNilMap
               | Some m \<Rightarrow> Inr (Some (AList.update ''description'' (VString notificationsDescription) m)))
       (\<lambda>n. case MarshalConfig lib n of
          Inl err \<Rightarrow> Inr (Inl (Library err))
        | Inr notificationJSON \<Rightarrow>
            bind_sum (config_notifications lib ns) (\<lambda>r. Inr (bind_sum r (\<lambda>(ns, js).
              Inr (n # ns, notificationJSON # js)))))"

text \<open>Elements that only moved do not count; the difference of two arrays is an array difference.\<close>

definition notifications_differ :: "'e json_lib \<Rightarrow> string list \<Rightarrow> string list \<Rightarrow> gopanic + ('e check_error + bool)" where
  "notifications_differ lib notifications current =
     (case MarshalNotifications lib notifications of
        Inl err \<Rightarrow> Inr (Inl (Library err))
      | Inr nJSON \<Rightarrow>
          (case MarshalNotifications lib current of
             Inl err \<Rightarrow> Inr (Inl (Library err))
           | Inr cJSON \<Rightarrow>
               (case Compare lib nJSON cJSON of
                  Inl err \<Rightarrow> Inr (Inl (Library err))
                | Inr [] \<Rightarrow> Inr (Inr False)
                | Inr (JArray deltas # ds) \<Rightarrow>
                    if \<exists>d\<in>set deltas. d \<noteq> JMoved then
                      bind_sum (log_delta lib (JArray deltas # ds)) (\<lambda>logged. Inr (case logged of
                         Some err \<Rightarrow> Inl err | None \<Rightarrow> Inr True))
                    else Inr (Inr False)
                | Inr _ \<Rightarrow> Inl BadTypeAssertion)))"

definition ensureNotifications :: "'e json_lib \<Rightarrow> JugglerConfig \<Rightarrow> jugglerCheck \<Rightarrow> 'e ensured" where
  "ensureNotifications lib js c =
     (let fromMethod = (if jc_Method js \<noteq> [] \<and> length (jc_Notifications js) = 0
                        then method_notifications (Split (jc_Method js) '','') else []) in
      bind_sum (config_notifications lib (jc_Notifications js)) (\<lambda>r. case r of
        Inl err \<Rightarrow> Inr (Inl err)
      | Inr (ns, fromConfig) \<Rightarrow>
          let js = js\<lparr>jc_Notifications := ns\<rparr>; notifications = fromMethod @ fromConfig in
          bind_sum (if length notifications = length (ck_Notifications c)
                    then notifications_differ lib notifications (ck_Notifications c) else Inr (Inr True))
            (\<lambda>r. Inr (case r of
               Inl err \<Rightarrow> Inl err
             | Inr update \<Rightarrow> Inr (js, if update then (needUpdated c)\<lparr>ck_Notifications := notifications\<rparr> else c)))))"

section \<open>A check\<close>

definition ensure_settings :: "'e json_lib \<Rightarrow> JugglerConfig \<Rightarrow> jugglerCheck \<Rightarrow> 'e ensured" where
  "ensure_settings lib js check =
     (let (js, check) = ensureTTL js check in
      bind_sum (ensureAggregator lib js check) (\<lambda>r. case r of
        Inl err \<Rightarrow> Inr (Inl err)
      | Inr check \<Rightarrow>
          bind_sum (ensureNotifications lib js check) (\<lambda>r. Inr (bind_sum r (\<lambda>(js, check).
            let check = ensureFlap js check;
                (js, check) = ensureTags js check;
                (js, check) = ensureDescription js check
            in Inr (ensureNamespace js check))))))"

definition child_key :: "string \<Rightarrow> string \<Rightarrow> string" where
  "child_key host service = host @ '':'' @ service"

definition childSet :: "services \<Rightarrow> string list" where
  "childSet services = concat (map (\<lambda>(name, v). map (\<lambda>c. child_key (ch_Host c) name) (ck_Children v)) services)"

definition new_check :: jugglerCheck where
  "new_check = \<lparr>ck_update = True, ck_Host = [], ck_Service = [], ck_Description = [], ck_Aggregator = [],
     ck_AggregatorKWArgs = [], ck_Notifications = [], ck_TTL = 0, ck_Tags = [], ck_Children = [], ck_Flaps = None,
     ck_Namespace = []\<rparr>"

definition child_of :: "jugglerEvent \<Rightarrow> jugglerChildrenCheck" where
  "child_of t = \<lparr>ch_Instance = [], ch_Host = ev_Host t, ch_Type = ''HOST'', ch_Service = ev_Service t\<rparr>"

definition add_child :: "string list \<Rightarrow> jugglerEvent \<Rightarrow> jugglerCheck \<Rightarrow> jugglerCheck" where
  "add_child children t check =
     (if child_key (ev_Host t) (ev_Service t) \<in> set children then check
      else (needUpdated check)\<lparr>ck_Children := ck_Children check @ [child_of t]\<rparr>)"

text \<open>The loop over the triggers; \<open>services\<close> is nil (\<open>None\<close>) when the answer said so.\<close>

fun ensure_triggers :: "'e json_lib \<Rightarrow> string list \<Rightarrow> jugglerEvent list \<Rightarrow> string list \<Rightarrow> JugglerConfig \<Rightarrow> services option \<Rightarrow>
    gopanic + ('e check_error + JugglerConfig \<times> services option)" where
  "ensure_triggers lib children [] updated js services = Inr (Inr (js, services))"
| "ensure_triggers lib children (t # triggers) updated js services =
     (let check = (case services of None \<Rightarrow> new_check | Some m \<Rightarrow> lookup_zero new_check m (ev_Service t)) in
      if ev_Service t \<in> set updated then ensure_triggers lib children triggers updated js services
      else
        bind_sum (ensure_settings lib js check) (\<lambda>r. case r of
          Inl err \<Rightarrow> Inr (Inl err)
        | Inr (js, check) \<Rightarrow>
            let check = add_child children t check in
            if modified check then
              (case services of
                 None \<Rightarrow> Inl AssignmentToNilMap
               | Some m \<Rightarrow> ensure_triggers lib children triggers (ev_Service t # updated) js
                   (Some (AList.update (ev_Service t) (check\<lparr>ck_Host := jc_Host js, ck_Service := ev_Service t\<rparr>) m)))
            else ensure_triggers lib children triggers (ev_Service t # updated) js services))"

section \<open>Updating juggler\<close>

text \<open>What one request gives: a response with its status and body, the end of the context, or an error.\<close>

datatype 'e http_outcome = Response int "'e + string" | ContextDone | NetError 'e | BadRequest 'e

fun post_update :: "(string \<Rightarrow> 'e http_outcome) \<Rightarrow> bool \<Rightarrow> string list \<Rightarrow> 'e check_error option" where
  "post_update post errs [] = Some (if errs then UpdateFailed else Unexpected)"
| "post_update post errs (host # hosts) =
     (case post host of
        BadRequest err \<Rightarrow> Some (Library err)
      | Response status (Inl err) \<Rightarrow> post_update post True hosts
      | Response status (Inr body) \<Rightarrow> if status \<noteq> 200 then post_update post True hosts else None
      | ContextDone \<Rightarrow> Some Timeout
      | NetError err \<Rightarrow> post_update post True hosts)"

definition updateCheck :: "'e json_lib \<Rightarrow> (string \<Rightarrow> string \<Rightarrow> 'e http_outcome) \<Rightarrow> JugglerConfig \<Rightarrow> jugglerCheck \<Rightarrow>
    'e check_error option" where
  "updateCheck lib post js check =
     (case MarshalCheck lib check of
        Inl err \<Rightarrow> Some (Library err)
      | Inr cJSON \<Rightarrow> post_update (post cJSON) False (jc_JHosts js))"

text \<open>The checks that were sent, in order; the cache is cleaned when one was tried.\<close>

fun update_services :: "'e json_lib \<Rightarrow> (string \<Rightarrow> string \<Rightarrow> 'e http_outcome) \<Rightarrow> JugglerConfig \<Rightarrow> jugglerCheck list \<Rightarrow>
    jugglerCheck list \<times> 'e check_error option" where
  "update_services lib post js [] = ([], None)"
| "update_services lib post js (c # cs) =
     (if modified c then
        (case updateCheck lib post js c of
           Some err \<Rightarrow> ([c], Some err)
         | None \<Rightarrow> (case update_services lib post js cs of (sent, err) \<Rightarrow> (c # sent, err)))
      else update_services lib post js cs)"

record 'e check_run =
  cr_js :: JugglerConfig
  cr_sent :: "jugglerCheck list"
  cr_cleanCache :: bool
  cr_error :: "'e check_error option"

definition ensureCheck :: "'e json_lib \<Rightarrow> (string \<Rightarrow> string \<Rightarrow> 'e http_outcome) \<Rightarrow> nat list \<Rightarrow> JugglerConfig \<Rightarrow>
    jugglerResponse \<Rightarrow> jugglerEvent list \<Rightarrow> gopanic + 'e check_run" where
  "ensureCheck lib post order js hostChecks triggers =
     bind_sum (case hostChecks of
         None \<Rightarrow> Inl AssignmentToNilMap
       | Some m \<Rightarrow> (case map_of m (jc_Host js) of Some services \<Rightarrow> Inr services | None \<Rightarrow> Inr (Some [])))
       (\<lambda>services.
          bind_sum (ensure_triggers lib (childSet (case services of None \<Rightarrow> [] | Some m \<Rightarrow> m)) triggers [] js services)
            (\<lambda>r. Inr (case r of
               Inl err \<Rightarrow> \<lparr>cr_js = js, cr_sent = [], cr_cleanCache = False, cr_error = Some err\<rparr>
             | Inr (js, services) \<Rightarrow>
                 let m = (case services of None \<Rightarrow> [] | Some m \<Rightarrow> m);
                     (sent, err) = update_services lib post js (map (lookup_zero new_check m) (range_keys order m))
                 in \<lparr>cr_js = js, cr_sent = sent, cr_cleanCache = sent \<noteq> [], cr_error = err\<rparr>)))"

section \<open>Each step brings its setting in line\<close>

lemma ensureTTL_eq:
  "ensureTTL js c =
    (let ttl = (if jc_TTL js = 0 then 900 else jc_TTL js)
     in (js\<lparr>jc_TTL := ttl\<rparr>, c\<lparr>ck_TTL := ttl, ck_update := ck_update c \<or> ck_TTL c \<noteq> ttl\<rparr>))"
  by (cases c; cases js) (simp add: ensureTTL_def needUpdated_def Let_def)

lemma ensureDescription_eq:
  "ensureDescription js c =
    (let d = (if jc_Description js = [] then jc_CheckName js else jc_Description js); e = (if d = [] then ck_Description c else d)
     in (js\<lparr>jc_Description := d\<rparr>, c\<lparr>ck_Description := e, ck_update := ck_update c \<or> ck_Description c \<noteq> e\<rparr>))"
  by (cases c; cases js) (simp add: ensureDescription_def needUpdated_def Let_def)

lemma ensureFlap_eq:
  "ensureFlap js c =
    (let f = flap_in_config js (ck_Service c) in c\<lparr>ck_Flaps := f, ck_update := ck_update c \<or> ck_Flaps c \<noteq> f\<rparr>)"
  by (cases c) (simp add: ensureFlap_def needUpdated_def Let_def)

lemma ensureNamespace_eq:
  "ensureNamespace js c =
    (let n = (if jc_Namespace js = [] then ''combaine'' else jc_Namespace js)
     in (js\<lparr>jc_Namespace := n\<rparr>, c\<lparr>ck_Namespace := n, ck_update := ck_update c \<or> ck_Namespace c \<noteq> n\<rparr>))"
  by (cases c; cases js) (simp add: ensureNamespace_def needUpdated_def Let_def)

lemma add_tags_eq:
  "\<exists>u. add_tags old tags c = c\<lparr>ck_Tags := ck_Tags c @ filter (\<lambda>t. t \<notin> set old) tags, ck_update := u\<rparr>"
proof (induction tags arbitrary: c)
  case Nil
  show ?case by (intro exI [of _ "ck_update c"]) (cases c, simp)
next
  case (Cons t tags)
  obtain u where "add_tags old tags (if t \<in> set old then c else (needUpdated c)\<lparr>ck_Tags := ck_Tags c @ [t]\<rparr>) =
      (if t \<in> set old then c else (needUpdated c)\<lparr>ck_Tags := ck_Tags c @ [t]\<rparr>)
        \<lparr>ck_Tags := ck_Tags (if t \<in> set old then c else (needUpdated c)\<lparr>ck_Tags := ck_Tags c @ [t]\<rparr>) @
          filter (\<lambda>t. t \<notin> set old) tags, ck_update := u\<rparr>" using Cons.IH by blast
  then show ?case by (intro exI [of _ u]) (simp add: needUpdated_def)
qed

lemma ensureTags_eq:
  obtains tags u where "ensureTags js c = (js\<lparr>jc_Tags := (if jc_Tags js = [] then defaultTags else jc_Tags js)\<rparr>,
      c\<lparr>ck_Tags := tags, ck_update := u\<rparr>)"
    and "set tags = set (ck_Tags c) \<union> set (if jc_Tags js = [] then defaultTags else jc_Tags js)"
proof -
  define wanted where "wanted = (if jc_Tags js = [] then defaultTags else jc_Tags js)"
  have "(if length (jc_Tags js) = 0 then js\<lparr>jc_Tags := defaultTags\<rparr> else js) = js\<lparr>jc_Tags := wanted\<rparr>"
    by (cases js) (simp add: wanted_def)
  then have eq: "ensureTags js c = (js\<lparr>jc_Tags := wanted\<rparr>,
      if ck_Tags c = [] then (needUpdated c)\<lparr>ck_Tags := wanted\<rparr> else add_tags (ck_Tags c) wanted c)"
    unfolding ensureTags_def Let_def by simp
  note goal = that [folded wanted_def]
  show thesis
  proof (cases "ck_Tags c = []")
    case True
    then have "ensureTags js c = (js\<lparr>jc_Tags := wanted\<rparr>, c\<lparr>ck_Tags := wanted, ck_update := True\<rparr>)"
      unfolding eq by (simp add: needUpdated_def)
    then show thesis by (rule goal) (simp add: True)
  next
    case False
    obtain u where "add_tags (ck_Tags c) wanted c = c\<lparr>ck_Tags := ck_Tags c @ filter (\<lambda>t. t \<notin> set (ck_Tags c)) wanted, ck_update := u\<rparr>"
      using add_tags_eq by blast
    then have "ensureTags js c = (js\<lparr>jc_Tags := wanted\<rparr>,
        c\<lparr>ck_Tags := ck_Tags c @ filter (\<lambda>t. t \<notin> set (ck_Tags c)) wanted, ck_update := u\<rparr>)" unfolding eq using False by simp
    then show thesis by (rule goal) auto
  qed
qed

text \<open>The settings compared as JSON are in line when the comparison finds nothing.\<close>

definition aggregator_settled :: "'e json_lib \<Rightarrow> JugglerConfig \<Rightarrow> jugglerCheck \<Rightarrow> bool" where
  "aggregator_settled lib js c \<longleftrightarrow> ck_Aggregator c = jc_Aggregator js \<and>
     (\<exists>x. MarshalConfig lib (jc_AggregatorKWArgs js) = Inr x \<and>
        Compare lib x (if ck_AggregatorKWArgs c = [] then ''null'' else ck_AggregatorKWArgs c) = Inr [])"

definition from_method :: "JugglerConfig \<Rightarrow> string list" where
  "from_method js = (if jc_Method js \<noteq> [] \<and> length (jc_Notifications js) = 0
     then method_notifications (Split (jc_Method js) '','') else [])"

definition notifications_settled :: "'e json_lib \<Rightarrow> JugglerConfig \<Rightarrow> jugglerCheck \<Rightarrow> bool" where
  "notifications_settled lib js c \<longleftrightarrow>
     (\<exists>l. config_notifications lib (jc_Notifications js) = Inr (Inr (jc_Notifications js, l)) \<and>
        length (from_method js @ l) = length (ck_Notifications c) \<and>
        notifications_differ lib (from_method js @ l) (ck_Notifications c) = Inr (Inr False))"

text \<open>
  What is assumed of the library: a configuration encodes to a text that does not differ from itself,
  and encoded notifications can be put into a list.
\<close>

definition encoded :: "'e json_lib \<Rightarrow> string \<Rightarrow> bool" where
  "encoded lib n \<longleftrightarrow> n = smsTemplate \<or> n = golemTemplate \<or> (\<exists>p. MarshalConfig lib p = Inr n)"

definition json_laws :: "'e json_lib \<Rightarrow> bool" where
  "json_laws lib \<longleftrightarrow>
     (\<forall>p x. MarshalConfig lib p = Inr x \<longrightarrow> x \<noteq> [] \<and> Compare lib x x = Inr []) \<and>
     (\<forall>ns. (\<forall>n\<in>set ns. encoded lib n) \<longrightarrow> (\<exists>x. MarshalNotifications lib ns = Inr x \<and> Compare lib x x = Inr []))"

lemma ensureAggregator_ok:
  assumes "json_laws lib" and "ensureAggregator lib js c = Inr (Inr c')"
  obtains kw u where "c' = c\<lparr>ck_Aggregator := jc_Aggregator js, ck_AggregatorKWArgs := kw, ck_update := u\<rparr>"
    and "aggregator_settled lib js c'"
proof -
  define c1 where "c1 = (if ck_Aggregator c \<noteq> jc_Aggregator js then (needUpdated c)\<lparr>ck_Aggregator := jc_Aggregator js\<rparr> else c)"
  have c1: "c1 = c\<lparr>ck_Aggregator := jc_Aggregator js, ck_AggregatorKWArgs := ck_AggregatorKWArgs c, ck_update := ck_update c1\<rparr>"
      "ck_AggregatorKWArgs c1 = ck_AggregatorKWArgs c" "ck_Aggregator c1 = jc_Aggregator js"
    by (simp_all add: c1_def needUpdated_def)
  obtain x where x: "MarshalConfig lib (jc_AggregatorKWArgs js) = Inr x"
    using assms(2) by (auto simp: ensureAggregator_def Let_def split: sum.splits)
  have self: "x \<noteq> []" "Compare lib x x = Inr []" using assms(1) x unfolding json_laws_def by blast+
  have eq: "ensureAggregator lib js c = (case Compare lib x (if ck_AggregatorKWArgs c = [] then ''null'' else ck_AggregatorKWArgs c) of
        Inl err \<Rightarrow> Inr (Inl (Library err))
      | Inr d \<Rightarrow> if d \<noteq> [] then bind_sum (log_delta lib d) (\<lambda>logged. Inr (case logged of
            Some err \<Rightarrow> Inl err | None \<Rightarrow> Inr ((needUpdated c1)\<lparr>ck_AggregatorKWArgs := x\<rparr>)))
          else Inr (Inr c1))"
    by (simp only: ensureAggregator_def Let_def c1_def [symmetric] x sum.case c1(2))
  obtain d where d: "Compare lib x (if ck_AggregatorKWArgs c = [] then ''null'' else ck_AggregatorKWArgs c) = Inr d"
    using assms(2) unfolding eq by (cases "Compare lib x (if ck_AggregatorKWArgs c = [] then ''null'' else ck_AggregatorKWArgs c)") auto
  show thesis
  proof (cases "d = []")
    case True
    then have c': "c' = c1" using assms(2) unfolding eq d by simp
    have "aggregator_settled lib js c'" unfolding c' using x d True by (simp only: aggregator_settled_def c1(2,3)) blast
    then show thesis using c1(1) unfolding c' [symmetric] by (rule that [rotated])
  next
    case False
    then have c': "c' = (needUpdated c1)\<lparr>ck_AggregatorKWArgs := x\<rparr>"
      using assms(2) unfolding eq d by (auto simp: bind_sum_Inr_iff split: option.splits)
    have "c' = c\<lparr>ck_Aggregator := jc_Aggregator js, ck_AggregatorKWArgs := x, ck_update := True\<rparr>"
      unfolding c' needUpdated_def by (subst c1(1)) simp
    moreover have "aggregator_settled lib js c'"
      unfolding aggregator_settled_def c' using x self c1(3) by (simp add: needUpdated_def)
    ultimately show thesis by (rule that)
  qed
qed

lemma ensureAggregator_settled: "aggregator_settled lib js c \<Longrightarrow> ensureAggregator lib js c = Inr (Inr c)"
  by (auto simp: aggregator_settled_def ensureAggregator_def Let_def)

lemma config_notifications_again:
  "config_notifications lib ns = Inr (Inr (ns', l)) \<Longrightarrow>
    config_notifications lib ns' = Inr (Inr (ns', l)) \<and> (\<forall>n\<in>set l. encoded lib n) \<and> length ns' = length ns"
proof (induction ns arbitrary: ns' l)
  case (Cons n ns)
  obtain m where m: "(if plugin_get n ''description'' \<noteq> None then Inr n
      else case n of None \<Rightarrow> Inl AssignmentToNilMap
      | Some m \<Rightarrow> Inr (Some (AList.update ''description'' (VString notificationsDescription) m))) = Inr m"
    using Cons.prems by (auto simp: bind_sum_Inr_iff)
  then have d: "plugin_get m ''description'' \<noteq> None"
    by (auto simp: plugin_get_def split: if_splits option.splits)
  obtain x ns1 l1 where x: "MarshalConfig lib m = Inr x" "config_notifications lib ns = Inr (Inr (ns1, l1))"
      "ns' = m # ns1" "l = x # l1"
    using Cons.prems unfolding config_notifications.simps m
    by (auto simp: bind_sum_Inr_iff split: sum.splits)
  then show ?case using Cons.IH [OF x(2)] d by (auto simp: encoded_def)
qed simp

lemma method_notifications_encoded: "n \<in> set (method_notifications ms) \<Longrightarrow> encoded lib n"
  by (induction ms) (auto simp: encoded_def Let_def split: list.splits if_splits)

lemma notifications_differ_self:
  assumes "json_laws lib" and "\<forall>n\<in>set ns. encoded lib n"
  shows "notifications_differ lib ns ns = Inr (Inr False)"
proof -
  obtain x where "MarshalNotifications lib ns = Inr x" "Compare lib x x = Inr []"
    using assms unfolding json_laws_def by blast
  then show ?thesis by (simp add: notifications_differ_def)
qed

lemma ensureNotifications_ok:
  assumes "json_laws lib" and "ensureNotifications lib js c = Inr (Inr (js', c'))"
  obtains ns l u where "js' = js\<lparr>jc_Notifications := ns\<rparr>" and "c' = c\<lparr>ck_Notifications := l, ck_update := u\<rparr>"
    and "notifications_settled lib js' c'"
proof -
  obtain r where r: "config_notifications lib (jc_Notifications js) = Inr r"
    using assms(2) unfolding ensureNotifications_def Let_def
    by (cases "config_notifications lib (jc_Notifications js)") simp_all
  moreover obtain ns l where "r = Inr (ns, l)"
    using assms(2) unfolding ensureNotifications_def Let_def r by (cases r) auto
  ultimately have n: "config_notifications lib (jc_Notifications js) = Inr (Inr (ns, l))" by simp
  note again = config_notifications_again [OF n]
  let ?all = "from_method js @ l"
  define d where "d = (if length ?all = length (ck_Notifications c) then notifications_differ lib ?all (ck_Notifications c) else Inr (Inr True))"
  have eq: "ensureNotifications lib js c = bind_sum d (\<lambda>r. Inr (case r of
       Inl err \<Rightarrow> Inl err
     | Inr update \<Rightarrow> Inr (js\<lparr>jc_Notifications := ns\<rparr>, if update then (needUpdated c)\<lparr>ck_Notifications := ?all\<rparr> else c)))"
    unfolding ensureNotifications_def n d_def from_method_def Let_def by simp
  obtain update where u: "d = Inr (Inr update)" and js': "js' = js\<lparr>jc_Notifications := ns\<rparr>"
      and c': "c' = (if update then (needUpdated c)\<lparr>ck_Notifications := ?all\<rparr> else c)"
  proof -
    obtain r where r: "d = Inr r" using assms(2) unfolding eq by (cases d) simp_all
    moreover obtain update where "r = Inr update" using assms(2) unfolding eq r by (cases r) simp_all
    ultimately show thesis using assms(2) that [of update] unfolding eq by simp
  qed
  have m: "from_method js' = from_method js" using again by (simp add: js' from_method_def)
  have "\<forall>n\<in>set ?all. encoded lib n"
    using again method_notifications_encoded by (auto simp: from_method_def)
  note self = notifications_differ_self [OF assms(1) this]
  have "notifications_settled lib js' c'"
    unfolding notifications_settled_def m using again self u
    by (cases update) (auto simp: js' c' d_def needUpdated_def split: if_splits)
  moreover have "c' = c\<lparr>ck_Notifications := ck_Notifications c', ck_update := ck_update c'\<rparr>"
    by (simp add: c' needUpdated_def)
  ultimately show thesis using js' that by blast
qed

lemma ensureNotifications_settled:
  "notifications_settled lib js c \<Longrightarrow> ensureNotifications lib js c = Inr (Inr (js, c))"
  by (auto simp: notifications_settled_def ensureNotifications_def Let_def from_method_def)

section \<open>The settings settle\<close>

definition settled :: "'e json_lib \<Rightarrow> JugglerConfig \<Rightarrow> jugglerCheck \<Rightarrow> bool" where
  "settled lib js c \<longleftrightarrow> jc_TTL js \<noteq> 0 \<and> ck_TTL c = jc_TTL js \<and> aggregator_settled lib js c \<and> notifications_settled lib js c \<and>
     jc_Tags js \<noteq> [] \<and> set (jc_Tags js) \<subseteq> set (ck_Tags c) \<and>
     (if jc_Description js = [] then jc_CheckName js = [] else ck_Description c = jc_Description js) \<and>
     jc_Namespace js \<noteq> [] \<and> ck_Namespace c = jc_Namespace js"

lemma flap_in_config_cong:
  "jc_FlapsByChecks js = jc_FlapsByChecks js' \<Longrightarrow> jc_Flaps js = jc_Flaps js' \<Longrightarrow> flap_in_config js = flap_in_config js'"
  by (simp only: flap_in_config_def fun_eq_iff simp_thms)

lemma aggregator_settled_cong:
  "ck_Aggregator c = ck_Aggregator d \<Longrightarrow> ck_AggregatorKWArgs c = ck_AggregatorKWArgs d \<Longrightarrow> jc_Aggregator js = jc_Aggregator js' \<Longrightarrow>
    jc_AggregatorKWArgs js = jc_AggregatorKWArgs js' \<Longrightarrow> aggregator_settled lib js c = aggregator_settled lib js' d"
  by (simp only: aggregator_settled_def)

lemma notifications_settled_cong:
  "ck_Notifications c = ck_Notifications d \<Longrightarrow> jc_Notifications js = jc_Notifications js' \<Longrightarrow> jc_Method js = jc_Method js' \<Longrightarrow>
    notifications_settled lib js c = notifications_settled lib js' d"
  by (simp only: notifications_settled_def from_method_def)

lemma settled_cong:
  assumes "settled lib js c" and "ck_Aggregator d = ck_Aggregator c" "ck_AggregatorKWArgs d = ck_AggregatorKWArgs c"
    "ck_Notifications d = ck_Notifications c" "ck_TTL d = ck_TTL c" "ck_Tags d = ck_Tags c" "ck_Description d = ck_Description c"
    "ck_Namespace d = ck_Namespace c"
  shows "settled lib js d"
  using assms aggregator_settled_cong [of d c js js lib] notifications_settled_cong [of d c js js lib] by (simp add: settled_def)

lemma add_tags_same: "set tags \<subseteq> set old \<Longrightarrow> add_tags old tags c = c"
  by (induction tags arbitrary: c) auto

lemma settled_settings:
  assumes "settled lib js c"
  shows "ensure_settings lib js c = Inr (Inr (js, ensureFlap js c))"
proof -
  let ?d = "ensureFlap js c"
  have ttl: "ensureTTL js c = (js, c)" using assms by (simp add: settled_def ensureTTL_def Let_def)
  have agg: "ensureAggregator lib js c = Inr (Inr c)"
    using assms by (intro ensureAggregator_settled) (simp add: settled_def)
  have notifs: "ensureNotifications lib js c = Inr (Inr (js, c))"
    using assms by (intro ensureNotifications_settled) (simp add: settled_def)
  have d: "ck_Tags ?d = ck_Tags c" "ck_Description ?d = ck_Description c" "ck_Namespace ?d = ck_Namespace c"
    by (simp_all add: ensureFlap_eq Let_def)
  have "ck_Tags c \<noteq> []" using assms by (auto simp: settled_def)
  then have tags: "ensureTags js ?d = (js, ?d)"
    using assms d(1) by (simp add: settled_def ensureTags_def Let_def add_tags_same)
  have descr: "ensureDescription js ?d = (js, ?d)"
    using assms d(2) by (simp add: settled_def ensureDescription_def Let_def split: if_splits)
  have ns: "ensureNamespace js ?d = (js, ?d)" using assms d(3) by (simp add: settled_def ensureNamespace_def Let_def)
  show ?thesis by (simp add: ensure_settings_def ttl agg notifs tags descr ns)
qed

text \<open>A run of the steps leaves everything in line; only the flaps depend on the name the check had.\<close>

lemma ensure_settings_ok:
  assumes laws: "json_laws lib" and run: "ensure_settings lib js c = Inr (Inr (js', c'))"
  shows "settled lib js' c'" "ck_Flaps c' = flap_in_config js (ck_Service c)" "flap_in_config js' = flap_in_config js"
    "ck_Service c' = ck_Service c" "ck_Children c' = ck_Children c" "jc_Host js' = jc_Host js"
proof -
  define js1 where "js1 = js\<lparr>jc_TTL := (if jc_TTL js = 0 then 900 else jc_TTL js)\<rparr>"
  define c1 where "c1 = c\<lparr>ck_TTL := jc_TTL js1, ck_update := ck_update c \<or> ck_TTL c \<noteq> jc_TTL js1\<rparr>"
  have s1: "ensureTTL js c = (js1, c1)" by (simp add: ensureTTL_eq js1_def c1_def Let_def)
  obtain r2 where r2: "ensureAggregator lib js1 c1 = Inr r2"
    using run by (cases "ensureAggregator lib js1 c1") (simp_all add: ensure_settings_def s1)
  obtain c2 where r2': "r2 = Inr c2" using run by (cases r2) (simp_all add: ensure_settings_def s1 r2)
  obtain r3 where r3: "ensureNotifications lib js1 c2 = Inr r3"
    using run by (cases "ensureNotifications lib js1 c2") (simp_all add: ensure_settings_def s1 r2 r2')
  obtain js3 c3 where r3': "r3 = Inr (js3, c3)"
    using run by (cases r3) (auto simp: ensure_settings_def s1 r2 r2' r3)
  obtain kw u2 where c2: "c2 = c1\<lparr>ck_Aggregator := jc_Aggregator js1, ck_AggregatorKWArgs := kw, ck_update := u2\<rparr>"
      and agg: "aggregator_settled lib js1 c2" by (rule ensureAggregator_ok [OF laws r2 [unfolded r2']])
  obtain ns l u3 where js3: "js3 = js1\<lparr>jc_Notifications := ns\<rparr>" and c3: "c3 = c2\<lparr>ck_Notifications := l, ck_update := u3\<rparr>"
      and notifs: "notifications_settled lib js3 c3" by (rule ensureNotifications_ok [OF laws r3 [unfolded r3']])
  define T where "T = (if jc_Tags js3 = [] then defaultTags else jc_Tags js3)"
  obtain tags u5 where s5: "ensureTags js3 (ensureFlap js3 c3) =
        (js3\<lparr>jc_Tags := T\<rparr>, (ensureFlap js3 c3)\<lparr>ck_Tags := tags, ck_update := u5\<rparr>)"
      and tags: "set tags = set (ck_Tags (ensureFlap js3 c3)) \<union> set T"
    unfolding T_def by (rule ensureTags_eq)
  have res: "(js', c') = (case ensureDescription (js3\<lparr>jc_Tags := T\<rparr>) ((ensureFlap js3 c3)\<lparr>ck_Tags := tags, ck_update := u5\<rparr>) of
      (js6, c6) \<Rightarrow> ensureNamespace js6 c6)"
    using run unfolding ensure_settings_def s1 by (simp add: r2 r2' r3 r3' s5 Let_def split: prod.splits)
  define D where "D = (if jc_Description js3 = [] then jc_CheckName js3 else jc_Description js3)"
  define N where "N = (if jc_Namespace js3 = [] then ''combaine'' else jc_Namespace js3)"
  define E where "E = (if D = [] then ck_Description c3 else D)"
  have js': "js' = js3\<lparr>jc_Tags := T, jc_Description := D, jc_Namespace := N\<rparr>"
    using res by (simp add: ensureDescription_eq ensureNamespace_eq Let_def D_def N_def)
  have c': "c' = c3\<lparr>ck_Flaps := flap_in_config js3 (ck_Service c3), ck_Tags := tags, ck_Description := E, ck_Namespace := N, ck_update := ck_update c'\<rparr>"
    using res by (simp add: ensureDescription_eq ensureNamespace_eq ensureFlap_eq Let_def D_def N_def E_def cong: if_cong)
  have cf: "ck_Flaps c' = flap_in_config js3 (ck_Service c3)" "ck_Tags c' = tags" "ck_Description c' = E" "ck_Namespace c' = N"
      "ck_Aggregator c' = ck_Aggregator c3" "ck_AggregatorKWArgs c' = ck_AggregatorKWArgs c3" "ck_Notifications c' = ck_Notifications c3"
      "ck_TTL c' = ck_TTL c3" "ck_Service c' = ck_Service c3" "ck_Children c' = ck_Children c3"
    by (subst c', simp)+
  have "T \<noteq> []" "N \<noteq> []" "E = D \<or> D = []" "D = [] \<longrightarrow> jc_CheckName js3 = []" "jc_TTL js1 \<noteq> 0"
    by (simp_all add: T_def N_def D_def E_def defaultTags_def js1_def)
  moreover have "aggregator_settled lib js' c'"
    using agg aggregator_settled_cong [of c' c2 js' js1 lib] by (simp add: js' cf js3 c3)
  moreover have "notifications_settled lib js' c'"
    using notifs notifications_settled_cong [of c' c3 js' js3 lib] by (simp add: js' cf)
  moreover have "ck_TTL c' = jc_TTL js1" "jc_TTL js' = jc_TTL js1" by (simp_all add: js' cf js3 c3 c2 c1_def)
  ultimately show "settled lib js' c'" using tags by (auto simp: settled_def js' cf)
  show "ck_Flaps c' = flap_in_config js (ck_Service c)" "flap_in_config js' = flap_in_config js"
    "ck_Service c' = ck_Service c" "ck_Children c' = ck_Children c" "jc_Host js' = jc_Host js"
    using flap_in_config_cong [of js3 js] flap_in_config_cong [of js' js]
    by (simp_all add: js' cf js3 c3 c2 js1_def c1_def)
qed

section \<open>Children\<close>

lemma children_add_child:
  "ck_Children (add_child children t check) = ck_Children check @
    (if child_key (ev_Host t) (ev_Service t) \<in> set children then [] else [child_of t])"
  by (simp add: add_child_def needUpdated_def)

text \<open>The host of the first trigger of a service becomes a child, those of later triggers do not.\<close>

definition added_children :: "string list \<Rightarrow> jugglerEvent list \<Rightarrow> string \<Rightarrow> jugglerChildrenCheck list" where
  "added_children children triggers svc =
     (case find (\<lambda>t. ev_Service t = svc) triggers of
        None \<Rightarrow> []
      | Some t \<Rightarrow> if child_key (ev_Host t) svc \<in> set children then [] else [child_of t])"

text \<open>One trigger: the check is made or changed, and the host becomes a child unless it is one.\<close>

lemma trigger_children:
  assumes c1: "ck_Children c1 = ck_Children (lookup_zero new_check m (ev_Service t))" and c2: "c2 = add_child children t c1"
    and m1: "m1 = (if modified c2 then AList.update (ev_Service t) (c2\<lparr>ck_Host := host, ck_Service := ev_Service t\<rparr>) m else m)"
  shows "ck_Children (lookup_zero new_check m1 svc) = ck_Children (lookup_zero new_check m svc) @
    (if svc = ev_Service t then added_children children (t # triggers) svc else [])"
proof (cases "modified c2")
  case True
  then show ?thesis by (simp add: m1 c2 children_add_child c1 added_children_def)
next
  case False
  then have "child_key (ev_Host t) (ev_Service t) \<in> set children"
    by (auto simp: c2 add_child_def modified_def needUpdated_def split: if_splits)
  then show ?thesis using False by (simp add: m1 added_children_def)
qed

lemma ensure_triggers_children:
  assumes laws: "json_laws lib"
  shows "ensure_triggers lib children triggers updated js (Some m) = Inr (Inr (js', services)) \<Longrightarrow>
    \<exists>m'. services = Some m' \<and> (\<forall>svc. ck_Children (lookup_zero new_check m' svc) = ck_Children (lookup_zero new_check m svc) @
      (if svc \<in> set updated then [] else added_children children triggers svc))"
proof (induction triggers arbitrary: updated js m)
  case Nil
  then have "services = Some m" by simp
  then show ?case by (simp add: added_children_def)
next
  case (Cons t triggers)
  let ?svc = "ev_Service t" and ?check = "lookup_zero new_check m (ev_Service t)"
  have skip: "added_children children (t # triggers) svc = added_children children triggers svc" if "svc \<noteq> ?svc" for svc
    using that by (simp add: added_children_def)
  show ?case
  proof (cases "?svc \<in> set updated")
    case True
    then have "ensure_triggers lib children triggers updated js (Some m) = Inr (Inr (js', services))" using Cons.prems by simp
    then obtain m' where m': "services = Some m'" "\<forall>svc. ck_Children (lookup_zero new_check m' svc) =
        ck_Children (lookup_zero new_check m svc) @ (if svc \<in> set updated then [] else added_children children triggers svc)"
      using Cons.IH by blast
    have "(if svc \<in> set updated then [] else added_children children (t # triggers) svc) =
        (if svc \<in> set updated then [] else added_children children triggers svc)" for svc
      using True skip [of svc] by (cases "svc = ?svc") simp_all
    then show ?thesis using m' by simp
  next
    case False
    obtain r where r: "ensure_settings lib js ?check = Inr r"
      using Cons.prems False by (cases "ensure_settings lib js ?check") simp_all
    obtain js1 c1 where c1: "r = Inr (js1, c1)" using Cons.prems False by (cases r) (auto simp: r)
    define c2 where "c2 = add_child children t c1"
    define m1 where "m1 = (if modified c2 then AList.update ?svc (c2\<lparr>ck_Host := jc_Host js1, ck_Service := ?svc\<rparr>) m else m)"
    have "ensure_triggers lib children triggers (?svc # updated) js1 (Some m1) = Inr (Inr (js', services))"
      using Cons.prems False by (simp add: r c1 c2_def [symmetric] m1_def Let_def split: if_splits)
    then obtain m' where m': "services = Some m'" "\<forall>svc. ck_Children (lookup_zero new_check m' svc) =
        ck_Children (lookup_zero new_check m1 svc) @ (if svc \<in> set (?svc # updated) then [] else added_children children triggers svc)"
      using Cons.IH by blast
    have c1_children: "ck_Children c1 = ck_Children ?check" using ensure_settings_ok(5) [OF laws r [unfolded c1]] .
    note m1 = trigger_children [OF c1_children c2_def m1_def]
    have "ck_Children (lookup_zero new_check m' svc) = ck_Children (lookup_zero new_check m svc) @
        (if svc \<in> set updated then [] else added_children children (t # triggers) svc)" for svc
      using m'(2) [rule_format, of svc] m1 [of svc] skip [of svc] False by (cases "svc = ?svc") simp_all
    then show ?thesis using m'(1) by blast
  qed
qed

section \<open>Properties\<close>

text \<open>
  C33. Ensuring a check settles: once the steps have run on a check, running them again on what juggler
  then holds, under the name it got and with any children, changes nothing but the flaps, and those
  exactly when the flaps configured for its name are not those of the name it had before (a new check
  has none).
\<close>

theorem juggler_check_settles:
  assumes "json_laws lib" and "ensure_settings lib js c = Inr (Inr (js', c'))"
    and "d = c'\<lparr>ck_update := False, ck_Host := host, ck_Service := svc, ck_Children := children\<rparr>"
  shows "ensure_settings lib js' d = Inr (Inr (js',
    if flap_in_config js svc = flap_in_config js (ck_Service c) then d
    else (needUpdated d)\<lparr>ck_Flaps := flap_in_config js svc\<rparr>))"
proof -
  note ok = ensure_settings_ok [OF assms(1,2)]
  have "settled lib js' d" by (rule settled_cong [OF ok(1)]) (simp_all add: assms(3))
  then have "ensure_settings lib js' d = Inr (Inr (js', ensureFlap js' d))" by (rule settled_settings)
  moreover have "ensureFlap js' d = (if flap_in_config js svc = flap_in_config js (ck_Service c) then d
      else (needUpdated d)\<lparr>ck_Flaps := flap_in_config js svc\<rparr>)"
    using ok(2) unfolding ensureFlap_def ok(3) by (simp add: assms(3) Let_def)
  ultimately show ?thesis by simp
qed

text \<open>A library that satisfies the laws: an encoding is a letter, and two texts differ when they are not equal.\<close>

definition plain_json :: "string json_lib" where
  "plain_json = \<lparr>MarshalConfig = \<lambda>p. Inr (case p of None \<Rightarrow> ''null'' | Some m \<Rightarrow> ''{}''),
     MarshalNotifications = \<lambda>ns. Inr (CHR ''['' # concat ns), MarshalCheck = \<lambda>c. Inr (ck_Service c),
     Compare = \<lambda>x y. Inr (if x = y then [] else [JArray [JOther]]), FormatDelta = \<lambda>d. Inr ''~''\<rparr>"

lemma plain_json_laws: "json_laws plain_json"
  by (simp add: json_laws_def plain_json_def split: option.split)

definition flappy :: JugglerConfig where
  "flappy = zero_JugglerConfig\<lparr>jc_Host := ''h'', jc_Method := ''GOLEM'', jc_Aggregator := ''a'', jc_JHosts := [''j''],
     jc_FlapsByChecks := [(''s'', \<lparr>BoostTime = 1, StableTime = 2, CriticalTime = 3\<rparr>)]\<rparr>"

theorem juggler_check_settles_witness:
  "\<exists>js' c'. ensure_settings plain_json flappy new_check = Inr (Inr (js', c')) \<and> ck_TTL c' = 900 \<and>
    ensure_settings plain_json js' (c'\<lparr>ck_update := False, ck_Host := ''h'', ck_Service := ''s'', ck_Children := []\<rparr>) =
      Inr (Inr (js', c'\<lparr>ck_update := True, ck_Host := ''h'', ck_Service := ''s'', ck_Children := [],
        ck_Flaps := Some \<lparr>BoostTime = 1, StableTime = 2, CriticalTime = 3\<rparr>\<rparr>))"
proof -
  have run: "case ensure_settings plain_json flappy new_check of Inr (Inr (js', c')) \<Rightarrow> ck_TTL c' = 900 | _ \<Rightarrow> False"
    by code_simp
  then obtain js' c' where c': "ensure_settings plain_json flappy new_check = Inr (Inr (js', c'))" "ck_TTL c' = 900"
    by (auto split: sum.splits prod.splits)
  have "flap_in_config flappy ''s'' = Some \<lparr>BoostTime = 1, StableTime = 2, CriticalTime = 3\<rparr>"
      "flap_in_config flappy (ck_Service new_check) = None"
    by (simp_all add: flap_in_config_def flappy_def zero_JugglerConfig_def new_check_def flap_unset_def)
  then show ?thesis
    using c' juggler_check_settles [OF plain_json_laws c'(1) refl, where host = "''h''" and svc = "''s''" and children = "[]"]
    by (intro exI [of _ js'] exI [of _ c']) (simp add: needUpdated_def)
qed

text \<open>
  C34. Of the hosts that trigger a service in one task only the first becomes a child of its check, if it
  is not one already; the children of all other checks, and of later hosts, stay as they were.
\<close>

theorem juggler_first_child_only:
  assumes "json_laws lib" and "ensure_triggers lib (childSet m) triggers [] js (Some m) = Inr (Inr (js', services))"
  shows "\<exists>m'. services = Some m' \<and> (\<forall>svc. ck_Children (lookup_zero new_check m' svc) =
    ck_Children (lookup_zero new_check m svc) @
    (case find (\<lambda>t. ev_Service t = svc) triggers of
       None \<Rightarrow> []
     | Some t \<Rightarrow> if child_key (ev_Host t) svc \<in> set (childSet m) then [] else [child_of t]))"
  using ensure_triggers_children [OF assms] by (simp add: added_children_def)

definition event_of :: "string \<Rightarrow> string \<Rightarrow> jugglerEvent" where
  "event_of host svc = \<lparr>ev_taskTags = [], ev_Host = host, ev_Service = svc, ev_Status = ''OK'', ev_Description = []\<rparr>"

theorem juggler_first_child_only_witness:
  "\<exists>js' m'. ensure_triggers plain_json (childSet []) [event_of ''a'' ''s'', event_of ''b'' ''s''] [] flappy (Some []) =
      Inr (Inr (js', Some m')) \<and> map ch_Host (ck_Children (lookup_zero new_check m' ''s'')) = [''a'']"
proof -
  let ?ts = "[event_of ''a'' ''s'', event_of ''b'' ''s'']"
  have "case ensure_triggers plain_json (childSet []) ?ts [] flappy (Some []) of Inr (Inr r) \<Rightarrow> True | _ \<Rightarrow> False" by code_simp
  then obtain js' services where r: "ensure_triggers plain_json (childSet []) ?ts [] flappy (Some []) = Inr (Inr (js', services))"
    by (auto split: sum.splits)
  obtain m' where m': "services = Some m'" "\<forall>svc. ck_Children (lookup_zero new_check m' svc) =
      ck_Children (lookup_zero new_check [] svc) @ (case find (\<lambda>t. ev_Service t = svc) ?ts of None \<Rightarrow> []
        | Some t \<Rightarrow> if child_key (ev_Host t) svc \<in> set (childSet []) then [] else [child_of t])"
    using juggler_first_child_only [OF plain_json_laws r] by blast
  have "map ch_Host (ck_Children (lookup_zero new_check m' ''s'')) = [''a'']"
    unfolding m'(2) [rule_format] by (simp add: event_of_def lookup_zero_def new_check_def childSet_def child_of_def)
  then show ?thesis using r unfolding m'(1) by (intro exI [of _ js'] exI [of _ m']) simp
qed

end
