(* ===== verification/JugglerSend.thy ===== *)
theory JugglerSend
  imports JugglerChecks
begin

text \<open>
  \<open>senders/juggler/juggler.go\<close> and \<open>getCheck\<close> of \<open>api.go\<close>: reading the checks of a host, and sending the
  events of a task, one by one to the frontends or in batches. What the plugin returns, what a request
  gives and what the JSON decoder reads are arguments; the cache is what it answers.
\<close>

section \<open>Reading the checks\<close>

text \<open>The hosts are asked in turn until one answers; the end of the context ends the search.\<close>

fun query_checks :: "(string \<Rightarrow> 'e http_outcome) \<Rightarrow> string list \<Rightarrow> string option" where
  "query_checks get [] = None"
| "query_checks get (jhost # jhosts) =
     (case get jhost of
        Response status (Inl rerr) \<Rightarrow> query_checks get jhosts
      | Response status (Inr body) \<Rightarrow> if status \<noteq> 200 then query_checks get jhosts else Some body
      | ContextDone \<Rightarrow> None
      | NetError err \<Rightarrow> query_checks get jhosts
      | BadRequest err \<Rightarrow> query_checks get jhosts)"

type_synonym flap_response = "(string, (string, jugglerFlapConfig option) gomap option) gomap option"

text \<open>The flaps of a check are in the same JSON object as the check, and are copied into it.\<close>

fun copy_flaps :: "string \<Rightarrow> (string \<times> jugglerFlapConfig option) list \<Rightarrow> jugglerResponse \<Rightarrow> gopanic + jugglerResponse" where
  "copy_flaps host [] hostChecks = Inr hostChecks"
| "copy_flaps host ((c, v) # flaps) hostChecks =
     (case v of
        None \<Rightarrow> Inl NilDereference
      | Some f \<Rightarrow>
          if flap_unset f then copy_flaps host flaps hostChecks
          else (case hostChecks of
              None \<Rightarrow> Inl AssignmentToNilMap
            | Some m \<Rightarrow> (case lookup_zero None m host of
                  None \<Rightarrow> Inl AssignmentToNilMap
                | Some services \<Rightarrow>
                    let chk = (lookup_zero (new_check\<lparr>ck_update := False\<rparr>) services c)\<lparr>ck_Flaps := Some f\<rparr>
                    in copy_flaps host flaps (Some (AList.update host (Some (AList.update c chk services)) m)))))"

datatype 'e getcheck_error = CheckNotFetched | CacheError 'e

record 'e checks_api =
  ChecksGet :: "string \<Rightarrow> 'e http_outcome"
  CacheLook :: "string \<Rightarrow> string \<Rightarrow> ('e + string) option"
  UnmarshalChecks :: "string \<Rightarrow> 'e + jugglerResponse"
  UnmarshalFlaps :: "string \<Rightarrow> 'e + flap_response"
  FlapOrder :: "nat list"

definition getCheck :: "'e checks_api \<Rightarrow> string \<Rightarrow> JugglerConfig \<Rightarrow> gopanic + ('e getcheck_error + JugglerConfig \<times> jugglerResponse)" where
  "getCheck api jid js =
     (let js = (if length (jc_Tags js) = 0 then js\<lparr>jc_Tags := defaultTags\<rparr> else js);
          host = jc_Host js;
          body = (case CacheLook api jid host of
                    Some (Inl err) \<Rightarrow> Inl (CacheError err)
                  | Some (Inr b) \<Rightarrow> Inr b
                  | None \<Rightarrow> (case query_checks (ChecksGet api) (jc_JHosts js) of None \<Rightarrow> Inl CheckNotFetched | Some b \<Rightarrow> Inr b))
      in case body of
           Inl err \<Rightarrow> Inr (Inl err)
         | Inr cJSON \<Rightarrow>
             let hostChecks = (case UnmarshalChecks api cJSON of Inl err \<Rightarrow> Some [(host, Some [])] | Inr r \<Rightarrow> r);
                 flap = (case UnmarshalFlaps api cJSON of Inl err \<Rightarrow> Some [(host, Some [])] | Inr r \<Rightarrow> r);
                 flaps = (case flap of None \<Rightarrow> [] | Some m \<Rightarrow> (case lookup_zero None m host of None \<Rightarrow> [] | Some fs \<Rightarrow> fs))
             in bind_sum (copy_flaps host (shuffle (FlapOrder api) flaps) hostChecks) (\<lambda>hostChecks. Inr (Inr (js, hostChecks))))"

section \<open>Batches\<close>

text \<open>
  The loop that cuts the events into batches. It does not end when the size is 0 (\<open>None\<close>), and panics
  when it is negative.
\<close>

partial_function (option) batches :: "int \<Rightarrow> 'a list \<Rightarrow> (gopanic + 'a list list) option" where
  "batches n events =
     (if length events = 0 then Some (Inr [])
      else if int (length events) > n then
        (if n < 0 then Some (Inl IndexOutOfRange)
         else Option.bind (batches n (drop (nat n) events)) (\<lambda>r.
           Some (bind_sum r (\<lambda>bs. Inr (take (nat n) events # bs)))))
      else Some (Inr [events]))"

text \<open>The attempts of \<open>sendBatch\<close>; \<open>post k\<close> is the outcome of attempt \<open>k\<close>. A body read with an error is what was read.\<close>

datatype 'e post_outcome = PostResponse int string | PostContextDone 'e | PostError 'e

datatype 'e batch_error = BadHttpStatus int | PostFailed 'e

function send_attempts :: "(nat \<Rightarrow> 'e post_outcome) \<Rightarrow> nat \<Rightarrow> string \<Rightarrow> 'e batch_error option \<Rightarrow> nat \<times> string \<times> 'e batch_error option" where
  "send_attempts post retry responseBody err =
     (if retry < 2 then
        (case post (Suc retry) of
           PostResponse status body \<Rightarrow>
             if status = 200 then (Suc retry, body, None)
             else if status = 400 then (Suc retry, body, Some (BadHttpStatus status))
             else send_attempts post (Suc retry) body (Some (BadHttpStatus status))
         | PostContextDone e \<Rightarrow> send_attempts post (Suc retry) responseBody (Some (PostFailed e))
         | PostError e \<Rightarrow> send_attempts post (Suc retry) responseBody (Some (PostFailed e)))
      else (retry, responseBody, err))"
  by pat_completeness auto
termination
  by (relation "measure (\<lambda>(post, retry, _). 2 - retry)") auto

declare send_attempts.simps [simp del]

definition sendBatch :: "(nat \<Rightarrow> 'e post_outcome) \<Rightarrow> nat \<times> string \<times> 'e batch_error option" where
  "sendBatch post = send_attempts post 0 [] None"

record jugglerBatchResponse =
  br_Events :: "int list"
  br_Error :: bool

record 'e batch_api =
  MarshalBatch :: "jugglerEvent list \<Rightarrow> 'e + string"
  BatchPost :: "string \<Rightarrow> nat \<Rightarrow> 'e post_outcome"
  UnmarshalResponse :: "string \<Rightarrow> 'e + jugglerBatchResponse"
  EventGet :: "string \<Rightarrow> jugglerEvent \<Rightarrow> 'e http_outcome"

text \<open>The reports of a response; a bad one looks up the event of the same index for the log.\<close>

fun count_bad :: "nat \<Rightarrow> int list \<Rightarrow> nat \<Rightarrow> nat \<Rightarrow> gopanic + nat" where
  "count_bad n [] idx failed = Inr failed"
| "count_bad n (code # codes) idx failed =
     (if code \<noteq> 200 then
        (if idx \<ge> n then Inl IndexOutOfRange else count_bad n codes (Suc idx) (Suc failed))
      else count_bad n codes (Suc idx) failed)"

text \<open>What the goroutine of a batch adds to the failures.\<close>

definition batch_failures :: "'e batch_api \<Rightarrow> jugglerEvent list \<Rightarrow> gopanic + nat" where
  "batch_failures api je =
     (case MarshalBatch api je of
        Inl err \<Rightarrow> Inr (length je)
      | Inr batchJSON \<Rightarrow>
          (case sendBatch (BatchPost api batchJSON) of (retry, respJSON, err) \<Rightarrow>
             let failed = (if err \<noteq> None then length je else 0) in
             case UnmarshalResponse api respJSON of
               Inl e \<Rightarrow> Inr failed
             | Inr resp \<Rightarrow>
                 let failed = (if br_Error resp then failed + length je else failed)
                 in count_bad (length je) (br_Events resp) 0 failed))"

text \<open>A single event to one frontend: \<open>True\<close> is success.\<close>

definition sendEvent :: "'e batch_api \<Rightarrow> string \<Rightarrow> jugglerEvent \<Rightarrow> bool" where
  "sendEvent api front event \<longleftrightarrow>
     (case EventGet api front event of Response status (Inr body) \<Rightarrow> status = 200 | _ \<Rightarrow> False)"

text \<open>Each goroutine adds its failures to a 32-bit counter; the sum does not depend on their order.\<close>

fun sum_failures :: "(gopanic + nat) list \<Rightarrow> gopanic + 32 word" where
  "sum_failures [] = Inr 0"
| "sum_failures (f # fs) = bind_sum f (\<lambda>n. bind_sum (sum_failures fs) (\<lambda>w. Inr (of_nat n + w)))"

definition event_failures :: "'e batch_api \<Rightarrow> string list \<Rightarrow> jugglerEvent list \<Rightarrow> (gopanic + nat) list" where
  "event_failures api fronts events =
     concat (map (\<lambda>e. map (\<lambda>f. Inr (if sendEvent api f e then 0 else 1)) fronts) events)"

text \<open>The failures reported and the total; \<open>None\<close> when all was sent. The outer \<open>None\<close> is a loop that does not end.\<close>

definition juggler_sendInternal :: "'e batch_api \<Rightarrow> JugglerConfig \<Rightarrow> jugglerEvent list \<Rightarrow>
    (gopanic + (32 word \<times> nat) option) option" where
  "juggler_sendInternal api js events =
     (let finish = (\<lambda>fs total. bind_sum (sum_failures fs) (\<lambda>w. Inr (if 0 < sint w then Some (w, total) else None))) in
      if jc_BatchEndpoint js = [] then
        Some (finish (event_failures api (jc_JFrontend js) events) (length events * length (jc_JFrontend js)))
      else Option.bind (batches (jc_BatchSize js) events) (\<lambda>r.
        Some (bind_sum r (\<lambda>bs. finish (map (batch_failures api) bs) (length events)))))"

section \<open>A task\<close>

datatype ('p, 'e) juggler_error = PluginError 'p | GetError "'e getcheck_error" | EnsureError "'e check_error" | SendFailed "32 word" nat

text \<open>\<open>Send\<close>, from the events the plugin returned.\<close>

definition juggler_Send :: "'e json_lib \<Rightarrow> 'e checks_api \<Rightarrow> (string \<Rightarrow> string \<Rightarrow> 'e http_outcome) \<Rightarrow> 'e batch_api \<Rightarrow> nat list \<Rightarrow>
    string \<Rightarrow> JugglerConfig \<Rightarrow> 'p + jugglerEvent list \<Rightarrow> (gopanic + ('p, 'e) juggler_error option) option" where
  "juggler_Send lib checks post api order jid js plugin =
     (case plugin of
        Inl err \<Rightarrow> Some (Inr (Some (PluginError err)))
      | Inr jEvents \<Rightarrow>
          if length jEvents = 0 then Some (Inr None)
          else (case getCheck checks jid js of
              Inl panic \<Rightarrow> Some (Inl panic)
            | Inr (Inl err) \<Rightarrow> Some (Inr (Some (GetError err)))
            | Inr (Inr (js, hostChecks)) \<Rightarrow>
                (case ensureCheck lib post order js hostChecks jEvents of
                   Inl panic \<Rightarrow> Some (Inl panic)
                 | Inr run \<Rightarrow>
                     (case cr_error run of
                        Some err \<Rightarrow> Some (Inr (Some (EnsureError err)))
                      | None \<Rightarrow>
                          map_option (\<lambda>r. bind_sum r (\<lambda>res. Inr (map_option (\<lambda>(w, total). SendFailed w total) res)))
                            (juggler_sendInternal api (cr_js run) jEvents)))))"

section \<open>Lemmas\<close>

lemma batches_positive:
  assumes "0 < n"
  shows "\<exists>bs. batches n es = Some (Inr bs) \<and> concat bs = es \<and> (\<forall>b\<in>set bs. b \<noteq> [] \<and> int (length b) \<le> n)"
proof (induction es rule: measure_induct_rule [of length])
  case (less es)
  consider "es = []" | "es \<noteq> []" "int (length es) \<le> n" | "int (length es) > n" by linarith
  then show ?case
  proof cases
    case 1
    then show ?thesis by (simp add: batches.simps)
  next
    case 2
    then show ?thesis by (simp add: batches.simps [of n es])
  next
    case 3
    then have len: "length (drop (nat n) es) < length es" "es \<noteq> []" using assms by auto
    obtain bs where bs: "batches n (drop (nat n) es) = Some (Inr bs)" "concat bs = drop (nat n) es"
        "\<forall>b\<in>set bs. b \<noteq> [] \<and> int (length b) \<le> n" using less [OF len(1)] by blast
    have "batches n es = Some (Inr (take (nat n) es # bs))" using 3 assms len(2) bs(1) by (simp add: batches.simps [of n es])
    moreover have "take (nat n) es \<noteq> []" "int (length (take (nat n) es)) \<le> n" using assms len(2) by auto
    ultimately show ?thesis using bs(2,3) by auto
  qed
qed

lemma batches_zero: "es \<noteq> [] \<Longrightarrow> batches 0 es = None"
proof (rule ccontr)
  assume es: "es \<noteq> []" and "batches 0 es \<noteq> None"
  then obtain r where "batches 0 es = Some r" by blast
  then have "\<not> ((0::int) = 0 \<and> es \<noteq> [])"
  proof (rule batches.raw_induct [where P = "\<lambda>n es r. \<not> (n = 0 \<and> es \<noteq> [])", rotated])
    fix f n and us :: "'a list" and r
    assume IH: "\<And>n us r. f n us = Some r \<Longrightarrow> \<not> (n = 0 \<and> us \<noteq> [])"
      and body: "(if length us = 0 then Some (Inr [])
        else if int (length us) > n then
          (if n < 0 then Some (Inl IndexOutOfRange)
           else Option.bind (f n (drop (nat n) us)) (\<lambda>r. Some (bind_sum r (\<lambda>bs. Inr (take (nat n) us # bs)))))
        else Some (Inr [us])) = Some r"
    show "\<not> (n = 0 \<and> us \<noteq> [])"
    proof
      assume n: "n = 0 \<and> us \<noteq> []"
      then have "f 0 us \<noteq> None" using body by (cases "f 0 us") simp_all
      then show False using IH [of 0 us] n by blast
    qed
  qed
  then show False using es by simp
qed

lemma batches_negative: "n < 0 \<Longrightarrow> es \<noteq> [] \<Longrightarrow> batches n es = Some (Inl IndexOutOfRange)"
  by (simp add: batches.simps)

lemma count_bad_zero: "count_bad n codes idx failed = Inr 0 \<longleftrightarrow> failed = 0 \<and> (\<forall>c\<in>set codes. c = 200)"
  by (induction n codes idx failed rule: count_bad.induct) auto

text \<open>A batch counts no failure when it was accepted, or when its answer could not be read.\<close>

definition batch_accepted :: "'e batch_api \<Rightarrow> jugglerEvent list \<Rightarrow> bool" where
  "batch_accepted api je \<longleftrightarrow>
     (case MarshalBatch api je of
        Inl err \<Rightarrow> False
      | Inr batchJSON \<Rightarrow>
          (case sendBatch (BatchPost api batchJSON) of (retry, respJSON, err) \<Rightarrow>
             err = None \<and> (case UnmarshalResponse api respJSON of
               Inl e \<Rightarrow> True
             | Inr resp \<Rightarrow> \<not> br_Error resp \<and> (\<forall>code\<in>set (br_Events resp). code = 200))))"

lemma batch_failures_zero: "je \<noteq> [] \<Longrightarrow> batch_failures api je = Inr 0 \<longleftrightarrow> batch_accepted api je"
proof (cases "MarshalBatch api je")
  case (Inr json)
  obtain retry resp err where send: "sendBatch (BatchPost api json) = (retry, resp, err)" by (cases "sendBatch (BatchPost api json)")
  assume "je \<noteq> []"
  then show ?thesis
    by (cases err; cases "UnmarshalResponse api resp")
      (simp_all add: batch_failures_def batch_accepted_def Inr send count_bad_zero Let_def)
qed (simp add: batch_failures_def batch_accepted_def)

lemma sum_failures_eq: "sum_failures (map Inr fs) = Inr (of_nat (sum_list fs))"
  by (induction fs) simp_all

lemma sint_of_nat_32: "k < 2 ^ 31 \<Longrightarrow> sint (of_nat k :: 32 word) = int k"
  by (simp add: signed_of_nat signed_take_bit_int_eq_self)

text \<open>\<open>sendBatch\<close> makes one or two attempts and succeeds when one of them is answered with 200.\<close>

lemma sendBatch_result:
  "fst (sendBatch post) \<in> {1, 2} \<and>
   (snd (snd (sendBatch post)) = None \<longleftrightarrow> (\<exists>body. post 1 = PostResponse 200 body) \<or>
     (\<not> (\<exists>body. post 1 = PostResponse 400 body) \<and> (\<exists>body. post 2 = PostResponse 200 body)))"
  by (auto simp: sendBatch_def send_attempts.simps [of post 0] send_attempts.simps [of post "Suc 0"]
      send_attempts.simps [of post "Suc (Suc 0)"] numeral_2_eq_2 split: post_outcome.split)

section \<open>Properties\<close>

text \<open>
  C35. With the settings of the sender and a size of batches that is not negative, cutting the events ends
  and gives non-empty batches within the size that are the events in order; the task then succeeds
  exactly when every batch is accepted, and else reports the failures counted and the number of events.
\<close>

theorem juggler_batches:
  assumes conf: "GetSenderConfig Getenv readFile unmarshal fetchers net order myname = Inr (Inr conf)"
    and task: "UpdateTaskConfig conf t = (js, None)"
    and size: "0 \<le> jc_BatchSize js" and endpoint: "jc_BatchEndpoint js \<noteq> []"
  shows "\<exists>bs. batches (jc_BatchSize js) events = Some (Inr bs) \<and> concat bs = events \<and>
    (\<forall>b\<in>set bs. b \<noteq> [] \<and> int (length b) \<le> jc_BatchSize js) \<and>
    (\<forall>fs. map (batch_failures api) bs = map Inr fs \<and> sum_list fs < 2 ^ 31 \<longrightarrow>
      juggler_sendInternal api js events = Some (Inr
        (if \<forall>b\<in>set bs. batch_accepted api b then None else Some (of_nat (sum_list fs), length events))))"
proof -
  have "jc_BatchSize js \<noteq> 0" using GetSenderConfig_batch [OF conf] UpdateTaskConfig_ok(5) [OF task] by simp
  then have pos: "0 < jc_BatchSize js" using size by simp
  obtain bs where bs: "batches (jc_BatchSize js) events = Some (Inr bs)" "concat bs = events"
      "\<forall>b\<in>set bs. b \<noteq> [] \<and> int (length b) \<le> jc_BatchSize js" using batches_positive [OF pos] by blast
  have send: "juggler_sendInternal api js events = Some (Inr
        (if \<forall>b\<in>set bs. batch_accepted api b then None else Some (of_nat (sum_list fs), length events)))"
    if fs: "map (batch_failures api) bs = map Inr fs" and small: "sum_list fs < 2 ^ 31" for fs
  proof -
    have "sum_list fs = 0 \<longleftrightarrow> (\<forall>n\<in>set fs. Inr n = (Inr 0 :: gopanic + nat))" by (simp add: sum_list_eq_0_iff)
    also have "\<dots> \<longleftrightarrow> (\<forall>r\<in>set (map Inr fs). r = (Inr 0 :: gopanic + nat))" by auto
    also have "\<dots> \<longleftrightarrow> (\<forall>b\<in>set bs. batch_accepted api b)"
      unfolding fs [symmetric] using bs(3) batch_failures_zero by auto
    finally have "0 < sum_list fs \<longleftrightarrow> \<not> (\<forall>b\<in>set bs. batch_accepted api b)" by linarith
    then show ?thesis
      using endpoint sint_of_nat_32 [OF small]
      by (simp add: juggler_sendInternal_def Let_def bs(1) fs sum_failures_eq del: not_all bex_simps ball_simps)
  qed
  show ?thesis using bs send by blast
qed

definition quiet_api :: "string batch_api" where
  "quiet_api = \<lparr>MarshalBatch = \<lambda>je. Inr (map (\<lambda>e. hd (ev_Service e)) je),
     BatchPost = \<lambda>json k. if json = ''c'' then PostError ''lost'' else PostResponse 200 [],
     UnmarshalResponse = \<lambda>body. Inl ''empty'', EventGet = \<lambda>front e. ContextDone\<rparr>"

definition sample_sender_config :: SenderConfig where
  "sample_sender_config = \<lparr>sd_CacheTTL = 0, sd_CacheCleanInterval = 0, sd_PluginsDir = [], sd_Hosts = [''j''], sd_Frontend = [],
     sd_BatchSize = 2, sd_BatchEndpoint = ''b'', sd_Token = [], sd_Store = \<lparr>es_Cluster = [], es_Fetcher = None, es_Database = [],
       es_AuthDB = [], es_User = [], es_Password = []\<rparr>\<rparr>"

theorem juggler_batches_witness:
  "juggler_sendInternal quiet_api (fst (UpdateTaskConfig (store_database (sender_defaults sample_sender_config)) zero_JugglerConfig))
    [event_of ''h'' ''a'', event_of ''h'' ''b'', event_of ''h'' ''c''] = Some (Inr (Some (1, 3)))"
proof -
  let ?es = "[event_of ''h'' ''a'', event_of ''h'' ''b'', event_of ''h'' ''c'']"
  define conf where "conf = store_database (sender_defaults sample_sender_config)"
  define js where "js = fst (UpdateTaskConfig conf zero_JugglerConfig)"
  have c: "GetSenderConfig (\<lambda>v. []) (\<lambda>p. Inr []) (\<lambda>raw. Inr sample_sender_config) [] sample_net [] ''me'' =
      (Inr (Inr conf) :: gopanic + ((string, string) sender_config_error + SenderConfig))"
    by (simp add: GetSenderConfig_def conf_def PluginConfig_Type_def text_value_def plugin_get_def sender_defaults_def
        sample_sender_config_def Let_def)
  have "snd (UpdateTaskConfig conf zero_JugglerConfig) = None" unfolding conf_def by code_simp
  then have js: "UpdateTaskConfig conf zero_JugglerConfig = (js, None)" by (simp add: js_def prod_eq_iff)
  have size: "jc_BatchSize js = 2" and endpoint: "jc_BatchEndpoint js = ''b''" unfolding js_def conf_def by code_simp+
  obtain bs where bs: "batches (jc_BatchSize js) ?es = Some (Inr bs)"
      "\<And>fs. map (batch_failures quiet_api) bs = map Inr fs \<and> sum_list fs < 2 ^ 31 \<Longrightarrow>
        juggler_sendInternal quiet_api js ?es = Some (Inr
          (if \<forall>b\<in>set bs. batch_accepted quiet_api b then None else Some (of_nat (sum_list fs), length ?es)))"
    using juggler_batches [OF c js, of ?es quiet_api] size endpoint by auto
  have "bs = [take 2 ?es, drop 2 ?es]" using bs(1) size by (simp add: batches.simps)
  moreover have "map (batch_failures quiet_api) [take 2 ?es, drop 2 ?es] = map Inr [0, 1]"
      "\<not> batch_accepted quiet_api (drop 2 ?es)" by code_simp+
  ultimately have "juggler_sendInternal quiet_api js ?es = Some (Inr (Some (1, 3)))" using bs(2) [of "[0, 1]"] by simp
  then show ?thesis unfolding js_def conf_def .
qed

end
