(* ===== verification/JugglerStore.thy ===== *)
theory JugglerStore
  imports JugglerConfig
begin

text \<open>
  \<open>senders/juggler/plugins_store.go\<close>: the history of events a plugin keeps under a key. The mongo
  collection is a map from keys to histories, newest event first; whether a query of mongo fails is an
  argument. A task hands a request to the worker over an unbuffered channel and waits for the reply
  until its deadline; the worker offers the reply once and drops it when nobody is waiting at that
  moment.
\<close>

section \<open>Data\<close>

record storeRequest =
  rq_key :: string
  rq_event :: string
  rq_history :: int
  rq_id :: nat

datatype store_error = NotConnected | SendDeadline | ReadDeadline

type_synonym collection = "(string, string list) gomap"

record pluginEventsStore =
  ps_session :: bool
  ps_config :: pluginEventsStoreConfig

text \<open>\<open>InitEventsStore\<close>; \<open>connected\<close> says whether \<open>Connect\<close> reached mongo. The result starts the worker or not.\<close>

definition InitEventsStore :: "bool \<Rightarrow> pluginEventsStoreConfig \<Rightarrow> pluginEventsStore \<Rightarrow> pluginEventsStore \<times> bool" where
  "InitEventsStore connected config st =
     (if es_Cluster config = [] then (st\<lparr>ps_config := config\<rparr>, False)
      else
        let config = (if es_Database config = [] then config\<lparr>es_Database := ''combaine''\<rparr> else config);
            config = (if es_AuthDB config = [] then config\<lparr>es_AuthDB := es_Database config\<rparr> else config);
            st = st\<lparr>ps_config := config\<rparr>
        in if connected then (st\<lparr>ps_session := True\<rparr>, True) else (st, False))"

text \<open>
  \<open>Connect\<close>: \<open>dial\<close> is mongo at the address of the cluster, \<open>login\<close> its answer to a user. A session whose login failed is not closed: the
  flag says whether one is left open without a store that holds it.
\<close>

datatype 'e connect_error = MongoConnect 'e | MongoLogin 'e

definition store_Connect :: "(string \<Rightarrow> 'e option) \<Rightarrow> (string \<Rightarrow> string \<Rightarrow> string \<Rightarrow> 'e option) \<Rightarrow> pluginEventsStore \<Rightarrow>
    pluginEventsStore \<times> bool \<times> 'e connect_error option" where
  "store_Connect dial login st =
     (let config = ps_config st in
      case dial (es_Cluster config) of
        Some err \<Rightarrow> (st, False, Some (MongoConnect err))
      | None \<Rightarrow>
          (case (if es_User config \<noteq> [] then login (es_AuthDB config) (es_User config) (es_Password config) else None) of
             Some err \<Rightarrow> (st, True, Some (MongoLogin err))
           | None \<Rightarrow> (st\<lparr>ps_session := True\<rparr>, False, None)))"

definition store_Close :: "pluginEventsStore \<Rightarrow> pluginEventsStore" where
  "store_Close st = (if ps_session st then st\<lparr>ps_session := False\<rparr> else st)"

text \<open>With a cluster configured, \<open>InitEventsStore\<close> starts the worker exactly when \<open>Connect\<close> gives a session, which the store then holds.\<close>

lemma InitEventsStore_connects:
  assumes "es_Cluster config \<noteq> []" and "\<not> ps_session st" and "InitEventsStore connected config st = (st', started)"
    and "store_Connect dial login (st'\<lparr>ps_session := False\<rparr>) = (st2, leaked, err)" and "connected \<longleftrightarrow> err = None"
  shows "st2 = st' \<and> started = (err = None) \<and> ps_session st' = (err = None)"
  using assms by (auto simp: InitEventsStore_def store_Connect_def Let_def split: option.splits if_splits)

section \<open>The worker\<close>

text \<open>The loop that moves the events back by one: \<open>i\<close> runs down to 1; an index out of range panics.\<close>

fun shift_events :: "nat \<Rightarrow> string list \<Rightarrow> gopanic + string list" where
  "shift_events 0 es = Inr es"
| "shift_events (Suc i) es =
     (if Suc i \<ge> length es then Inl IndexOutOfRange else shift_events i (es[Suc i := es ! i]))"

text \<open>The history after \<open>event\<close>; \<open>es[:h]\<close> may reach up to the capacity of the slice, which is not below its length.\<close>

definition push_event :: "int \<Rightarrow> string \<Rightarrow> string list \<Rightarrow> gopanic + string list" where
  "push_event history event es =
     (let (es, h) = (if int (length es) < history then (es @ [[]], int (length es) + 1) else (es, history)) in
      bind_sum (shift_events (nat (h - 1)) es) (\<lambda>es.
        if es = [] then Inl IndexOutOfRange
        else if h < 0 then Inl IndexOutOfRange
        else Inr (take (nat h) (es[0 := event]))))"

text \<open>
  One request: a key that is not found (or a query that fails) gets a history of its own. The error of
  the insert or the upsert only goes into a result that is not sent; the reply is the history.
\<close>

record mongo =
  FindFails :: "string \<Rightarrow> bool"
  InsertFails :: "string \<Rightarrow> bool"
  UpsertFails :: "string \<Rightarrow> bool"

definition worker_step :: "mongo \<Rightarrow> storeRequest \<Rightarrow> collection \<Rightarrow> gopanic + collection \<times> string list" where
  "worker_step db q c =
     (case (if FindFails db (rq_key q) then None else map_of c (rq_key q)) of
        None \<Rightarrow>
          Inr (if InsertFails db (rq_key q) \<or> map_of c (rq_key q) \<noteq> None then c
               else AList.update (rq_key q) [rq_event q] c, [rq_event q])
      | Some es \<Rightarrow>
          bind_sum (push_event (rq_history q) (rq_event q) es) (\<lambda>es.
            Inr (if UpsertFails db (rq_key q) then c else AList.update (rq_key q) es c, es)))"

section \<open>Tasks and the worker\<close>

text \<open>Where a task is: offering its request, waiting for the worker or for the reply, or back with a result.\<close>

datatype push_state = Offering storeRequest | Accepted storeRequest | Reading storeRequest
  | Returned storeRequest "store_error + string list"

text \<open>The worker waits for a request, works on one, or has died of a panic.\<close>

datatype worker_state = Idle | Busy storeRequest "string list" | Dead gopanic

record store_run =
  sr_db :: collection
  sr_tasks :: "(nat \<times> push_state) list"
  sr_worker :: worker_state

text \<open>\<open>Push\<close> up to its first \<open>select\<close>.\<close>

definition Push_begin :: "pluginEventsStore \<Rightarrow> nat \<Rightarrow> string \<Rightarrow> string \<Rightarrow> int \<Rightarrow> store_run \<Rightarrow> store_run" where
  "Push_begin st i key event history r =
     (let query = \<lparr>rq_key = key, rq_event = event, rq_history = history, rq_id = i\<rparr> in
      r\<lparr>sr_tasks := AList.update i
        (if \<not> ps_session st then Returned query (Inl NotConnected) else Offering query) (sr_tasks r)\<rparr>)"

text \<open>The worker takes the request and works on it; the task goes on to its second \<open>select\<close>.\<close>

definition worker_takes :: "mongo \<Rightarrow> nat \<Rightarrow> store_run \<Rightarrow> store_run option" where
  "worker_takes db i r =
     (case (map_of (sr_tasks r) i, sr_worker r) of
        (Some (Offering q), Idle) \<Rightarrow>
          Some (case worker_step db q (sr_db r) of
             Inl panic \<Rightarrow> r\<lparr>sr_tasks := AList.update i (Accepted q) (sr_tasks r), sr_worker := Dead panic\<rparr>
           | Inr (c, es) \<Rightarrow> r\<lparr>sr_db := c, sr_tasks := AList.update i (Accepted q) (sr_tasks r), sr_worker := Busy q es\<rparr>)
      | _ \<Rightarrow> None)"

definition Push_reads :: "nat \<Rightarrow> store_run \<Rightarrow> store_run option" where
  "Push_reads i r =
     (case map_of (sr_tasks r) i of
        Some (Accepted q) \<Rightarrow> Some (r\<lparr>sr_tasks := AList.update i (Reading q) (sr_tasks r)\<rparr>)
      | _ \<Rightarrow> None)"

text \<open>The worker's \<open>select\<close> has a default: the reply reaches a task that is in its own \<open>select\<close>, else it is lost.\<close>

definition worker_replies :: "store_run \<Rightarrow> store_run option" where
  "worker_replies r =
     (case sr_worker r of
        Busy q es \<Rightarrow>
          Some (case map_of (sr_tasks r) (rq_id q) of
             Some (Reading query) \<Rightarrow> r\<lparr>sr_tasks := AList.update (rq_id q) (Returned query (Inr es)) (sr_tasks r), sr_worker := Idle\<rparr>
           | _ \<Rightarrow> r\<lparr>sr_worker := Idle\<rparr>)
      | _ \<Rightarrow> None)"

definition deadline_passes :: "nat \<Rightarrow> store_run \<Rightarrow> store_run option" where
  "deadline_passes i r =
     (case map_of (sr_tasks r) i of
        Some (Offering q) \<Rightarrow> Some (r\<lparr>sr_tasks := AList.update i (Returned q (Inl SendDeadline)) (sr_tasks r)\<rparr>)
      | Some (Reading q) \<Rightarrow> Some (r\<lparr>sr_tasks := AList.update i (Returned q (Inl ReadDeadline)) (sr_tasks r)\<rparr>)
      | _ \<Rightarrow> None)"

text \<open>A run: a number is used for one \<open>Push\<close>.\<close>

inductive store_step :: "pluginEventsStore \<Rightarrow> mongo \<Rightarrow> store_run \<Rightarrow> store_run \<Rightarrow> bool" for st db where
  push: "map_of (sr_tasks r) i = None \<Longrightarrow> store_step st db r (Push_begin st i key event history r)"
| takes: "worker_takes db i r = Some r' \<Longrightarrow> store_step st db r r'"
| reads: "Push_reads i r = Some r' \<Longrightarrow> store_step st db r r'"
| replies: "worker_replies r = Some r' \<Longrightarrow> store_step st db r r'"
| deadline: "deadline_passes i r = Some r' \<Longrightarrow> store_step st db r r'"

abbreviation store_steps :: "pluginEventsStore \<Rightarrow> mongo \<Rightarrow> store_run \<Rightarrow> store_run \<Rightarrow> bool" where
  "store_steps st db \<equiv> (store_step st db)\<^sup>*\<^sup>*"

definition store_start :: "collection \<Rightarrow> store_run" where
  "store_start c = \<lparr>sr_db = c, sr_tasks = [], sr_worker = Idle\<rparr>"

section \<open>Histories\<close>

lemma length_shift_events: "shift_events i es = Inr es' \<Longrightarrow> length es' = length es"
  by (induction i es rule: shift_events.induct) (auto split: if_splits)

lemma shift_events_eq:
  "i < length es \<Longrightarrow> shift_events i es = Inr (take 1 es @ take i es @ drop (Suc i) es)"
proof (induction i arbitrary: es)
  case 0
  then show ?case by (cases es) simp_all
next
  case (Suc i)
  have "shift_events (Suc i) es = shift_events i (es[Suc i := es ! i])" using Suc.prems by simp
  also have "\<dots> = Inr (take 1 (es[Suc i := es ! i]) @ take i (es[Suc i := es ! i]) @ drop (Suc i) (es[Suc i := es ! i]))"
    using Suc by simp
  also have "take 1 (es[Suc i := es ! i]) = take 1 es" by (cases es) simp_all
  also have "take i (es[Suc i := es ! i]) @ drop (Suc i) (es[Suc i := es ! i]) = take i es @ es ! i # drop (Suc (Suc i)) es"
    using Suc.prems by (simp add: Cons_nth_drop_Suc [symmetric])
  also have "\<dots> = take (Suc i) es @ drop (Suc (Suc i)) es" using Suc.prems by (simp add: take_Suc_conv_app_nth)
  finally show ?case .
qed

text \<open>A positive length keeps the newest events; 0 empties a history, and panics on an empty one.\<close>

lemma push_event_eq:
  "push_event history event es =
    (if 1 \<le> history then Inr (take (nat history) (event # es))
     else if history = 0 \<and> es \<noteq> [] then Inr []
     else Inl IndexOutOfRange)"
proof (cases "1 \<le> history")
  case True
  show ?thesis
  proof (cases "int (length es) < history")
    case less: True
    have "shift_events (length es) (es @ [[]]) = Inr (take 1 (es @ [[]]) @ es)" by (simp add: shift_events_eq)
    moreover have "take (nat history) (event # es) = event # es" using less by simp
    ultimately show ?thesis using True less by (cases es) (simp_all add: push_event_def nat_add_distrib)
  next
    case False
    define i where "i = nat (history - 1)"
    have i: "i < length es" "nat history = Suc i" using True False by (simp_all add: i_def)
    have "shift_events i es = Inr (take 1 es @ take i es @ drop (Suc i) es)" using i(1) by (rule shift_events_eq)
    then show ?thesis using True False i by (cases es) (simp_all add: push_event_def i_def [symmetric])
  qed
next
  case False
  then show ?thesis by (auto simp: push_event_def Let_def)
qed

section \<open>The worker on one key\<close>

fun worker_run :: "mongo \<Rightarrow> storeRequest list \<Rightarrow> collection \<Rightarrow> gopanic + collection \<times> string list list" where
  "worker_run db [] c = Inr (c, [])"
| "worker_run db (q # qs) c =
     bind_sum (worker_step db q c) (\<lambda>(c, es). bind_sum (worker_run db qs c) (\<lambda>(c, ess). Inr (c, es # ess)))"

definition mongo_works :: "mongo \<Rightarrow> bool" where
  "mongo_works db \<longleftrightarrow> (\<forall>k. \<not> FindFails db k \<and> \<not> InsertFails db k \<and> \<not> UpsertFails db k)"

definition history_of :: "string \<Rightarrow> collection \<Rightarrow> string list" where
  "history_of k c = (case map_of c k of None \<Rightarrow> [] | Some es \<Rightarrow> es)"

text \<open>The newest \<open>h\<close> events of a key after requests with history \<open>h\<close>.\<close>

definition newest :: "nat \<Rightarrow> string list \<Rightarrow> string list \<Rightarrow> string list" where
  "newest h events old = take h (rev events @ old)"

lemma worker_step_key:
  assumes "mongo_works db" and "1 \<le> rq_history q"
  obtains c' where "worker_step db q c = Inr (c', take (nat (rq_history q)) (rq_event q # history_of (rq_key q) c))"
    and "map_of c' = (map_of c)(rq_key q \<mapsto> take (nat (rq_history q)) (rq_event q # history_of (rq_key q) c))"
proof (cases "map_of c (rq_key q)")
  case None
  have "take (nat (rq_history q)) [rq_event q] = [rq_event q]" using assms(2) by (cases "nat (rq_history q)") simp_all
  then show thesis using assms(1) None that by (simp add: worker_step_def mongo_works_def history_of_def)
next
  case (Some es)
  then show thesis using assms that by (simp add: worker_step_def mongo_works_def history_of_def push_event_eq)
qed

lemma take_take_newest: "take h (e # take h es) = take h (e # es)"
  by (cases h) (simp_all add: min_def)

lemma worker_run_newest:
  assumes db: "mongo_works db" and h: "1 \<le> h"
  shows "\<forall>q\<in>set qs. rq_key q = k \<and> rq_history q = int h \<Longrightarrow>
    \<exists>c'. worker_run db qs c = Inr (c', map (\<lambda>i. newest h (take (Suc i) (map rq_event qs)) (history_of k c)) [0..<length qs]) \<and>
      (qs \<noteq> [] \<longrightarrow> history_of k c' = newest h (map rq_event qs) (history_of k c)) \<and>
      (\<forall>k'. k' \<noteq> k \<longrightarrow> map_of c' k' = map_of c k')"
proof (induction qs arbitrary: c)
  case (Cons q qs)
  have q: "rq_key q = k" "rq_history q = int h" using Cons.prems by simp_all
  obtain c1 where c1: "worker_step db q c = Inr (c1, take h (rq_event q # history_of k c))"
      "map_of c1 = (map_of c)(k \<mapsto> take h (rq_event q # history_of k c))"
    by (rule worker_step_key [OF db, of q c]) (use q h in simp_all)
  have old: "history_of k c1 = take h (rq_event q # history_of k c)" by (simp add: history_of_def c1(2))
  have new: "newest h es (history_of k c1) = newest h (rq_event q # es) (history_of k c)" for es
    by (simp add: newest_def old take_Cons' min_def)
  obtain c' where c': "worker_run db qs c1 = Inr (c', map (\<lambda>i. newest h (take (Suc i) (map rq_event qs)) (history_of k c1)) [0..<length qs])"
      "qs \<noteq> [] \<longrightarrow> history_of k c' = newest h (map rq_event qs) (history_of k c1)" "\<forall>k'. k' \<noteq> k \<longrightarrow> map_of c' k' = map_of c1 k'"
    using Cons by (metis list.set_intros(2))
  have "worker_run db (q # qs) c = Inr (c', newest h [rq_event q] (history_of k c) #
      map (\<lambda>i. newest h (rq_event q # take (Suc i) (map rq_event qs)) (history_of k c)) [0..<length qs])"
    using c1(1) c'(1) by (simp add: new) (simp add: newest_def)
  also have "\<dots> = Inr (c', map (\<lambda>i. newest h (take (Suc i) (map rq_event (q # qs))) (history_of k c)) [0..<length (q # qs)])"
    by (simp add: upt_conv_Cons map_Suc_upt [symmetric] comp_def del: upt_Suc)
  finally have run: "worker_run db (q # qs) c = \<dots>" .
  have "history_of k c' = newest h (map rq_event (q # qs)) (history_of k c)"
  proof (cases "qs = []")
    case True
    then show ?thesis using c'(1) old by (simp add: newest_def)
  next
    case False
    then show ?thesis using c'(2) new by simp
  qed
  then show ?case using run c'(3) c1(2) by (intro exI [of _ c']) simp
qed simp

section \<open>Replies\<close>

text \<open>A reply to a request for a history of at least one event begins with the request's own event.\<close>

definition own_history :: "storeRequest \<Rightarrow> string list \<Rightarrow> bool" where
  "own_history q es \<longleftrightarrow> (1 \<le> rq_history q \<longrightarrow> (\<exists>old. es = take (nat (rq_history q)) (rq_event q # old)))"

fun request_of :: "push_state \<Rightarrow> storeRequest" where
  "request_of (Offering q) = q"
| "request_of (Accepted q) = q"
| "request_of (Reading q) = q"
| "request_of (Returned q res) = q"

text \<open>The task of a request that the worker has taken.\<close>

definition taken :: "storeRequest \<Rightarrow> store_run \<Rightarrow> bool" where
  "taken q r \<longleftrightarrow> map_of (sr_tasks r) (rq_id q) \<in> {Some (Accepted q), Some (Reading q), Some (Returned q (Inl ReadDeadline))}"

definition store_ok :: "store_run \<Rightarrow> bool" where
  "store_ok r \<longleftrightarrow>
     (\<forall>q es. sr_worker r = Busy q es \<longrightarrow> own_history q es \<and> taken q r) \<and>
     (\<forall>i s. map_of (sr_tasks r) i = Some s \<longrightarrow> rq_id (request_of s) = i) \<and>
     (\<forall>i q es. map_of (sr_tasks r) i = Some (Returned q (Inr es)) \<longrightarrow> own_history q es)"

definition reply_lost :: "storeRequest \<Rightarrow> store_run \<Rightarrow> bool" where
  "reply_lost q r \<longleftrightarrow> taken q r \<and> (\<forall>es. sr_worker r \<noteq> Busy q es)"

lemmas task_defs = worker_takes_def Push_reads_def worker_replies_def deadline_passes_def Push_begin_def

lemma worker_step_own: "worker_step db q c = Inr (c', es) \<Longrightarrow> own_history q es"
proof (cases "if FindFails db (rq_key q) then None else map_of c (rq_key q)")
  case None
  assume "worker_step db q c = Inr (c', es)"
  then have "es = [rq_event q]" using None by (simp add: worker_step_def)
  then have "es = take (nat (rq_history q)) (rq_event q # [])" if "1 \<le> rq_history q"
    using that by (cases "nat (rq_history q)") simp_all
  then show ?thesis unfolding own_history_def by blast
next
  case (Some old)
  assume "worker_step db q c = Inr (c', es)"
  then have "push_event (rq_history q) (rq_event q) old = Inr es"
    using Some by (auto simp: worker_step_def bind_sum_Inr_iff)
  then show ?thesis by (auto simp: own_history_def push_event_eq)
qed

lemma takes_cases:
  assumes "worker_takes db i r = Some r'"
  obtains (died) q panic where "map_of (sr_tasks r) i = Some (Offering q)" "sr_worker r = Idle"
      "r' = r\<lparr>sr_tasks := AList.update i (Accepted q) (sr_tasks r), sr_worker := Dead panic\<rparr>"
  | (busy) q c es where "map_of (sr_tasks r) i = Some (Offering q)" "sr_worker r = Idle" "own_history q es"
      "r' = r\<lparr>sr_db := c, sr_tasks := AList.update i (Accepted q) (sr_tasks r), sr_worker := Busy q es\<rparr>"
proof -
  obtain q where q: "map_of (sr_tasks r) i = Some (Offering q)" "sr_worker r = Idle"
    using assms by (auto simp: worker_takes_def split: option.splits push_state.splits worker_state.splits)
  show thesis
  proof (cases "worker_step db q (sr_db r)")
    case (Inl panic)
    then show thesis using assms q by (intro died [of q panic]) (simp_all add: worker_takes_def)
  next
    case (Inr res)
    obtain c es where "res = (c, es)" by (cases res)
    then show thesis using assms q Inr worker_step_own [of db q "sr_db r" c es]
      by (intro busy [of q es c]) (simp_all add: worker_takes_def)
  qed
qed

lemma replies_cases:
  assumes "worker_replies r = Some r'"
  obtains (read) q es query where "sr_worker r = Busy q es" "map_of (sr_tasks r) (rq_id q) = Some (Reading query)"
      "r' = r\<lparr>sr_tasks := AList.update (rq_id q) (Returned query (Inr es)) (sr_tasks r), sr_worker := Idle\<rparr>"
  | (dropped) q es where "sr_worker r = Busy q es" "\<forall>query. map_of (sr_tasks r) (rq_id q) \<noteq> Some (Reading query)"
      "r' = r\<lparr>sr_worker := Idle\<rparr>"
  using assms by (auto simp: worker_replies_def split: option.splits push_state.splits worker_state.splits)

text \<open>The steps of a task change its own entry to a later state of the same request.\<close>

lemma task_steps:
  "Push_reads i r = Some r' \<Longrightarrow> \<exists>q. map_of (sr_tasks r) i = Some (Accepted q) \<and>
    r' = r\<lparr>sr_tasks := AList.update i (Reading q) (sr_tasks r)\<rparr>"
  "deadline_passes i r = Some r' \<Longrightarrow> \<exists>q e. r' = r\<lparr>sr_tasks := AList.update i (Returned q (Inl e)) (sr_tasks r)\<rparr> \<and>
    (map_of (sr_tasks r) i = Some (Offering q) \<or> map_of (sr_tasks r) i = Some (Reading q) \<and> e = ReadDeadline)"
  by (auto simp: Push_reads_def deadline_passes_def split: option.splits push_state.splits)

lemma task_request: "store_ok r \<Longrightarrow> map_of (sr_tasks r) i = Some s \<Longrightarrow> rq_id (request_of s) = i"
  by (simp add: store_ok_def)

lemma store_step_ok:
  assumes "store_step st db r r'" and ok: "store_ok r"
  shows "store_ok r'"
  using assms(1)
proof cases
  case (push i key event history)
  have "i \<noteq> rq_id q" if "sr_worker r = Busy q es" for q es
    using ok that push(2) by (auto simp: store_ok_def taken_def)
  then show ?thesis using ok push(1) by (auto simp: store_ok_def taken_def Push_begin_def Let_def)
next
  case (takes i)
  then show ?thesis
  proof (cases rule: takes_cases)
    case (died q panic)
    then show ?thesis using ok task_request [OF ok died(1)] by (auto simp: store_ok_def)
  next
    case (busy q c es)
    then show ?thesis using ok task_request [OF ok busy(1)] by (auto simp: store_ok_def taken_def)
  qed
next
  case (reads i)
  obtain q where q: "map_of (sr_tasks r) i = Some (Accepted q)" "r' = r\<lparr>sr_tasks := AList.update i (Reading q) (sr_tasks r)\<rparr>"
    using task_steps(1) [OF reads] by blast
  then show ?thesis using ok q task_request [OF ok q(1)] by (auto simp: store_ok_def taken_def)
next
  case replies
  then show ?thesis
  proof (cases rule: replies_cases)
    case (read q es query)
    then have "query = q" "own_history q es" using ok by (auto simp: store_ok_def taken_def)
    then show ?thesis using ok read by (auto simp: store_ok_def)
  next
    case (dropped q es)
    then show ?thesis using ok by (auto simp: store_ok_def)
  qed
next
  case (deadline i)
  obtain q e where q: "r' = r\<lparr>sr_tasks := AList.update i (Returned q (Inl e)) (sr_tasks r)\<rparr>"
      "map_of (sr_tasks r) i = Some (Offering q) \<or> map_of (sr_tasks r) i = Some (Reading q) \<and> e = ReadDeadline"
    using task_steps(2) [OF deadline] by blast
  then have i: "rq_id q = i" using task_request [OF ok] by fastforce
  have r': "sr_worker r' = sr_worker r" "map_of (sr_tasks r') = (map_of (sr_tasks r))(i \<mapsto> Returned q (Inl e))"
    by (simp_all add: q(1))
  have "taken q' r'" if "taken q' r" for q'
    using that q(2) unfolding taken_def r'(2) by (cases "rq_id q' = i") auto
  then show ?thesis using ok unfolding store_ok_def r' by (simp add: i)
qed

lemma reply_stays_lost:
  assumes "store_step st db r r'" and ok: "store_ok r" and lost: "reply_lost q r"
  shows "reply_lost q r'"
  using assms(1)
proof cases
  case (push i key event history)
  then show ?thesis using lost by (auto simp: reply_lost_def taken_def Push_begin_def Let_def)
next
  case (takes i)
  then show ?thesis
  proof (cases rule: takes_cases)
    case (died q' panic)
    then show ?thesis using lost by (auto simp: reply_lost_def taken_def)
  next
    case (busy q' c es)
    have "rq_id q' = i" using task_request [OF ok busy(1)] by simp
    then show ?thesis using lost busy by (auto simp: reply_lost_def taken_def)
  qed
next
  case (reads i)
  then obtain q' where "map_of (sr_tasks r) i = Some (Accepted q')" "r' = r\<lparr>sr_tasks := AList.update i (Reading q') (sr_tasks r)\<rparr>"
    using task_steps(1) by blast
  then show ?thesis using lost by (auto simp: reply_lost_def taken_def)
next
  case replies
  then show ?thesis
  proof (cases rule: replies_cases)
    case (read q' es query)
    have "q' \<noteq> q" using lost read(1) by (auto simp: reply_lost_def)
    moreover have "query = q'" using ok read by (auto simp: store_ok_def taken_def)
    ultimately show ?thesis using lost read by (auto simp: reply_lost_def taken_def)
  next
    case (dropped q' es)
    then show ?thesis using lost by (auto simp: reply_lost_def taken_def)
  qed
next
  case (deadline i)
  then obtain q' e where "map_of (sr_tasks r) i = Some (Offering q') \<or> map_of (sr_tasks r) i = Some (Reading q') \<and> e = ReadDeadline"
      "r' = r\<lparr>sr_tasks := AList.update i (Returned q' (Inl e)) (sr_tasks r)\<rparr>"
    using task_steps(2) by blast
  then show ?thesis using lost by (auto simp: reply_lost_def taken_def)
qed

interpretation ok_steps: guarded_steps "store_step st db" store_ok
  by unfold_locales (rule store_step_ok)

lemmas store_steps_ok = ok_steps.steps_inv

lemma store_start_ok: "store_ok (store_start c)"
  by (simp add: store_ok_def store_start_def)

interpretation lost_steps: guarded_steps "store_step st db" "\<lambda>r. store_ok r \<and> reply_lost q r"
  by unfold_locales (auto intro: store_step_ok reply_stays_lost)

lemma store_steps_lost: "store_steps st db r r' \<Longrightarrow> store_ok r \<Longrightarrow> reply_lost q r \<Longrightarrow> reply_lost q r'"
  using lost_steps.steps_inv by blast

section \<open>Properties\<close>

text \<open>
  C37. With a mongo that works, requests for a history of \<open>h\<close> events of a key leave its newest \<open>h\<close> events,
  each request is answered with the newest \<open>h\<close> up to its own, and no other key changes.
\<close>

theorem store_keeps_newest:
  assumes "mongo_works db" and "1 \<le> h" and "\<forall>q\<in>set qs. rq_key q = k \<and> rq_history q = int h" and "qs \<noteq> []"
  shows "\<exists>c'. worker_run db qs c =
      Inr (c', map (\<lambda>i. newest h (take (Suc i) (map rq_event qs)) (history_of k c)) [0..<length qs]) \<and>
    map_of c' = (map_of c)(k \<mapsto> newest h (map rq_event qs) (history_of k c))"
proof -
  obtain c' where c': "worker_run db qs c = Inr (c', map (\<lambda>i. newest h (take (Suc i) (map rq_event qs)) (history_of k c)) [0..<length qs])"
      "history_of k c' = newest h (map rq_event qs) (history_of k c)" "\<forall>k'. k' \<noteq> k \<longrightarrow> map_of c' k' = map_of c k'"
    using worker_run_newest [OF assms(1-3), of c] assms(4) by blast
  have "newest h (map rq_event qs) (history_of k c) \<noteq> []" using assms(2,4) by (simp add: newest_def)
  then have "map_of c' k = Some (newest h (map rq_event qs) (history_of k c))"
    using c'(2) by (auto simp: history_of_def split: option.splits)
  then have "map_of c' = (map_of c)(k \<mapsto> newest h (map rq_event qs) (history_of k c))" using c'(3) by auto
  then show ?thesis using c'(1) by blast
qed

definition working_mongo :: mongo where
  "working_mongo = \<lparr>FindFails = \<lambda>k. False, InsertFails = \<lambda>k. False, UpsertFails = \<lambda>k. False\<rparr>"

definition request :: "string \<Rightarrow> int \<Rightarrow> nat \<Rightarrow> storeRequest" where
  "request event history i = \<lparr>rq_key = ''k'', rq_event = event, rq_history = history, rq_id = i\<rparr>"

theorem store_keeps_newest_witness:
  "\<exists>c'. worker_run working_mongo [request ''a'' 2 0, request ''b'' 2 1, request ''c'' 2 2] [(''j'', [''x''])] =
      Inr (c', [[''a''], [''b'', ''a''], [''c'', ''b'']]) \<and> map_of c' ''k'' = Some [''c'', ''b''] \<and> map_of c' ''j'' = Some [''x'']"
proof -
  let ?qs = "[request ''a'' 2 0, request ''b'' 2 1, request ''c'' 2 2]"
  have "mongo_works working_mongo" by (simp add: mongo_works_def working_mongo_def)
  then obtain c' where c': "worker_run working_mongo ?qs [(''j'', [''x''])] =
      Inr (c', map (\<lambda>i. newest 2 (take (Suc i) (map rq_event ?qs)) (history_of ''k'' [(''j'', [''x''])])) [0..<length ?qs])"
      "map_of c' = (map_of [(''j'', [''x''])])(''k'' \<mapsto> newest 2 (map rq_event ?qs) (history_of ''k'' [(''j'', [''x''])]))"
    using store_keeps_newest [of working_mongo 2 ?qs "''k''" "[(''j'', [''x''])]"] by (auto simp: request_def)
  have "map (\<lambda>i. newest 2 (take (Suc i) (map rq_event ?qs)) (history_of ''k'' [(''j'', [''x''])])) [0..<length ?qs] =
      [[''a''], [''b'', ''a''], [''c'', ''b'']]"
    "newest 2 (map rq_event ?qs) (history_of ''k'' [(''j'', [''x''])]) = [''c'', ''b'']" by code_simp+
  then show ?thesis using c' by (intro exI [of _ c']) simp
qed

text \<open>
  C38. However tasks and the worker interleave, a task that gets a history of at least one event gets one
  that begins with its own event; but when the worker replies before the task has come to its second
  \<open>select\<close>, the reply is lost and the task can only run into its deadline.
\<close>

theorem store_replies:
  assumes "store_steps st db (store_start c) r"
  shows "(\<forall>i q es. map_of (sr_tasks r) i = Some (Returned q (Inr es)) \<and> 1 \<le> rq_history q \<longrightarrow>
      rq_id q = i \<and> (\<exists>old. es = take (nat (rq_history q)) (rq_event q # old))) \<and>
    (\<forall>q es r' r''. sr_worker r = Busy q es \<and> map_of (sr_tasks r) (rq_id q) = Some (Accepted q) \<and>
      worker_replies r = Some r' \<and> store_steps st db r' r'' \<longrightarrow>
      map_of (sr_tasks r'') (rq_id q) \<in> {Some (Accepted q), Some (Reading q), Some (Returned q (Inl ReadDeadline))})"
proof -
  have ok: "store_ok r" using store_steps_ok [OF assms store_start_ok] .
  have "map_of (sr_tasks r'') (rq_id q) \<in> {Some (Accepted q), Some (Reading q), Some (Returned q (Inl ReadDeadline))}"
    if busy: "sr_worker r = Busy q es" and acc: "map_of (sr_tasks r) (rq_id q) = Some (Accepted q)"
      and reply: "worker_replies r = Some r'" and steps: "store_steps st db r' r''" for q es r' r''
  proof -
    have "reply_lost q r'" using busy acc reply by (auto simp: worker_replies_def reply_lost_def taken_def)
    moreover have "store_ok r'" using store_step_ok [OF store_step.replies [OF reply] ok] .
    ultimately have "reply_lost q r''" using store_steps_lost [OF steps] by blast
    then show ?thesis by (simp add: reply_lost_def taken_def)
  qed
  moreover have "rq_id q = i \<and> (\<exists>old. es = take (nat (rq_history q)) (rq_event q # old))"
    if "map_of (sr_tasks r) i = Some (Returned q (Inr es))" "1 \<le> rq_history q" for i q es
    using ok that task_request [OF ok that(1)] by (auto simp: store_ok_def own_history_def)
  ultimately show ?thesis by blast
qed

text \<open>The worker is done with the request before the task waits for the reply.\<close>

definition hasty_run :: store_run where
  "hasty_run = the (worker_takes working_mongo 0 (Push_begin \<lparr>ps_session = True, ps_config = \<lparr>es_Cluster = ''m'', es_Fetcher = None,
     es_Database = [], es_AuthDB = [], es_User = [], es_Password = []\<rparr>\<rparr> 0 ''k'' ''a'' 2 (store_start [])))"

theorem store_replies_witness:
  "\<exists>r'. worker_replies hasty_run = Some r' \<and> sr_worker r' = Idle \<and>
    map_of (sr_tasks r') 0 \<noteq> Some (Returned (request ''a'' 2 0) (Inr [''a'']))"
proof -
  define st where "st = \<lparr>ps_session = True, ps_config = \<lparr>es_Cluster = ''m'', es_Fetcher = None,
     es_Database = [], es_AuthDB = [], es_User = [], es_Password = []\<rparr>\<rparr>"
  define r0 where "r0 = Push_begin st 0 ''k'' ''a'' 2 (store_start [])"
  have "worker_takes working_mongo 0 r0 \<noteq> None" unfolding r0_def st_def by code_simp
  then have takes: "worker_takes working_mongo 0 r0 = Some hasty_run" unfolding hasty_run_def r0_def st_def by auto
  have "store_steps st working_mongo (store_start []) r0"
    unfolding r0_def by (rule r_into_rtranclp [of "store_step st working_mongo", OF store_step.push]) (simp add: store_start_def)
  then have steps: "store_steps st working_mongo (store_start []) hasty_run"
    by (rule rtranclp.rtrancl_into_rtrancl) (rule store_step.takes [OF takes])
  have busy: "sr_worker hasty_run = Busy (request ''a'' 2 0) [''a'']" "rq_id (request ''a'' 2 0) = 0"
      "map_of (sr_tasks hasty_run) 0 = Some (Accepted (request ''a'' 2 0))" by code_simp+
  then obtain r' where r': "worker_replies hasty_run = Some r'" "sr_worker r' = Idle"
    by (simp add: worker_replies_def)
  have "map_of (sr_tasks r') 0 \<in> {Some (Accepted (request ''a'' 2 0)), Some (Reading (request ''a'' 2 0)),
      Some (Returned (request ''a'' 2 0) (Inl ReadDeadline))}"
    using store_replies [OF steps] busy r'(1) rtranclp.rtrancl_refl [of "store_step st working_mongo" r'] by metis
  then show ?thesis using r' by auto
qed

end
