(* ===== verification/JugglerPlugin.thy ===== *)
theory JugglerPlugin
  imports JugglerSend JugglerStore SenderData "HOL-Library.Signed_Division"
begin

text \<open>
  \<open>senders/juggler/plugins.go\<close> and \<open>plugins_tools.go\<close>: the values a Lua plugin is run with, what is made
  of its result, and the functions it may call. Running the plugin is an argument, and so are the
  floats and how Lua prints a number. A Lua table has an array part and a part with string keys.
\<close>

datatype 'f lvalue = LNil | LBool bool | LNumber 'f | LString string | LTable "'f lvalue list" "(string \<times> 'f lvalue) list"

section \<open>From Go to Lua\<close>

datatype lua_error = UnexpectedValue | LuaNotANumber

definition dumperToLuaNumber :: "'f float_ops \<Rightarrow> 'f rval \<Rightarrow> lua_error + 'f lvalue" where
  "dumperToLuaNumber ops value =
     (case value of
        RFloat f \<Rightarrow> Inr (LNumber f)
      | RInt i \<Rightarrow> Inr (LNumber (FloatOfInt ops i))
      | RUint n \<Rightarrow> Inr (LNumber (FloatOfInt ops (int n)))
      | RString s \<Rightarrow> (case ParseFloat ops s of None \<Rightarrow> Inl LuaNotANumber | Some num \<Rightarrow> Inr (LNumber num))
      | _ \<Rightarrow> Inl LuaNotANumber)"

definition dumperToLuaValue :: "'f float_ops \<Rightarrow> 'f rval \<Rightarrow> lua_error + 'f lvalue" where
  "dumperToLuaValue ops value =
     (case value of
        RFloat f \<Rightarrow> Inr (LNumber f)
      | RInt i \<Rightarrow> Inr (LNumber (FloatOfInt ops i))
      | RUint n \<Rightarrow> Inr (LNumber (FloatOfInt ops (int n)))
      | RString s \<Rightarrow> Inr (LString s)
      | RBool b \<Rightarrow> Inr (LBool b)
      | _ \<Rightarrow> Inl UnexpectedValue)"

text \<open>The entries of a map are in the order of \<open>MapKeys\<close>.\<close>

fun toLuaValue :: "('f rval \<Rightarrow> lua_error + 'f lvalue) \<Rightarrow> 'f rval \<Rightarrow> lua_error + 'f lvalue"
  and lua_elems :: "('f rval \<Rightarrow> lua_error + 'f lvalue) \<Rightarrow> 'f rval list \<Rightarrow> lua_error + 'f lvalue list"
  and lua_entries :: "('f rval \<Rightarrow> lua_error + 'f lvalue) \<Rightarrow> (string \<times> 'f rval) list \<Rightarrow> (string \<times> 'f lvalue) list \<Rightarrow>
    lua_error + (string \<times> 'f lvalue) list" where
  "toLuaValue dumper (RBytes s) = dumper (RString s)"
| "toLuaValue dumper (RSlice vs) = bind_sum (lua_elems dumper vs) (\<lambda>ls. Inr (LTable ls []))"
| "toLuaValue dumper (RMap kvs) = bind_sum (lua_entries dumper kvs []) (\<lambda>es. Inr (LTable [] es))"
| "toLuaValue dumper v = dumper v"
| "lua_elems dumper [] = Inr []"
| "lua_elems dumper (v # vs) = bind_sum (toLuaValue dumper v) (\<lambda>l. bind_sum (lua_elems dumper vs) (\<lambda>ls. Inr (l # ls)))"
| "lua_entries dumper [] t = Inr t"
| "lua_entries dumper ((key, item) # kvs) t =
     bind_sum (toLuaValue dumper item) (\<lambda>v. lua_entries dumper kvs (AList.update key v t))"

text \<open>A decoded YAML value as the value \<open>reflect\<close> sees; \<open>of_text\<close> reads the text of a float.\<close>

fun val_rval :: "(string \<Rightarrow> 'f) \<Rightarrow> val \<Rightarrow> 'f rval" where
  "val_rval of_text VNil = RNil"
| "val_rval of_text (VBool b) = RBool b"
| "val_rval of_text (VInt i) = RInt i"
| "val_rval of_text (VFloat s) = RFloat (of_text s)"
| "val_rval of_text (VString s) = RString s"
| "val_rval of_text (VBytes s) = RBytes s"
| "val_rval of_text (VList vs) = RSlice (map (val_rval of_text) vs)"
| "val_rval of_text (VMap kvs) = RMap (map (\<lambda>(k, v). (k, val_rval of_text v)) kvs)"

definition jPluginConfigToLuaTable :: "'f float_ops \<Rightarrow> (string \<Rightarrow> 'f) \<Rightarrow> PluginConfig \<Rightarrow> lua_error + 'f lvalue" where
  "jPluginConfigToLuaTable ops of_text config =
     bind_sum (lua_entries (dumperToLuaValue ops)
       (map (\<lambda>(k, v). (k, val_rval of_text v)) (case config of None \<Rightarrow> [] | Some m \<Rightarrow> m)) [])
       (\<lambda>es. Inr (LTable [] es))"

definition payload_table :: "'f float_ops \<Rightarrow> 'f Payload \<Rightarrow> lua_error + 'f lvalue" where
  "payload_table ops item =
     bind_sum (toLuaValue (dumperToLuaNumber ops) (p_Result item)) (\<lambda>result.
       Inr (LTable [] [(''Tags'', LTable [] (map (\<lambda>(k, v). (k, LString v)) (p_Tags item))), (''Result'', result)]))"

fun dataToLuaTable :: "'f float_ops \<Rightarrow> 'f Payload list \<Rightarrow> lua_error + 'f lvalue list" where
  "dataToLuaTable ops [] = Inr []"
| "dataToLuaTable ops (item # data) =
     bind_sum (payload_table ops item) (\<lambda>t. bind_sum (dataToLuaTable ops data) (\<lambda>ts. Inr (t # ts)))"

section \<open>The environment of a plugin\<close>

definition string_array :: "string list \<Rightarrow> 'f lvalue" where
  "string_array ss = LTable (map LString ss) []"

definition levels :: "JugglerConfig \<Rightarrow> (string, string list) gomap" where
  "levels js = concat (map (\<lambda>(name, cond). case cond of None \<Rightarrow> [] | Some c \<Rightarrow> [(name, c)])
     [(''OK'', jc_OK js), (''INFO'', jc_INFO js), (''WARN'', jc_WARN js), (''CRIT'', jc_CRIT js)])"

text \<open>Half of the time of the task, with the division of Go, which truncates.\<close>

definition store_deadline :: "'f SenderTask \<Rightarrow> int" where
  "store_deadline task = st_PrevTime task + (st_CurrTime task - st_PrevTime task) sdiv 2"

definition preparePluginEnv :: "'f float_ops \<Rightarrow> (string \<Rightarrow> 'f) \<Rightarrow> JugglerConfig \<Rightarrow> 'f SenderTask \<Rightarrow>
    lua_error + (string \<times> 'f lvalue) list" where
  "preparePluginEnv ops of_text js task =
     bind_sum (dataToLuaTable ops (st_Data task)) (\<lambda>payload.
     bind_sum (jPluginConfigToLuaTable ops of_text (jc_JPluginConfig js)) (\<lambda>config. Inr
       [(''payload'', LTable payload []),
        (''storeDeadline'', LNumber (FloatOfInt ops (store_deadline task))),
        (''checkName'', LString (jc_CheckName js)),
        (''checkDescription'', LString (jc_Description js)),
        (''checkTTL'', LNumber (FloatOfInt ops (jc_TTL js))),
        (''variables'', LTable [] (map (\<lambda>(k, v). (k, LString v)) (jc_Variables js))),
        (''conditions'', LTable [] (map (\<lambda>(name, cond). (name, string_array cond)) (levels js))),
        (''config'', config)]))"

section \<open>From Lua to events\<close>

text \<open>\<open>LVAsString\<close>: only strings and numbers have a text.\<close>

definition LVAsString :: "('f \<Rightarrow> string) \<Rightarrow> 'f lvalue \<Rightarrow> string" where
  "LVAsString show v = (case v of LString s \<Rightarrow> s | LNumber n \<Rightarrow> show n | _ \<Rightarrow> [])"

definition RawGetString :: "(string \<times> 'f lvalue) list \<Rightarrow> string \<Rightarrow> 'f lvalue" where
  "RawGetString h k = (case map_of h k of None \<Rightarrow> LNil | Some v \<Rightarrow> v)"

definition lua_tags :: "('f \<Rightarrow> string) \<Rightarrow> 'f lvalue list \<Rightarrow> (string \<times> 'f lvalue) list \<Rightarrow> (string, string) gomap" where
  "lua_tags show arr h =
     fold (\<lambda>(k, v) m. AList.update k (LVAsString show v) m)
       (zip (map (\<lambda>i. utoa (Suc i)) [0..<length arr]) arr @ h) []"

datatype event_error = NotATable | NoTags | MissingName | MissingType | EventSubgroup subgroup_error

definition lua_event :: "('f \<Rightarrow> string) \<Rightarrow> JugglerConfig \<Rightarrow> 'f lvalue \<Rightarrow> event_error + jugglerEvent" where
  "lua_event show js v =
     (case v of
        LTable larr lt \<Rightarrow>
          (case RawGetString lt ''tags'' of
             LTable arr h \<Rightarrow>
               let taskTags = lua_tags show arr h in
               if map_of taskTags ''name'' = None then Inl MissingName
               else if map_of taskTags ''type'' = None then Inl MissingType
               else (case GetSubgroupName taskTags of
                  Inl err \<Rightarrow> Inl (EventSubgroup err)
                | Inr subgroup \<Rightarrow>
                    let descr = LVAsString show (RawGetString lt ''description'');
                        descr = (if descr = [] then ''no trigger description'' else descr);
                        service = LVAsString show (RawGetString lt ''service'');
                        service = (if service = [] then ''UnknownServce'' else service);
                        (status, descr) = (case RawGetString lt ''level'' of
                            LNil \<Rightarrow> (''OK'', descr @ '' (force OK)'')
                          | lvl \<Rightarrow> (LVAsString show lvl, descr))
                    in Inr \<lparr>ev_taskTags = taskTags, ev_Host = jc_Host js @ ''-'' @ subgroup, ev_Service = service,
                         ev_Status = status, ev_Description = descr\<rparr>)
           | _ \<Rightarrow> Inl NoTags)
      | _ \<Rightarrow> Inl NotATable)"

datatype result_error = NilResult | BadEntries "event_error list"

text \<open>All entries are looked at; one error refuses the result.\<close>

fun lua_events :: "('f \<Rightarrow> string) \<Rightarrow> JugglerConfig \<Rightarrow> 'f lvalue list \<Rightarrow> event_error list \<times> jugglerEvent list" where
  "lua_events show js [] = ([], [])"
| "lua_events show js (v # vs) =
     (let (errs, events) = lua_events show js vs in
      case lua_event show js v of Inl err \<Rightarrow> (err # errs, events) | Inr je \<Rightarrow> (errs, je # events))"

definition luaResultToJugglerEvents :: "('f \<Rightarrow> string) \<Rightarrow> nat list \<Rightarrow> JugglerConfig \<Rightarrow> 'f lvalue \<Rightarrow>
    result_error + jugglerEvent list" where
  "luaResultToJugglerEvents show order js result =
     (case result of
        LTable arr h \<Rightarrow>
          (let (errs, events) = lua_events show js (arr @ shuffle order (map snd h))
           in if length errs > 0 then Inl (BadEntries errs) else Inr events)
      | _ \<Rightarrow> Inl NilResult)"

datatype 'e plugin_run_error = LoadError 'e | EnvError lua_error | RunError 'e | ResultError result_error

text \<open>\<open>DoFile\<close> gives its error; \<open>PreloadTools\<close> has none.\<close>

definition LoadPlugin :: "(string \<Rightarrow> 'e option) \<Rightarrow> string \<Rightarrow> string \<Rightarrow> 'e option" where
  "LoadPlugin doFile dir name = (let file = dir @ ''/'' @ name @ ''.lua'' in doFile file)"

text \<open>\<open>called\<close> is what the call of the plugin's function \<open>run\<close> gives.\<close>

definition runPlugin :: "('f \<Rightarrow> string) \<Rightarrow> nat list \<Rightarrow> JugglerConfig \<Rightarrow> 'e + 'f lvalue \<Rightarrow> 'e plugin_run_error + jugglerEvent list" where
  "runPlugin show order js called =
     (case called of
        Inl err \<Rightarrow> Inl (RunError err)
      | Inr result \<Rightarrow>
          (case luaResultToJugglerEvents show order js result of
             Inl err \<Rightarrow> Inl (ResultError err)
           | Inr events \<Rightarrow> Inr events))"

text \<open>The first part of \<open>Send\<close>, from loading the plugin to its events: \<open>run\<close> is the plugin's function of its globals.\<close>

definition plugin_events :: "'f float_ops \<Rightarrow> (string \<Rightarrow> 'f) \<Rightarrow> ('f \<Rightarrow> string) \<Rightarrow> (string \<Rightarrow> 'e option) \<Rightarrow>
    ((string \<times> 'f lvalue) list \<Rightarrow> 'e + 'f lvalue) \<Rightarrow> nat list \<Rightarrow> JugglerConfig \<Rightarrow> 'f SenderTask \<Rightarrow>
    'e plugin_run_error + jugglerEvent list" where
  "plugin_events ops of_text show doFile run order js task =
     (case LoadPlugin doFile (jc_PluginsDir js) (jc_Plugin js) of
        Some err \<Rightarrow> Inl (LoadError err)
      | None \<Rightarrow>
          (case preparePluginEnv ops of_text js task of
             Inl err \<Rightarrow> Inl (EnvError err)
           | Inr env \<Rightarrow> runPlugin show order js (run env)))"

section \<open>Functions of a plugin\<close>

definition lua_split :: "string \<Rightarrow> string \<Rightarrow> 'f lvalue" where
  "lua_split s sep = string_array (Split s sep)"

text \<open>\<open>strings.Replace(origin, pattern, repl, 1)\<close>; an empty pattern is found at the start.\<close>

definition lua_replace :: "string \<Rightarrow> string \<Rightarrow> string \<Rightarrow> string" where
  "lua_replace origin pat repl =
     (case Index origin pat of None \<Rightarrow> origin | Some i \<Rightarrow> take i origin @ repl @ drop (i + length pat) origin)"

text \<open>What a call of one of the functions of the module \<open>log\<close> gives to logrus: the level, the format and its arguments.\<close>

datatype log_level = Debugf | Infof | Warnf | Errorf

definition lua_log :: "string \<Rightarrow> string \<Rightarrow> string \<Rightarrow> 'f lvalue list \<Rightarrow> log_level \<times> string \<times> 'f lvalue list" where
  "lua_log taskId level fmtstr args =
     (if level = ''info'' then Infof else if level = ''warn'' then Warnf else if level = ''error'' then Errorf else Debugf,
      taskId @ '' '' @ fmtstr, args)"

definition logLoader :: "string \<Rightarrow> (string \<times> (string \<Rightarrow> 'f lvalue list \<Rightarrow> log_level \<times> string \<times> 'f lvalue list)) list" where
  "logLoader taskId = map (\<lambda>level. (level, lua_log taskId level)) [''debug'', ''info'', ''warn'', ''error'']"

text \<open>
  \<open>events_history\<close>: pushes the event until the global \<open>storeDeadline\<close>, or five seconds from \<open>now\<close>, and gives the
  history as a table, nil for an error and for an empty history. \<open>to_int\<close> is the conversion of a number to \<open>int64\<close>.
\<close>

definition events_history :: "(string \<Rightarrow> string \<Rightarrow> int \<Rightarrow> int \<Rightarrow> store_error + string list) \<Rightarrow> ('f \<Rightarrow> int) \<Rightarrow>
    (string \<times> 'f lvalue) list \<Rightarrow> int \<Rightarrow> string \<Rightarrow> string \<Rightarrow> int \<Rightarrow> 'f lvalue" where
  "events_history Push to_int globals now key event historyLen =
     (let deadline = (case RawGetString globals ''storeDeadline'' of
            LNumber t \<Rightarrow> to_int t * 1000000000
          | _ \<Rightarrow> now + 5 * 1000000000)
      in case Push key event historyLen deadline of
           Inl err \<Rightarrow> LNil
         | Inr events \<Rightarrow> if length events > 0 then string_array events else LNil)"

section \<open>Results\<close>

text \<open>The scalars of a value, in the order they are converted.\<close>

fun scalars :: "'f rval \<Rightarrow> 'f rval list" where
  "scalars (RBytes s) = [RString s]"
| "scalars (RSlice vs) = concat (map scalars vs)"
| "scalars (RMap kvs) = concat (map (\<lambda>kv. scalars (snd kv)) kvs)"
| "scalars v = [v]"

lemma isl_bind_sum: "isl (bind_sum r f) \<longleftrightarrow> isl r \<or> isl (f (projr r))"
  by (cases r) simp_all

lemma toLuaValue_isl:
  fixes dumper :: "'f rval \<Rightarrow> lua_error + 'f lvalue"
  shows "isl (toLuaValue dumper v) \<longleftrightarrow> (\<exists>s\<in>set (scalars v). isl (dumper s))"
    and "isl (lua_elems dumper vs) \<longleftrightarrow> (\<exists>v\<in>set vs. \<exists>s\<in>set (scalars v). isl (dumper s))"
    and "isl (lua_entries dumper kvs t) \<longleftrightarrow> (\<exists>kv\<in>set kvs. \<exists>s\<in>set (scalars (snd kv)). isl (dumper s))"
  by (induction dumper v and dumper vs and dumper kvs t rule: toLuaValue_lua_elems_lua_entries.induct)
    (simp_all add: isl_bind_sum bex_Un)

lemma dumperToLuaNumber_isl:
  "isl (dumperToLuaNumber ops v) \<longleftrightarrow>
     (case v of RFloat f \<Rightarrow> False | RInt i \<Rightarrow> False | RUint n \<Rightarrow> False | RString s \<Rightarrow> ParseFloat ops s = None | _ \<Rightarrow> True)"
  by (cases v) (auto simp: dumperToLuaNumber_def split: option.split)

lemma dataToLuaTable_isl:
  "isl (dataToLuaTable ops data) \<longleftrightarrow> (\<exists>p\<in>set data. \<exists>s\<in>set (scalars (p_Result p)). isl (dumperToLuaNumber ops s))"
  by (induction data) (simp_all add: isl_bind_sum payload_table_def toLuaValue_isl)

lemma preparePluginEnv_isl:
  "isl (preparePluginEnv ops of_text js task) \<longleftrightarrow>
     (\<exists>p\<in>set (st_Data task). \<exists>s\<in>set (scalars (p_Result p)). isl (dumperToLuaNumber ops s)) \<or>
     (\<exists>kv\<in>set (case jc_JPluginConfig js of None \<Rightarrow> [] | Some m \<Rightarrow> m).
        \<exists>s\<in>set (scalars (val_rval of_text (snd kv))). isl (dumperToLuaValue ops s))"
  by (simp add: preparePluginEnv_def jPluginConfigToLuaTable_def isl_bind_sum dataToLuaTable_isl toLuaValue_isl
      case_prod_beta image_image)

lemma lua_events_Inr:
  "lua_events show js vs = ([], events) \<longleftrightarrow> map (lua_event show js) vs = map Inr events"
proof (induction vs arbitrary: events)
  case (Cons v vs)
  obtain errs es where r: "lua_events show js vs = (errs, es)" by fastforce
  show ?case
  proof (cases "lua_event show js v")
    case (Inl err)
    then show ?thesis using r by (cases events) simp_all
  next
    case (Inr je)
    then show ?thesis using r Cons.IH [of "tl events"] by (cases events) auto
  qed
qed auto

lemma lua_events_errors: "fst (lua_events show js vs) = [] \<longleftrightarrow> (\<forall>v\<in>set vs. \<not> isl (lua_event show js v))"
  by (induction vs) (auto split: sum.splits prod.splits)

text \<open>What an event has that an entry was made into.\<close>

definition good_event :: "('f \<Rightarrow> string) \<Rightarrow> JugglerConfig \<Rightarrow> (string \<times> 'f lvalue) list \<Rightarrow> jugglerEvent \<Rightarrow> bool" where
  "good_event show js lt je \<longleftrightarrow>
     map_of (ev_taskTags je) ''name'' \<noteq> None \<and> map_of (ev_taskTags je) ''type'' \<noteq> None \<and>
     (\<exists>subgroup. GetSubgroupName (ev_taskTags je) = Inr subgroup \<and> ev_Host je = jc_Host js @ ''-'' @ subgroup) \<and>
     ev_Service je \<noteq> [] \<and> ev_Description je \<noteq> [] \<and>
     (if RawGetString lt ''level'' = LNil then ev_Status je = ''OK'' \<and> suffix '' (force OK)'' (ev_Description je)
      else ev_Status je = LVAsString show (RawGetString lt ''level''))"

lemma lua_event_good:
  assumes "lua_event show js v = Inr je"
  shows "\<exists>larr lt. v = LTable larr lt \<and> good_event show js lt je"
proof -
  obtain larr lt where v: "v = LTable larr lt" using assms by (cases v) (simp_all add: lua_event_def)
  obtain arr h where tags: "RawGetString lt ''tags'' = LTable arr h"
    using assms by (cases "RawGetString lt ''tags''") (simp_all add: lua_event_def v)
  let ?tags = "lua_tags show arr h"
  have n: "map_of ?tags ''name'' \<noteq> None" and t: "map_of ?tags ''type'' \<noteq> None"
    using assms by (auto simp: lua_event_def v tags Let_def split: if_splits)
  obtain sub where s: "GetSubgroupName ?tags = Inr sub"
    using assms n t by (cases "GetSubgroupName ?tags") (simp_all add: lua_event_def v tags Let_def)
  have "good_event show js lt je"
  proof (cases "RawGetString lt ''level'' = LNil")
    case True
    then show ?thesis using assms n t s
      by (auto simp: lua_event_def v tags Let_def good_event_def suffix_def split: if_splits)
  next
    case False
    let ?d = "LVAsString show (RawGetString lt ''description'')"
    let ?v = "LVAsString show (RawGetString lt ''service'')"
    have "je = \<lparr>ev_taskTags = ?tags, ev_Host = jc_Host js @ ''-'' @ sub, ev_Service = (if ?v = [] then ''UnknownServce'' else ?v),
        ev_Status = LVAsString show (RawGetString lt ''level''), ev_Description = (if ?d = [] then ''no trigger description'' else ?d)\<rparr>"
      using assms n t s False by (cases "RawGetString lt ''level''") (simp_all add: lua_event_def v tags Let_def)
    then show ?thesis using n t s False by (simp add: good_event_def)
  qed
  then show ?thesis using v by blast
qed

lemma luaResult_Inr:
  "luaResultToJugglerEvents show order js result = Inr events \<longleftrightarrow>
     (\<exists>arr h. result = LTable arr h \<and> map (lua_event show js) (arr @ shuffle order (map snd h)) = map Inr events)"
proof (cases result)
  case (LTable arr h)
  obtain errs es where r: "lua_events show js (arr @ shuffle order (map snd h)) = (errs, es)" by fastforce
  show ?thesis using LTable r lua_events_Inr [of "show" js "arr @ shuffle order (map snd h)" events]
    by (auto simp: luaResultToJugglerEvents_def)
qed (simp_all add: luaResultToJugglerEvents_def)

lemma preparePluginEnv_Inr:
  assumes "preparePluginEnv ops of_text js task = Inr env"
  shows "\<exists>payload. map_of env ''payload'' = Some (LTable payload []) \<and> dataToLuaTable ops (st_Data task) = Inr payload"
  using assms by (auto simp: preparePluginEnv_def bind_sum_Inr_iff)

lemma plugin_events_Inr:
  "plugin_events ops of_text show load run order js task = Inr events \<longleftrightarrow>
     load (jc_PluginsDir js @ ''/'' @ jc_Plugin js @ ''.lua'') = None \<and>
     (\<exists>env result. preparePluginEnv ops of_text js task = Inr env \<and> run env = Inr result \<and>
        luaResultToJugglerEvents show order js result = Inr events)"
  by (auto simp: plugin_events_def LoadPlugin_def runPlugin_def split: option.splits sum.splits)

lemma map_Inr_nth:
  "map f xs = map Inr ys \<Longrightarrow> length ys = length xs \<and> (\<forall>i<length xs. f (xs ! i) = Inr (ys ! i))"
  by (metis length_map nth_map)

text \<open>
  C36. When a task of the juggler sender gets events from its plugin, the plugin was loaded, every scalar of the
  results was a number and every scalar of the plugin's settings a Lua value, and the entries of the table
  the plugin returned became the events one by one: none is left out. Each event has the tags \<open>name\<close> and \<open>type\<close>, is for
  the host of the check and the subgroup of its tags, and has a service and a description; an entry without a level is forced to OK
  and says so in its description. Conversely, entries that all convert give their events.
\<close>

theorem plugin_gives_events:
  "(plugin_events ops of_text show load run order js task = Inr events) \<longleftrightarrow>
     load (jc_PluginsDir js @ ''/'' @ jc_Plugin js @ ''.lua'') = None \<and>
     (\<forall>p\<in>set (st_Data task). \<forall>s\<in>set (scalars (p_Result p)). \<not> isl (dumperToLuaNumber ops s)) \<and>
     (\<forall>kv\<in>set (case jc_JPluginConfig js of None \<Rightarrow> [] | Some m \<Rightarrow> m).
        \<forall>s\<in>set (scalars (val_rval of_text (snd kv))). \<not> isl (dumperToLuaValue ops s)) \<and>
     (\<exists>arr h. run (projr (preparePluginEnv ops of_text js task)) = Inr (LTable arr h) \<and>
        (let entries = arr @ shuffle order (map snd h) in
         length events = length entries \<and>
         (\<forall>i<length entries. \<exists>larr lt. entries ! i = LTable larr lt \<and>
            lua_event show js (entries ! i) = Inr (events ! i) \<and> good_event show js lt (events ! i))))"
  (is "?L \<longleftrightarrow> ?load \<and> ?data \<and> ?conf \<and> (\<exists>arr h. ?run arr h \<and> ?events arr h)")
proof -
  let ?env = "preparePluginEnv ops of_text js task"
  have env: "\<not> isl ?env \<longleftrightarrow> ?data \<and> ?conf" unfolding preparePluginEnv_isl by blast
  have ev: "map (lua_event show js) es = map Inr events \<longleftrightarrow>
      length events = length es \<and> (\<forall>i<length es. \<exists>larr lt. es ! i = LTable larr lt \<and>
        lua_event show js (es ! i) = Inr (events ! i) \<and> good_event show js lt (events ! i))" for es
  proof
    assume "map (lua_event show js) es = map Inr events"
    note e = map_Inr_nth [OF this]
    have "\<exists>larr lt. es ! i = LTable larr lt \<and> lua_event show js (es ! i) = Inr (events ! i) \<and> good_event show js lt (events ! i)"
      if i: "i < length es" for i using lua_event_good [of "show" js "es ! i" "events ! i"] e i by simp
    then show "length events = length es \<and> (\<forall>i<length es. \<exists>larr lt. es ! i = LTable larr lt \<and>
        lua_event show js (es ! i) = Inr (events ! i) \<and> good_event show js lt (events ! i))" using e by blast
  next
    assume r: "length events = length es \<and> (\<forall>i<length es. \<exists>larr lt. es ! i = LTable larr lt \<and>
        lua_event show js (es ! i) = Inr (events ! i) \<and> good_event show js lt (events ! i))"
    then have "lua_event show js (es ! i) = Inr (events ! i)" if "i < length es" for i using that by blast
    then show "map (lua_event show js) es = map Inr events" using r by (simp add: list_eq_iff_nth_eq)
  qed
  have "?L \<longleftrightarrow> ?load \<and> \<not> isl ?env \<and> (\<exists>arr h. ?run arr h \<and>
      map (lua_event show js) (arr @ shuffle order (map snd h)) = map Inr events)"
    unfolding plugin_events_Inr luaResult_Inr by (cases ?env) auto
  then show ?thesis unfolding env ev Let_def by blast
qed

definition sample_lua :: "int float_ops" where
  "sample_lua = \<lparr>FloatOfInt = (\<lambda>i. i), ParseFloat = (\<lambda>s. if s = ''7'' then Some 7 else None), FormatV = (\<lambda>v. []), FormatQ = (\<lambda>s. s)\<rparr>"

definition sample_entry :: "string \<Rightarrow> int lvalue" where
  "sample_entry service = LTable [] [(''tags'', LTable [] [(''name'', LString ''g''), (''type'', LString ''metahost''),
     (''aggregate'', LString ''a'')]), (''service'', LString service), (''level'', LString ''CRIT'')]"

definition sample_juggler_task :: "int SenderTask" where
  "sample_juggler_task = \<lparr>st_PrevTime = 0, st_CurrTime = 60, st_Data =
     [\<lparr>p_Tags = [(''name'', ''g''), (''type'', ''metahost'')], p_Result = RMap [(''rt'', RSlice [RInt 3, RString ''7''])]\<rparr>]\<rparr>"

definition sample_settings :: JugglerConfig where
  "sample_settings = zero_JugglerConfig\<lparr>jc_Host := ''h'', jc_JPluginConfig := Some [(''limit'', VInt 3)]\<rparr>"

definition sample_event :: "string \<Rightarrow> jugglerEvent" where
  "sample_event service = \<lparr>ev_taskTags = [(''name'', ''g''), (''type'', ''metahost''), (''aggregate'', ''a'')], ev_Host = ''h-g'',
     ev_Service = service, ev_Status = ''CRIT'', ev_Description = ''no trigger description''\<rparr>"

lemma sample_entry_event:
  assumes "service \<noteq> []"
  shows "\<exists>larr lt. sample_entry service = LTable larr lt \<and>
    lua_event (\<lambda>f. []) sample_settings (sample_entry service) = Inr (sample_event service) \<and>
    good_event (\<lambda>f. []) sample_settings lt (sample_event service)"
proof -
  have e: "lua_event (\<lambda>f. []) sample_settings (sample_entry service) = Inr (sample_event service)"
    using assms by (simp add: lua_event_def sample_entry_def sample_event_def sample_settings_def zero_JugglerConfig_def
      RawGetString_def LVAsString_def lua_tags_def GetSubgroupName_def)
  show ?thesis using e lua_event_good [OF e] by blast
qed

theorem plugin_gives_events_witness:
  "plugin_events sample_lua (\<lambda>s. 0) (\<lambda>f. []) (\<lambda>file. None)
     (\<lambda>env. Inr (LTable [sample_entry ''rps'', sample_entry ''rt''] [])) [] sample_settings sample_juggler_task =
   Inr [sample_event ''rps'', sample_event ''rt'']"
  unfolding plugin_gives_events
proof (intro conjI exI [where x = "[sample_entry ''rps'', sample_entry ''rt'']"] exI [where x = "[]"])
  show "\<forall>p\<in>set (st_Data sample_juggler_task). \<forall>s\<in>set (scalars (p_Result p)). \<not> isl (dumperToLuaNumber sample_lua s)"
    by code_simp
  show "\<forall>kv\<in>set (case jc_JPluginConfig sample_settings of None \<Rightarrow> [] | Some m \<Rightarrow> m).
      \<forall>s\<in>set (scalars (val_rval (\<lambda>s. 0) (snd kv))). \<not> isl (dumperToLuaValue sample_lua s)" by code_simp
qed (use sample_entry_event [of "''rps''"] sample_entry_event [of "''rt''"] in
  \<open>simp_all add: Let_def less_Suc_eq all_conj_distrib conj_disj_distribR\<close>)

end
