(* ===== verification/SenderMains.thy ===== *)
theory SenderMains
  imports Pipeline Solomon Graphite JugglerPlugin
begin

text \<open>
  The sender programs \<open>cmd/graphite\<close>, \<open>cmd/solomon\<close> and \<open>cmd/juggler\<close>: \<open>DoSend\<close> unpacks the settings and the
  data of a request from a worker, fills in the defaults, and sends. The codec (\<open>utils.Unpack\<close>), the
  environment and the files are arguments; a reply is an error or the response.
\<close>

section \<open>Requests\<close>

definition repack_request :: "(string \<Rightarrow> 'u + 'f rval) \<Rightarrow> SenderRequest \<Rightarrow> 'f SenderTask" where
  "repack_request unpack req =
     RepackSenderRequest unpack (sr_PrevTime req) (sr_CurrTime req) (map (\<lambda>d. (ar_Tags d, ar_Result d)) (sr_Data req))"

definition defaultFields :: "string list" where
  "defaultFields = [''75_prc'', ''90_prc'', ''93_prc'', ''94_prc'', ''95_prc'', ''96_prc'', ''97_prc'', ''98_prc'', ''99_prc'']"

section \<open>Graphite\<close>

definition defaultGraphiteEndpoint :: string where "defaultGraphiteEndpoint = '':42000''"

definition graphite_defaults :: "GraphiteConfig \<Rightarrow> GraphiteConfig" where
  "graphite_defaults cfg =
     (let cfg = (if length (gc_Fields cfg) = 0 then cfg\<lparr>gc_Fields := defaultFields\<rparr> else cfg)
      in if gc_Endpoint cfg = [] then cfg\<lparr>gc_Endpoint := defaultGraphiteEndpoint\<rparr> else cfg)"

datatype ('c, 'e) graphite_reply_error = GraphiteConfigError 'c | GraphiteSendError "'e graphite_send_result"

definition graphite_DoSend :: "(string \<Rightarrow> 'c + GraphiteConfig) \<Rightarrow> (string \<Rightarrow> 'u + 'f rval) \<Rightarrow> 'f float_ops \<Rightarrow> (nat \<Rightarrow> bool) \<Rightarrow>
    (nat \<Rightarrow> 'e + nat) \<Rightarrow> nat list \<Rightarrow> SenderRequest \<Rightarrow> 'e conn_error cacher \<Rightarrow>
    'e conn_error cacher \<times> string list \<times> (('c, 'e) graphite_reply_error + string)" where
  "graphite_DoSend unpackConf unpack ops fails dial order req connPool =
     (case unpackConf (sr_Config req) of
        Inl err \<Rightarrow> (connPool, [], Inl (GraphiteConfigError err))
      | Inr cfg \<Rightarrow>
          let task = repack_request unpack req;
              gCli = graphite_NewSender (graphite_defaults cfg);
              (connPool, lines, res) = graphite_Send ops fails dial order gCli (st_Data task) (st_PrevTime task) connPool
          in (connPool, lines, case res of Sent \<Rightarrow> Inr ''Ok'' | _ \<Rightarrow> Inl (GraphiteSendError res)))"

section \<open>Solomon\<close>

definition solomon_configPath :: string where "solomon_configPath = ''/etc/combaine/solomon-api.conf''"
definition sendTimeout :: int where "sendTimeout = 5000"

datatype 'e api_error = OpenError 'e | TokenTooLong

text \<open>The first line of the file; the scanner gives up on a line that does not fit its buffer.\<close>

definition getAPIURL :: "(string \<Rightarrow> string) \<Rightarrow> (string \<Rightarrow> 'e + string) \<Rightarrow> 'e api_error + string" where
  "getAPIURL Getenv readFile =
     (let path = Getenv ''config'';
          path = (if length path = 0 then solomon_configPath else path)
      in case readFile path of
           Inl err \<Rightarrow> Inl (OpenError err)
         | Inr content \<Rightarrow>
             let line = takeWhile (\<lambda>c. c \<noteq> CHR 0x0A) content in
             if content = [] then Inr []
             else if length line \<ge> 64 * 1024 then Inl TokenTooLong
             else Inr (TrimSpace line))"

definition solomon_defaults :: "(string \<Rightarrow> string) \<Rightarrow> (string \<Rightarrow> 'e + string) \<Rightarrow> Config \<Rightarrow> 'e api_error + Config" where
  "solomon_defaults Getenv readFile cfg =
     (let cfg = (if length (sc_Fields cfg) = 0 then cfg\<lparr>sc_Fields := defaultFields\<rparr> else cfg);
          cfg = (if sc_Timeout cfg = 0 then cfg\<lparr>sc_Timeout := sendTimeout\<rparr> else cfg)
      in if sc_API cfg = [] then bind_sum (getAPIURL Getenv readFile) (\<lambda>api. Inr (cfg\<lparr>sc_API := api\<rparr>)) else Inr cfg)"

datatype ('c, 'e) solomon_reply_error = SolomonConfigError 'c | NoAPI "'e api_error" | SolomonSendError "'e send_error"

text \<open>The jobs are queued for the workers; an answer of \<open>Ok\<close> says that they were.\<close>

definition solomon_DoSend :: "(string \<Rightarrow> 'c + Config) \<Rightarrow> (string \<Rightarrow> 'u + 'f rval) \<Rightarrow> 'f float_ops \<Rightarrow>
    ('f solomonPush \<Rightarrow> 'e + string) \<Rightarrow> (string \<Rightarrow> string) \<Rightarrow> (string \<Rightarrow> 'e + string) \<Rightarrow> SenderRequest \<Rightarrow>
    (Sender \<times> string) list \<times> (('c, 'e) solomon_reply_error + string)" where
  "solomon_DoSend unpackConf unpack ops marshal Getenv readFile req =
     (case unpackConf (sr_Config req) of
        Inl err \<Rightarrow> ([], Inl (SolomonConfigError err))
      | Inr cfg \<Rightarrow>
          let task = repack_request unpack req in
          case solomon_defaults Getenv readFile cfg of
            Inl err \<Rightarrow> ([], Inl (NoAPI err))
          | Inr cfg \<Rightarrow>
              let solCli = NewSender cfg;
                  (jobs, res) = solomon_Send ops marshal solCli (st_Data task) (st_PrevTime task)
              in (map (\<lambda>push. (solCli, push)) jobs, case res of Some err \<Rightarrow> Inl (SolomonSendError err) | None \<Rightarrow> Inr ''Ok''))"

section \<open>Juggler\<close>

text \<open>The libraries and services the juggler sender works with.\<close>

record ('f, 'e) juggler_world =
  jw_ops :: "'f float_ops"
  jw_text :: "string \<Rightarrow> 'f"
  jw_show :: "'f \<Rightarrow> string"
  jw_doFile :: "string \<Rightarrow> 'e option"
  jw_run :: "(string \<times> 'f lvalue) list \<Rightarrow> 'e + 'f lvalue"
  jw_json :: "'e json_lib"
  jw_checks :: "'e checks_api"
  jw_post :: "string \<Rightarrow> string \<Rightarrow> 'e http_outcome"
  jw_batch :: "'e batch_api"
  jw_plugin_order :: "nat list"
  jw_order :: "nat list"

datatype ('c, 'e) juggler_reply_error = JugglerUnpackError 'c | JugglerTaskError task_config_error
  | JugglerSendError "('e plugin_run_error, 'e) juggler_error"

text \<open>No settings in the request is the empty \<open>Config\<close>. The outer \<open>None\<close> is a batch loop that does not end.\<close>

definition juggler_DoSend :: "(string \<Rightarrow> 'c + JugglerConfig) \<Rightarrow> (string \<Rightarrow> 'u + 'f rval) \<Rightarrow> ('f, 'e) juggler_world \<Rightarrow>
    SenderConfig \<Rightarrow> SenderRequest \<Rightarrow> (gopanic + (('c, 'e) juggler_reply_error + string)) option" where
  "juggler_DoSend unpackConf unpack w conf req =
     (case (if sr_Config req \<noteq> [] then unpackConf (sr_Config req) else Inr zero_JugglerConfig) of
        Inl err \<Rightarrow> Some (Inr (Inl (JugglerUnpackError err)))
      | Inr cfg \<Rightarrow>
          (case UpdateTaskConfig conf cfg of
             (cfg, Some err) \<Rightarrow> Some (Inr (Inl (JugglerTaskError err)))
           | (cfg, None) \<Rightarrow>
               let task = repack_request unpack req;
                   plugin = plugin_events (jw_ops w) (jw_text w) (jw_show w) (jw_doFile w) (jw_run w) (jw_plugin_order w) cfg task
               in map_option (\<lambda>r. bind_sum r (\<lambda>res. Inr (case res of Some err \<Rightarrow> Inl (JugglerSendError err) | None \<Rightarrow> Inr ''Ok'')))
                    (juggler_Send (jw_json w) (jw_checks w) (jw_post w) (jw_batch w) (jw_order w) (sr_Id req) cfg plugin)))"

text \<open>The start of the program: the settings, the cache and the store; \<open>interval * 10\<close> wraps around.\<close>

definition InitializeCache :: "('v, 'e) TTLCache" where
  "InitializeCache = NewCache 60000000000 (60000000000 * 5) (60000000000 * 5)"

definition juggler_start :: "SenderConfig \<Rightarrow> bool \<Rightarrow> pluginEventsStore \<Rightarrow> ('v, 'e) TTLCache \<times> pluginEventsStore \<times> bool" where
  "juggler_start cfg connected st =
     (TuneCache (sint (sd_CacheTTL cfg)) (sint (sd_CacheCleanInterval cfg)) (sint (sd_CacheCleanInterval cfg * 10)) InitializeCache,
      InitEventsStore connected (sd_Store cfg) st)"

section \<open>Lemmas\<close>

lemma graphite_defaults_fields:
  "gc_Cluster (graphite_defaults cfg) = gc_Cluster cfg"
  "gc_Fields (graphite_defaults cfg) = (if gc_Fields cfg = [] then defaultFields else gc_Fields cfg)"
  "gc_Endpoint (graphite_defaults cfg) = (if gc_Endpoint cfg = [] then '':42000'' else gc_Endpoint cfg)"
  by (simp_all add: graphite_defaults_def Let_def defaultGraphiteEndpoint_def)

text \<open>The results of a worker all have a subgroup name.\<close>

lemma result_tags_subgroup:
  "GetSubgroupName (result_tags kind aggregate name meta) = Inr (if kind = ''datacenter'' then meta @ ''-'' @ name else name)"
  by (simp add: GetSubgroupName_def result_tags_def)

lemma repack_eq:
  "repack unpack ds = concat (map (\<lambda>(tags, result). case unpack result of Inl _ \<Rightarrow> [] | Inr v \<Rightarrow> [\<lparr>p_Tags = tags, p_Result = v\<rparr>]) ds)"
  by (induction unpack ds rule: repack.induct) (simp_all split: sum.split)

lemma repack_request_data:
  "st_Data (repack_request unpack req) =
    concat (map (\<lambda>d. case unpack (ar_Result d) of Inl _ \<Rightarrow> [] | Inr v \<Rightarrow> [\<lparr>p_Tags = ar_Tags d, p_Result = v\<rparr>]) (sr_Data req))"
  by (simp add: repack_request_def RepackSenderRequest_def repack_eq o_def)

lemma left_on_stack_none:
  "\<forall>i\<in>set data. \<not> isl (GetSubgroupName (p_Tags i)) \<Longrightarrow> left_on_stack data = []"
  by (simp add: left_on_stack_def filter_empty_conv)

lemma nth_map_concat: "concat (map (\<lambda>i. f (xs ! i)) [0..<length xs]) = concat (map f xs)"
proof -
  have "map (\<lambda>i. f (xs ! i)) [0..<length xs] = map f (map ((!) xs) [0..<length xs])" by simp
  then show ?thesis by (simp only: map_nth)
qed

lemma write_lines_all: "write_lines (\<lambda>n. False) ls \<lparr>Lines = [], Evicted = False\<rparr> = (\<lparr>Lines = ls, Evicted = False\<rparr>, None)"
proof -
  have "find (\<lambda>n. False) ns = None" for ns :: "nat list" by (simp add: find_None_iff)
  then show ?thesis by (simp add: write_lines_result)
qed

lemma concat_map_parts:
  assumes "\<And>d. d \<in> set ds \<Longrightarrow> concat (map f (parts d)) = g d"
  shows "concat (map f (concat (map parts ds))) = concat (map g ds)"
  using assms by (induction ds) simp_all

text \<open>
  A send over a new connection that does not fail, of data that all have a subgroup name: the connection stays in the pool, under the
  endpoint it was dialled for.
\<close>

definition one_connection :: "string \<Rightarrow> nat \<Rightarrow> 'e cacher" where
  "one_connection endpoint conn =
     NewCacher\<lparr>pc_cache := [(endpoint, 0)], pc_entries := [\<lparr>pe_service = Some conn, pe_err = None, pe_ready = True\<rparr>]\<rparr>"

lemma graphite_Send_new:
  assumes dial: "NewConn [IntArg 3, IntArg connectionTimeout] dial = (Some conn, None)"
    and fits: "\<forall>item\<in>set data. nil_free (p_Result item) \<and> leaves (g_fields g) [] (p_Result item) \<noteq> None"
    and names: "\<forall>item\<in>set data. \<not> isl (GetSubgroupName (p_Tags item))"
  shows "graphite_Send ops (\<lambda>n. False) dial order g data ts NewCacher =
    (if data = [] then NewCacher else one_connection (g_endpoint g) conn, concat (map (payload_lines ops g ts []) data), Sent)"
proof (cases "data = []")
  case False
  have get: "pool_Get (g_endpoint g) (NewConn [IntArg 3, IntArg connectionTimeout] dial) NewCacher =
      Some (Inr (one_connection (g_endpoint g) conn, Some conn, None))"
    by (simp add: pool_Get_def dial NewCacher_def Get_lookup_def Get_close_def Get_fetched_def Get_result_def one_connection_def)
  have stack: "left_on_stack (take i data) = []" for i
    using names by (intro left_on_stack_none) (auto dest: in_set_takeD)
  have "graphite_sendInternal ops (\<lambda>n. False) g data ts \<lparr>Lines = [], Evicted = False\<rparr> =
      (\<lparr>Lines = concat (map (payload_lines ops g ts []) data), Evicted = False\<rparr>, None)"
    unfolding graphite_sendInternal_def graphite_items_lines [OF fits]
    by (simp add: stack write_lines_all nth_map_concat)
  then show ?thesis using get False by (simp add: graphite_Send_def)
qed (simp add: graphite_Send_def)

text \<open>The lines of one result of a worker, for a cluster name and a list of fields.\<close>

definition result_lines :: "(string \<Rightarrow> 'u + 'f rval) \<Rightarrow> 'f float_ops \<Rightarrow> string \<Rightarrow> string list \<Rightarrow> int \<Rightarrow> AggregationResult \<Rightarrow> string list" where
  "result_lines unpack ops cluster names ts d =
     (case unpack (ar_Result d) of
        Inl err \<Rightarrow> []
      | Inr v \<Rightarrow> map (\<lambda>(path, x). makePoint cluster (projr (GetSubgroupName (ar_Tags d)))
          (lookup_zero [] (ar_Tags d) ''aggregate'' # path) (InterfaceToString ops x) ts)
          (the (leaves names [] v)))"

section \<open>Properties\<close>


definition sample_sending_env :: "string worker_env" where
  "sample_sending_env = sample_worker_env\<lparr>w_unpackAggregation :=
     \<lambda>b. \<lparr>ac_Data = [(''cpu'', sample_plugin ''Cpu'')], ac_Senders = [(''s'', Some [(''type'', VString ''graphite'')])]\<rparr>\<rparr>"

definition sample_sent :: "(nat \<times> SenderRequest) list" where
  "sample_sent = projr (DoAggregating sample_sending_env (\<lambda>r. Inr (concat (gr_Payload r))) [(''graphite'', 7)] [] (\<lambda>d. []) [] [] sample_agg_task)"


end
