(* ===== verification/Logging.thy ===== *)
theory Logging
  imports GoStrings "HOL-Library.List_Lexorder"
begin

text \<open>
  \<open>common/logger/\<close>: the lines of the log, the level flag, the log file with its rotation, and the logger of gRPC. The
  text of a time and of a value, the names of the levels (logrus) and the files are arguments.
\<close>

section \<open>Lines\<close>

datatype Level = PanicLevel | FatalLevel | ErrorLevel | WarnLevel | InfoLevel | DebugLevel | OtherLevel nat

definition getLevel :: "(Level \<Rightarrow> string) \<Rightarrow> Level \<Rightarrow> string" where
  "getLevel level_String lvl =
     (case lvl of
        DebugLevel \<Rightarrow> ''DEBUG''
      | InfoLevel \<Rightarrow> ''INFO''
      | WarnLevel \<Rightarrow> ''WARN''
      | ErrorLevel \<Rightarrow> ''ERROR''
      | FatalLevel \<Rightarrow> ''ERROR''
      | PanicLevel \<Rightarrow> ''PANIC''
      | OtherLevel n \<Rightarrow> level_String lvl)"

record 'v Entry =
  le_Time :: string
  le_Level :: Level
  le_Message :: string
  le_Data :: "(string, 'v) gomap"

text \<open>The loop over the sorted keys; \<open>i\<close> counts the fields still to come.\<close>

fun write_fields :: "(string \<Rightarrow> string) \<Rightarrow> string list \<Rightarrow> int \<Rightarrow> string \<Rightarrow> string" where
  "write_fields show_field [] i buf = buf"
| "write_fields show_field (k # keys) i buf =
     (let buf = buf @ show_field k;
          i = i - 1
      in write_fields show_field keys i (if i > 0 then buf @ '', '' else buf))"

definition show_field :: "('v \<Rightarrow> string) \<Rightarrow> (string, 'v) gomap \<Rightarrow> string \<Rightarrow> string" where
  "show_field text_of data k = k @ '': '' @ (case map_of data k of Some v \<Rightarrow> text_of v | None \<Rightarrow> [])"

definition tab :: string where "tab = [CHR 0x09]"

definition CombaineFormatter_Format :: "(Level \<Rightarrow> string) \<Rightarrow> ('v \<Rightarrow> string) \<Rightarrow> nat list \<Rightarrow> 'v Entry \<Rightarrow> string" where
  "CombaineFormatter_Format level_String text_of order entry =
     (let keys = sort (range_keys order (le_Data entry));
          buf = le_Time entry @ tab @ getLevel level_String (le_Level entry) @ tab @ le_Message entry @ tab @ ''[''
      in write_fields (show_field text_of (le_Data entry)) keys (int (length (le_Data entry))) buf @ '']'' @ [CHR 0x0A])"

lemma write_fields_Join:
  "i = int (length keys) \<Longrightarrow> write_fields f keys i buf = buf @ Join (map f keys) '', ''"
proof (induction keys arbitrary: i buf)
  case (Cons k keys)
  have "write_fields f keys (int (length keys)) b = b @ Join (map f keys) '', ''" for b
    by (rule Cons.IH) simp
  then show ?case using Cons.prems by (cases keys) (simp_all only: write_fields.simps Let_def, simp_all)
qed simp

lemma sort_range_keys: "sort (range_keys order m) = sort (map fst m)"
  by (rule properties_for_sort) (simp_all add: range_keys_def)

text \<open>A line is the same for every order of the map: its fields joined in the order of their names.\<close>

lemma log_line:
  "CombaineFormatter_Format level_String text_of order entry =
     le_Time entry @ tab @ getLevel level_String (le_Level entry) @ tab @ le_Message entry @ tab @
     ''['' @ Join (map (show_field text_of (le_Data entry)) (sort (map fst (le_Data entry)))) '', '' @ '']'' @ [CHR 0x0A]"
  by (simp add: CombaineFormatter_Format_def sort_range_keys write_fields_Join)

section \<open>The level flag\<close>

text \<open>\<open>LogrusLevelFlag\<close> is a level; \<open>ParseLevel\<close> of logrus is an argument.\<close>

definition LevelFlag_Set :: "(string \<Rightarrow> 'e + Level) \<Rightarrow> string \<Rightarrow> Level \<Rightarrow> Level \<times> 'e option" where
  "LevelFlag_Set ParseLevel v l =
     (case ParseLevel (ToLower v) of Inl err \<Rightarrow> (l, Some err) | Inr level \<Rightarrow> (level, None))"

section \<open>The log file\<close>

text \<open>The file the closure \<open>rotateFile\<close> holds, the files that are open, and where logrus writes.\<close>

record log_output =
  lo_file :: "nat option"
  lo_open :: "nat list"
  lo_next :: nat
  lo_output :: "nat option"

definition no_output :: log_output where
  "no_output = \<lparr>lo_file = None, lo_open = [], lo_next = 0, lo_output = None\<rparr>"

definition rotateFile :: "string \<Rightarrow> 'e option \<times> 'e option \<Rightarrow> log_output \<Rightarrow> log_output \<times> 'e option" where
  "rotateFile outputPath answers lo =
     (case answers of (opened, seek) \<Rightarrow>
        let lo = (case lo_file lo of None \<Rightarrow> lo | Some f \<Rightarrow> lo\<lparr>lo_open := remove1 f (lo_open lo)\<rparr>) in
        case opened of
          Some err \<Rightarrow> (lo, Some err)
        | None \<Rightarrow>
            let rawFile = lo_next lo;
                lo = lo\<lparr>lo_open := lo_open lo @ [rawFile], lo_next := Suc rawFile\<rparr>
            in case (if outputPath \<noteq> ''/dev/stderr'' \<and> outputPath \<noteq> ''/dev/stdout'' then seek else None) of
                 Some err \<Rightarrow> (lo, Some err)
               | None \<Rightarrow> (lo\<lparr>lo_file := Some rawFile, lo_output := Some rawFile\<rparr>, None))"

datatype 'e logger_run = Logging log_output | LogFatal 'e

text \<open>The first rotation is that of the start, the others are those of the signals \<open>SIGHUP\<close>.\<close>

fun rotations :: "string \<Rightarrow> ('e option \<times> 'e option) list \<Rightarrow> log_output \<Rightarrow> 'e logger_run" where
  "rotations outputPath [] lo = Logging lo"
| "rotations outputPath (a # hups) lo =
     (case rotateFile outputPath a lo of
        (lo, Some err) \<Rightarrow> LogFatal err
      | (lo, None) \<Rightarrow> rotations outputPath hups lo)"

definition InitializeLogger :: "string \<Rightarrow> 'e option \<times> 'e option \<Rightarrow> ('e option \<times> 'e option) list \<Rightarrow> 'e logger_run" where
  "InitializeLogger outputPath first hups = rotations outputPath (first # hups) no_output"

text \<open>While the program runs one file is open, the one it writes to.\<close>

definition one_file :: "log_output \<Rightarrow> bool" where
  "one_file lo \<longleftrightarrow> (\<exists>f. lo_file lo = Some f \<and> lo_output lo = Some f \<and> lo_open lo = [f])"

lemma rotateFile_one:
  "lo = no_output \<or> one_file lo \<Longrightarrow> rotateFile p a lo = (lo', None) \<Longrightarrow> one_file lo'"
  by (auto simp: rotateFile_def one_file_def no_output_def Let_def split: prod.splits option.splits if_splits)

lemma rotations_one:
  "one_file lo \<Longrightarrow> rotations p as lo = Logging lo' \<Longrightarrow> one_file lo'"
proof (induction as arbitrary: lo)
  case (Cons a as)
  obtain lo1 e where r: "rotateFile p a lo = (lo1, e)" by (metis surj_pair)
  then have "e = None" "rotations p as lo1 = Logging lo'" using Cons.prems(2) by (cases e; simp)+
  then show ?case using Cons.IH rotateFile_one [of lo p a lo1] Cons.prems(1) r by blast
qed simp

lemma logger_one_file: "InitializeLogger p first hups = Logging lo \<Longrightarrow> one_file lo"
proof -
  assume i: "InitializeLogger p first hups = Logging lo"
  obtain lo1 e where r: "rotateFile p first no_output = (lo1, e)" by (metis surj_pair)
  then have "e = None" "rotations p hups lo1 = Logging lo" using i by (cases e; simp add: InitializeLogger_def)+
  then show "one_file lo" using rotations_one rotateFile_one [of no_output p first lo1] r by blast
qed

section \<open>The logger of gRPC\<close>

datatype severity = infoLog | warningLog | errorLog | fatalLog

definition severityName :: "severity \<Rightarrow> string" where
  "severityName s = (case s of infoLog \<Rightarrow> ''grpc info:'' | warningLog \<Rightarrow> ''grpc warn:'' | errorLog \<Rightarrow> ''grpc error:'' | fatalLog \<Rightarrow> ''grpc fatal'')"

record loggerT =
  lt_prefix :: "severity \<Rightarrow> string"
  lt_v :: int

definition NewLoggerV2WithVerbosity :: "int \<Rightarrow> loggerT" where
  "NewLoggerV2WithVerbosity v = \<lparr>lt_prefix = severityName, lt_v = v\<rparr>"

text \<open>
  \<open>Print\<close>, \<open>Println\<close> and \<open>Printf\<close> of one severity: the line written, after the prefix and the time, and whether the process
  exits (\<open>log.Logger.Fatal\<close>). How the arguments become text is \<open>fmt\<close>'s, so the text is given.
\<close>

definition grpc_log :: "loggerT \<Rightarrow> severity \<Rightarrow> string \<Rightarrow> string \<Rightarrow> string \<times> bool" where
  "grpc_log g s now message = (lt_prefix g s @ now @ message, s = fatalLog)"

definition grpc_V :: "loggerT \<Rightarrow> int \<Rightarrow> bool" where
  "grpc_V g l \<longleftrightarrow> l \<le> lt_v g"

lemma programs_verbosity: "grpc_V (NewLoggerV2WithVerbosity 0) l \<longleftrightarrow> l \<le> 0"
  by (simp add: grpc_V_def NewLoggerV2WithVerbosity_def)

end
