(* ===== verification/Programs.thy ===== *)
theory Programs
  imports Server WorkerServices SenderMains Logging
begin

text \<open>
  The five programs of \<open>cmd/\<close> as wholes: their flags (the part of Go's \<open>flag\<close> package they use), their logger, and what \<open>main\<close>
  does up to the point where it serves. Listening, the parser of levels, and what the components need from outside are arguments.
\<close>

section \<open>Flags\<close>

datatype 'e flag_error = FlagHelp | BadFlagSyntax string | NotDefined string | NeedsArgument string
  | InvalidBool string | InvalidValue string 'e

datatype ('s, 'e) flag = BoolFlag "bool \<Rightarrow> 's \<Rightarrow> 's" | ValueFlag "string \<Rightarrow> 's \<Rightarrow> 'e + 's"

definition ParseBool :: "string \<Rightarrow> bool option" where
  "ParseBool s =
     (if s \<in> set [''1'', ''t'', ''T'', ''true'', ''TRUE'', ''True''] then Some True
      else if s \<in> set [''0'', ''f'', ''F'', ''false'', ''FALSE'', ''False''] then Some False
      else None)"

text \<open>A flag and the value behind its first \<open>=\<close>.\<close>

definition cut_value :: "string \<Rightarrow> string \<times> string option" where
  "cut_value name =
     (case IndexFunc name (\<lambda>c. c = CHR ''='') of None \<Rightarrow> (name, None) | Some i \<Rightarrow> (take i name, Some (drop (Suc i) name)))"

text \<open>\<open>flag.Parse\<close>: one flag after the other up to the first argument that is none; the rest is returned.\<close>

fun parse_flags :: "(string, ('s, 'e) flag) gomap \<Rightarrow> string list \<Rightarrow> 's \<Rightarrow> 'e flag_error + 's \<times> string list" where
  "parse_flags flags [] st = Inr (st, [])"
| "parse_flags flags (s # args) st =
     (if length s < 2 \<or> hd s \<noteq> CHR ''-'' then Inr (st, s # args)
      else if s = ''--'' then Inr (st, args)
      else
        let name = (if s ! 1 = CHR ''-'' then drop 2 s else drop 1 s) in
        if name = [] \<or> hd name = CHR ''-'' \<or> hd name = CHR ''='' then Inl (BadFlagSyntax s)
        else (case cut_value name of (name, val) \<Rightarrow>
          (case map_of flags name of
             None \<Rightarrow> Inl (if name = ''help'' \<or> name = ''h'' then FlagHelp else NotDefined name)
           | Some (BoolFlag set_bool) \<Rightarrow>
               (case val of
                  None \<Rightarrow> parse_flags flags args (set_bool True st)
                | Some v \<Rightarrow> (case ParseBool v of
                    None \<Rightarrow> Inl (InvalidBool v)
                  | Some b \<Rightarrow> parse_flags flags args (set_bool b st)))
           | Some (ValueFlag set_val) \<Rightarrow>
               (case val of
                  Some v \<Rightarrow> (case set_val v st of
                    Inl err \<Rightarrow> Inl (InvalidValue name err)
                  | Inr st \<Rightarrow> parse_flags flags args st)
                | None \<Rightarrow> (case args of
                    [] \<Rightarrow> Inl (NeedsArgument name)
                  | v # args \<Rightarrow> (case set_val v st of
                      Inl err \<Rightarrow> Inl (InvalidValue name err)
                    | Inr st \<Rightarrow> parse_flags flags args st))))))"

section \<open>The flags of the programs\<close>

record settings =
  fl_endpoint :: string
  fl_logoutput :: string
  fl_tracing :: bool
  fl_loglevel :: Level

record combainer_settings = settings +
  fl_configsPath :: string
  fl_active :: bool

definition StringVar :: "((string \<Rightarrow> string) \<Rightarrow> 's \<Rightarrow> 's) \<Rightarrow> ('s, 'e) flag" where
  "StringVar upd = ValueFlag (\<lambda>v s. Inr (upd (\<lambda>_. v) s))"

definition LevelVar :: "(string \<Rightarrow> 'e + Level) \<Rightarrow> ((Level \<Rightarrow> Level) \<Rightarrow> 's \<Rightarrow> 's) \<Rightarrow> ('s, 'e) flag" where
  "LevelVar ParseLevel upd =
     ValueFlag (\<lambda>v s. case LevelFlag_Set ParseLevel v InfoLevel of (l, Some err) \<Rightarrow> Inl err | (l, None) \<Rightarrow> Inr (upd (\<lambda>_. l) s))"

text \<open>
  \<open>init\<close>: the flags, the log file (\<open>opening\<close> says how opening a path and seeking to its end go), and the logger of gRPC. The level of
  logrus and \<open>grpc.EnableTracing\<close> are fields of the settings. The program ends here on flags it refuses and on a log file it cannot open.
\<close>

datatype ('e, 'f) init_error = FlagsRefused "'e flag_error" | LoggerFatal 'f

definition init_program :: "(string, (('b settings_scheme), 'e) flag) gomap \<Rightarrow> 'b settings_scheme \<Rightarrow>
    (string \<Rightarrow> 'f option \<times> 'f option) \<Rightarrow> string list \<Rightarrow> ('e, 'f) init_error + 'b settings_scheme \<times> log_output \<times> loggerT" where
  "init_program flags defaults opening args =
     (case parse_flags flags args defaults of
        Inl err \<Rightarrow> Inl (FlagsRefused err)
      | Inr (st, rest) \<Rightarrow>
          (case InitializeLogger (fl_logoutput st) (opening (fl_logoutput st)) [] of
             LogFatal err \<Rightarrow> Inl (LoggerFatal err)
           | Logging lo \<Rightarrow> Inr (st, lo, NewLoggerV2WithVerbosity 0)))"

text \<open>The worker and the three senders each declare their flags, with their defaults.\<close>

definition worker_init :: "(string \<Rightarrow> 'e + Level) \<Rightarrow> (string \<Rightarrow> 'f option \<times> 'f option) \<Rightarrow> string list \<Rightarrow>
    ('e, 'f) init_error + settings \<times> log_output \<times> loggerT" where
  "worker_init ParseLevel = init_program
     [(''endpoint'', StringVar fl_endpoint_update), (''logoutput'', StringVar fl_logoutput_update),
      (''trace'', BoolFlag (\<lambda>b. fl_tracing_update (\<lambda>_. b))), (''loglevel'', LevelVar ParseLevel fl_loglevel_update)]
     \<lparr>fl_endpoint = '':10052'', fl_logoutput = ''/dev/stderr'', fl_tracing = False, fl_loglevel = InfoLevel\<rparr>"

definition graphite_init :: "(string \<Rightarrow> 'e + Level) \<Rightarrow> (string \<Rightarrow> 'f option \<times> 'f option) \<Rightarrow> string list \<Rightarrow>
    ('e, 'f) init_error + settings \<times> log_output \<times> loggerT" where
  "graphite_init ParseLevel = init_program
     [(''endpoint'', StringVar fl_endpoint_update), (''logoutput'', StringVar fl_logoutput_update),
      (''trace'', BoolFlag (\<lambda>b. fl_tracing_update (\<lambda>_. b))), (''loglevel'', LevelVar ParseLevel fl_loglevel_update)]
     \<lparr>fl_endpoint = '':10052'', fl_logoutput = ''/dev/stderr'', fl_tracing = False, fl_loglevel = InfoLevel\<rparr>"

definition solomon_init :: "(string \<Rightarrow> 'e + Level) \<Rightarrow> (string \<Rightarrow> 'f option \<times> 'f option) \<Rightarrow> string list \<Rightarrow>
    ('e, 'f) init_error + settings \<times> log_output \<times> loggerT" where
  "solomon_init ParseLevel = init_program
     [(''endpoint'', StringVar fl_endpoint_update), (''logoutput'', StringVar fl_logoutput_update),
      (''trace'', BoolFlag (\<lambda>b. fl_tracing_update (\<lambda>_. b))), (''loglevel'', LevelVar ParseLevel fl_loglevel_update)]
     \<lparr>fl_endpoint = '':10052'', fl_logoutput = ''/dev/stderr'', fl_tracing = False, fl_loglevel = InfoLevel\<rparr>"

definition juggler_init :: "(string \<Rightarrow> 'e + Level) \<Rightarrow> (string \<Rightarrow> 'f option \<times> 'f option) \<Rightarrow> string list \<Rightarrow>
    ('e, 'f) init_error + settings \<times> log_output \<times> loggerT" where
  "juggler_init ParseLevel = init_program
     [(''endpoint'', StringVar fl_endpoint_update), (''logoutput'', StringVar fl_logoutput_update),
      (''trace'', BoolFlag (\<lambda>b. fl_tracing_update (\<lambda>_. b))), (''loglevel'', LevelVar ParseLevel fl_loglevel_update)]
     \<lparr>fl_endpoint = '':10052'', fl_logoutput = ''/dev/stderr'', fl_tracing = False, fl_loglevel = InfoLevel\<rparr>"

definition combainer_flags :: "(string \<Rightarrow> 'e + Level) \<Rightarrow> (string, (combainer_settings, 'e) flag) gomap" where
  "combainer_flags ParseLevel =
     [(''observer'', StringVar fl_endpoint_update), (''logoutput'', StringVar fl_logoutput_update),
      (''configspath'', StringVar fl_configsPath_update), (''active'', BoolFlag (\<lambda>b. fl_active_update (\<lambda>_. b))),
      (''trace'', BoolFlag (\<lambda>b. fl_tracing_update (\<lambda>_. b))), (''loglevel'', LevelVar ParseLevel fl_loglevel_update)]"

definition combainer_init :: "(string \<Rightarrow> 'e + Level) \<Rightarrow> (string \<Rightarrow> 'f option \<times> 'f option) \<Rightarrow> string list \<Rightarrow>
    ('e, 'f) init_error + combainer_settings \<times> log_output \<times> loggerT" where
  "combainer_init ParseLevel = init_program (combainer_flags ParseLevel)
     \<lparr>fl_endpoint = ''0.0.0.0:9000'', fl_logoutput = ''/dev/stderr'', fl_tracing = False, fl_loglevel = InfoLevel,
      fl_configsPath = ''/etc/combaine'', fl_active = True\<rparr>"

section \<open>The programs\<close>

text \<open>A gRPC server and the address it serves; \<open>lis\<close> is the error of \<open>net.Listen\<close>.\<close>

record grpc_server =
  gs_endpoint :: string
  gs_MaxMsgSize :: int
  gs_MaxConcurrentStreams :: int
  gs_MinTime :: int
  gs_PermitWithoutStream :: bool

definition NewServer_at :: "string \<Rightarrow> grpc_server" where
  "NewServer_at endpoint =
     \<lparr>gs_endpoint = endpoint, gs_MaxMsgSize = 1024 * 1024 * 128, gs_MaxConcurrentStreams = 2000,
      gs_MinTime = 10 * Second, gs_PermitWithoutStream = True\<rparr>"

datatype ('x, 's) program_end = Fatal 'x | Serves 's

datatype ('x, 'e) start_error = ListenFailed 'e | RepositoryFailed 'e | StartFailed 'x

definition graphite_main :: "(string \<Rightarrow> 'e option) \<Rightarrow> settings \<Rightarrow> (('x, 'e) start_error, grpc_server) program_end" where
  "graphite_main listen st =
     (case listen (fl_endpoint st) of
        Some err \<Rightarrow> Fatal (ListenFailed err)
      | None \<Rightarrow> Serves (NewServer_at (fl_endpoint st)))"

definition sleepInterval :: int where "sleepInterval = 300"

text \<open>The workers that post the jobs are started first; the job queue holds five.\<close>

definition solomon_main :: "(string \<Rightarrow> 'e option) \<Rightarrow> settings \<Rightarrow> Worker list \<times> (('x, 'e) start_error, grpc_server) program_end" where
  "solomon_main listen st =
     (let workers = StartWorkers 5 sleepInterval in
      (workers, case listen (fl_endpoint st) of
         Some err \<Rightarrow> Fatal (ListenFailed err)
       | None \<Rightarrow> Serves (NewServer_at (fl_endpoint st))))"

text \<open>
  The juggler sender reads its configuration, then the repository beside it, sets up the cache and the store, and listens. A panic of the
  fetcher of the store ends it too.
\<close>

definition juggler_main :: "gopanic + ('x + SenderConfig) \<Rightarrow> 'e option \<Rightarrow> bool \<Rightarrow> pluginEventsStore \<Rightarrow> (string \<Rightarrow> 'e option) \<Rightarrow> settings \<Rightarrow>
    gopanic + (('x, 'e) start_error, (('v, 'e) TTLCache \<times> pluginEventsStore \<times> bool) \<times> SenderConfig \<times> grpc_server) program_end" where
  "juggler_main config repo connected es listen st =
     bind_sum config (\<lambda>r. Inr
       (case r of
          Inl err \<Rightarrow> Fatal (StartFailed err)
        | Inr cfg \<Rightarrow> (case repo of
            Some err \<Rightarrow> Fatal (RepositoryFailed err)
          | None \<Rightarrow>
              let started = juggler_start cfg connected es in
              (case listen (fl_endpoint st) of
                 Some err \<Rightarrow> Fatal (ListenFailed err)
               | None \<Rightarrow> Serves (started, cfg, NewServer_at (fl_endpoint st))))))"

text \<open>The calls of the worker that gRPC hands to the worker's code; the response to an aggregation is empty.\<close>

definition server_DoParsing :: "'e worker_env \<Rightarrow> (AggregateHostRequest \<Rightarrow> 'e + string) \<Rightarrow> nat list \<Rightarrow> ParsingTask \<Rightarrow>
    'e data_error + (string, string) gomap" where
  "server_DoParsing env AggregateHost arrival task = DoParsing env AggregateHost arrival task"

definition server_DoAggregating :: "'e worker_env \<Rightarrow> (AggregateGroupRequest \<Rightarrow> 'e + string) \<Rightarrow> (string, 'c) gomap \<Rightarrow>
    nat list \<Rightarrow> (string \<Rightarrow> nat list) \<Rightarrow> nat list \<Rightarrow> nat list \<Rightarrow> AggregatingTask \<Rightarrow> gopanic + ('c \<times> SenderRequest) list \<times> unit" where
  "server_DoAggregating env AggregateGroup clients dord hord arrival sord task =
     bind_sum (DoAggregating env AggregateGroup clients dord hord arrival sord task) (\<lambda>sent. Inr (sent, ()))"

text \<open>
  The worker listens, and serves once \<open>SpawnServices\<close> has returned without an error: \<open>st\<close> is a run of its goroutines that has
  returned. What is served are the connections to the aggregator and the clients of the senders.
\<close>

definition spawn_sender :: "(string \<Rightarrow> nat \<Rightarrow> 'e + 'c) \<Rightarrow> string \<times> int \<Rightarrow> 'e service_error + 'c" where
  "spawn_sender dial = (\<lambda>(name, port). spawnService dial name port)"

inductive worker_main :: "(string \<Rightarrow> nat \<Rightarrow> 'e + 'c) \<Rightarrow> ('e + (string \<times> bool) list) \<Rightarrow> (string \<Rightarrow> 'e option) \<Rightarrow> settings \<Rightarrow>
    (('e service_error list, 'e) start_error, 'c list \<times> (string, 'c) gomap \<times> grpc_server) program_end \<Rightarrow> bool"
  for dial files listen st where
  no_listener: "listen (fl_endpoint st) = Some err \<Longrightarrow> worker_main dial files listen st (Fatal (ListenFailed err))"
| no_start: "listen (fl_endpoint st) = None \<Longrightarrow> SpawnServices dial files [] = Inl err \<Longrightarrow>
    worker_main dial files listen st (Fatal (StartFailed [err]))"
| errors: "listen (fl_endpoint st) = None \<Longrightarrow> SpawnServices dial files [] = Inr (accs, sp) \<Longrightarrow>
    (spawn_step (spawn_sender dial))\<^sup>*\<^sup>* sp sp' \<Longrightarrow> sp_returned sp' \<Longrightarrow> sp_result sp' \<noteq> [] \<Longrightarrow>
    worker_main dial files listen st (Fatal (StartFailed (sp_result sp')))"
| serves: "listen (fl_endpoint st) = None \<Longrightarrow> SpawnServices dial files [] = Inr (accs, sp) \<Longrightarrow>
    (spawn_step (spawn_sender dial))\<^sup>*\<^sup>* sp sp' \<Longrightarrow> sp_returned sp' \<Longrightarrow> sp_result sp' = [] \<Longrightarrow>
    worker_main dial files listen st (Serves (accs, sp_services sp', NewServer_at (fl_endpoint st)))"

inductive_cases worker_serves: "worker_main dial files listen st (Serves srv)"

text \<open>The combainer; the configuration is read twice, by \<open>Init\<close> and by \<open>New\<close>. \<open>None\<close> is a \<open>joinSerf\<close> that does not end.\<close>

datatype ('d, 'e) combainer_error = MalformedConfig string | SerfError 'e | ClusterError "'e new_error" | ServeError "('d, 'e) serve_error"

definition combainer_main :: "'e filesystem \<Rightarrow> (string \<Rightarrow> CombainerConfig \<times> 'e option) \<Rightarrow> CombainerConfig \<Rightarrow>
    (ClusterConfig \<Rightarrow> ('e, 'r Cluster option) started) \<Rightarrow>
    (('r, 'v, 'e) CombaineServer \<Rightarrow> (gopanic + (('d, 'e) serve_error + nat)) option) \<Rightarrow>
    (gopanic + ((('d, 'e) combainer_error, 'e) start_error, ('r, 'v, 'e) CombaineServer \<times> nat) program_end) option" where
  "combainer_main fs decode zero newCluster serve =
     (case NewCombaineConfig fs decode zero of
        (_, Some err) \<Rightarrow> Some (Inr (Fatal (RepositoryFailed err)))
      | (_, None) \<Rightarrow>
          (case New (GetCombainerConfig fs decode zero) newCluster of
             Malformed msg \<Rightarrow> Some (Inr (Fatal (StartFailed (MalformedConfig msg))))
           | SerfFailed err \<Rightarrow> Some (Inr (Fatal (StartFailed (SerfError err))))
           | NewFailed err \<Rightarrow> Some (Inr (Fatal (StartFailed (ClusterError err))))
           | NewServer cmb \<Rightarrow>
               map_option (\<lambda>r. bind_sum r (\<lambda>res. Inr
                 (case res of Inl err \<Rightarrow> Fatal (StartFailed (ServeError err)) | Inr n \<Rightarrow> Serves (cmb, n)))) (serve cmb)))"

section \<open>Lemmas\<close>

lemma cut_plain: "CHR ''='' \<notin> set name \<Longrightarrow> cut_value name = (name, None)"
proof -
  have "IndexFunc name (\<lambda>c. c = CHR ''='') = None" if "CHR ''='' \<notin> set name" for name
    using that by (induction name) auto
  then show "CHR ''='' \<notin> set name \<Longrightarrow> cut_value name = (name, None)" by (simp add: cut_value_def)
qed

text \<open>The flags of a service on a command line of the worker, and the logger it starts with.\<close>

lemma first_logger:
  "InitializeLogger p (opened, seek) [] =
     (case (case opened of Some err \<Rightarrow> Some err | None \<Rightarrow> if p = ''/dev/stderr'' \<or> p = ''/dev/stdout'' then None else seek) of
        Some err \<Rightarrow> LogFatal err
      | None \<Rightarrow> Logging \<lparr>lo_file = Some 0, lo_open = [0], lo_next = 1, lo_output = Some 0\<rparr>)"
  by (simp add: InitializeLogger_def rotateFile_def no_output_def Let_def split: option.split)

lemma service_settings:
  "init_program
       [(''endpoint'', StringVar fl_endpoint_update), (''logoutput'', StringVar fl_logoutput_update),
        (''trace'', BoolFlag (\<lambda>b. fl_tracing_update (\<lambda>_. b))), (''loglevel'', LevelVar ParseLevel fl_loglevel_update)] st opening
       [''-endpoint'', e, ''-logoutput'', o1, ''-loglevel'', l] =
     (case ParseLevel (ToLower l) of
        Inl err \<Rightarrow> Inl (FlagsRefused (InvalidValue ''loglevel'' err))
      | Inr level \<Rightarrow>
          (case InitializeLogger o1 (opening o1) [] of
             LogFatal err \<Rightarrow> Inl (LoggerFatal err)
           | Logging lo \<Rightarrow> Inr (st\<lparr>fl_endpoint := e, fl_logoutput := o1, fl_loglevel := level\<rparr>, lo, NewLoggerV2WithVerbosity 0)))"
  by (simp add: init_program_def cut_plain StringVar_def LevelVar_def LevelFlag_Set_def Let_def split: sum.split)

declare parse_flags.simps [simp del]

lemma worker_serves_all:
  assumes "worker_main dial files listen st (Serves (accs, clients, srv))"
  shows "listen (fl_endpoint st) = None \<and> gs_endpoint srv = fl_endpoint st \<and>
    (\<exists>fs. files = Inr fs \<and> (\<forall>name. (name, False) \<in> set fs \<longrightarrow> (\<exists>c. GetSenderClient clients name = Inr c)))"
  using assms
proof (rule worker_serves)
  fix accs0 sp sp'
  assume l: "listen (fl_endpoint st) = None" and s: "SpawnServices dial files [] = Inr (accs0, sp)"
    and steps: "(spawn_step (spawn_sender dial))\<^sup>*\<^sup>* sp sp'" and ret: "sp_returned sp'" "sp_result sp' = []"
    and srv: "(accs, clients, srv) = (accs0, sp_services sp', NewServer_at (fl_endpoint st))"
  obtain fs where fs: "files = Inr fs" "sp = spawn_start [] (assign_ports 10000 fs)"
    using s by (auto simp: SpawnServices_def Let_def split: sum.splits)
  note run = steps [unfolded fs(2)]
  have "\<forall>t\<in>set (assign_ports 10000 fs). \<exists>sc. spawn_sender dial t = Inr sc"
    using spawn_failed_hangs [OF run] ret(1) by (metis sum.exhaust)
  then have "\<forall>t\<in>set (assign_ports 10000 fs). map_of (sp_services sp') (fst t) \<noteq> None"
    using spawned_registered [OF run ret(1)] by blast
  moreover have "\<exists>p. (name, p) \<in> set (assign_ports k fs)" if "(name, False) \<in> set fs" for name k
    using that by (induction k fs rule: assign_ports.induct) auto
  ultimately have "map_of (sp_services sp') name \<noteq> None" if "(name, False) \<in> set fs" for name
    using that by fastforce
  then have "\<forall>name. (name, False) \<in> set fs \<longrightarrow> (\<exists>c. map_of clients name = Some c)" using srv by auto
  then show ?thesis using l fs(1) srv by (fastforce simp: GetSenderClient_def NewServer_at_def)
qed

text \<open>A sender program that cannot be dialled keeps the worker from serving, and from ending.\<close>

lemma worker_sender_down:
  assumes "listen (fl_endpoint st) = None" and "SpawnServices dial (Inr fs) [] = Inr (accs, sp)"
    and "t \<in> set (assign_ports 10000 fs)" and "spawn_sender dial t = Inl err"
  shows "\<not> worker_main dial (Inr fs) listen st r"
proof
  have sp: "sp = spawn_start [] (assign_ports 10000 fs)"
    using assms(2) by (auto simp: SpawnServices_def Let_def split: sum.splits)
  have never: "\<not> sp_returned sp'" if "(spawn_step (spawn_sender dial))\<^sup>*\<^sup>* sp sp'" for sp'
    using spawn_failed_hangs [OF that [unfolded sp]] assms(3,4) by blast
  assume "worker_main dial (Inr fs) listen st r"
  then show False using assms(1,2) never by cases auto
qed

text \<open>A combainer without an address of its own panics as soon as it serves.\<close>

lemma combainer_nil_cluster:
  assumes "NewCombaineConfig fs decode zero = (cfg, None)" and "VerifyCombainerConfig cfg = (cfg', None)"
    and "newCluster (ms_Cluster (cc_MainSection cfg')) = started.Returned None None"
    and "\<And>s. sv_cluster s = None \<Longrightarrow> serve s = Some (Inl NilDereference)"
  shows "combainer_main fs decode zero newCluster serve = Some (Inl NilDereference)"
  using assms by (simp add: combainer_main_def GetCombainerConfig_def New_def)

section \<open>Properties\<close>

text \<open>
  C27. The worker and the sender programs agree on the command line: the arguments with which the worker starts a program
  of its directory are read by the flags of that program, whichever of the three it is, as the port the worker dials, the log file and the
  level given for it in the environment or their defaults, and it logs to that file, the only one it has open. It ends at its start exactly
  when the level is none of logrus, or when the log file cannot be opened or, unless it is one of the standard streams, its end not be found.
\<close>

theorem spawned_program_settings:
  "let cmd = service_command LookupEnv name port;
       var = ''COMBAINE_WORKER_SERVICE_'' @ map upper_char name;
       logoutput = (case LookupEnv (var @ ''_LOGOUTPUT'') of Some v \<Rightarrow> v | None \<Rightarrow> ''/var/log/combaine/'' @ name @ ''.log'');
       loglevel = (case LookupEnv (var @ ''_LOGLEVEL'') of Some v \<Rightarrow> v | None \<Rightarrow> ''info'');
       log_failure = (case opening logoutput of
          (Some err, seek) \<Rightarrow> Some err
        | (None, seek) \<Rightarrow> if logoutput = ''/dev/stderr'' \<or> logoutput = ''/dev/stdout'' then None else seek);
       start = (case (ParseLevel (ToLower loglevel), log_failure) of
          (Inl err, f) \<Rightarrow> Inl (FlagsRefused (InvalidValue ''loglevel'' err))
        | (Inr l, Some err) \<Rightarrow> Inl (LoggerFatal err)
        | (Inr l, None) \<Rightarrow> Inr
            (\<lparr>fl_endpoint = ''[::]:'' @ Itoa port, fl_logoutput = logoutput, fl_tracing = False, fl_loglevel = l\<rparr>,
             \<lparr>lo_file = Some 0, lo_open = [0], lo_next = 1, lo_output = Some 0\<rparr>, NewLoggerV2WithVerbosity 0))
   in hd cmd = ''/usr/lib/combaine/apps/'' @ name \<and>
     graphite_init ParseLevel opening (tl cmd) = start \<and> solomon_init ParseLevel opening (tl cmd) = start \<and>
     juggler_init ParseLevel opening (tl cmd) = start"
proof -
  let ?path = "case LookupEnv (''COMBAINE_WORKER_SERVICE_'' @ map upper_char name @ ''_LOGOUTPUT'') of Some v \<Rightarrow> v
    | None \<Rightarrow> ''/var/log/combaine/'' @ name @ ''.log''"
  obtain opened seek where o: "opening ?path = (opened, seek)" by fastforce
  show ?thesis
    unfolding Let_def service_command_def list.sel graphite_init_def solomon_init_def juggler_init_def service_settings
      envPrefix_def appsDir_def logDir_def append_assoc o first_logger
    by (simp split: sum.split option.split)
qed

text \<open>Two programs of a worker: one with the defaults, and one with a log file that does not open.\<close>

definition sample_levels :: "string \<Rightarrow> string + Level" where
  "sample_levels l = (if l = ''info'' then Inr InfoLevel else Inl ''level'')"

definition sample_environment :: "string \<Rightarrow> string option" where
  "sample_environment v = (if v = ''COMBAINE_WORKER_SERVICE_JUGGLER_LOGOUTPUT'' then Some ''/full'' else None)"

definition sample_opening :: "string \<Rightarrow> string option \<times> string option" where
  "sample_opening p = (if p = ''/full'' then Some ''disk'' else None, None)"

theorem spawned_program_settings_witness:
  "graphite_init sample_levels sample_opening (tl (service_command sample_environment ''graphite'' 10000)) =
      Inr (\<lparr>fl_endpoint = ''[::]:10000'', fl_logoutput = ''/var/log/combaine/graphite.log'', fl_tracing = False, fl_loglevel = InfoLevel\<rparr>,
        \<lparr>lo_file = Some 0, lo_open = [0], lo_next = 1, lo_output = Some 0\<rparr>, NewLoggerV2WithVerbosity 0) \<and>
    juggler_init sample_levels sample_opening (tl (service_command sample_environment ''juggler'' 10001)) = Inl (LoggerFatal ''disk'')"
proof -
  let ?var = "\<lambda>name. ''COMBAINE_WORKER_SERVICE_'' @ map upper_char name"
  have graphite: "sample_environment (?var ''graphite'' @ ''_LOGOUTPUT'') = None" "sample_environment (?var ''graphite'' @ ''_LOGLEVEL'') = None"
    "sample_opening ''/var/log/combaine/graphite.log'' = (None, None)"
    "''/var/log/combaine/'' @ ''graphite'' @ ''.log'' = ''/var/log/combaine/graphite.log''"
    by code_simp+
  have "Itoa 10000 = map digit [1, 0, 0, 0, 0]" by (simp add: Itoa_def utoa.simps)
  also have "\<dots> = ''10000''" by code_simp
  finally have port: "''[::]:'' @ Itoa 10000 = ''[::]:10000''" by simp
  have juggler: "sample_environment (?var ''juggler'' @ ''_LOGOUTPUT'') = Some ''/full''"
    "sample_environment (?var ''juggler'' @ ''_LOGLEVEL'') = None" "sample_opening ''/full'' = (Some ''disk'', None)"
    by code_simp+
  have level: "sample_levels (ToLower ''info'') = Inr InfoLevel" by code_simp
  note eval = graphite(1-3) juggler level option.case sum.case prod.case if_cancel
  show ?thesis
    using spawned_program_settings [of sample_environment "''graphite''" 10000 sample_opening sample_levels]
      spawned_program_settings [of sample_environment "''juggler''" 10001 sample_opening sample_levels]
    unfolding Let_def eval graphite(4) port by (elim conjE) (intro conjI)
qed

end
