(* ===== verification/Http.thy ===== *)
theory Http
  imports Fetchers JugglerSend
begin

text \<open>
  \<open>common/chttp\<close>: the HTTP client of the fetchers and senders, and what its callers see of it. \<open>http.NewRequest\<close> and
  \<open>http.DefaultClient\<close> are arguments (\<open>http_client\<close>). The callers tell the end of their context from other errors by the value of the
  error (\<open>switch err\<close>); \<open>Do\<close> is what makes that value the error of the context.
\<close>

record http_request =
  hq_Method :: string
  hq_URL :: string
  hq_Header :: "(string, string list) gomap"
  hq_Body :: string

text \<open>\<open>hc_ended\<close>: whether the context is over when the client has returned its error.\<close>

record 'e http_client =
  hc_NewRequest :: "string \<Rightarrow> string \<Rightarrow> 'e option"
  hc_Do :: "http_request \<Rightarrow> 'e + int \<times> ('e + string)"
  hc_ended :: "http_request \<Rightarrow> bool"

datatype 'e http_error = RequestError 'e | ClientError 'e | ContextErr

definition defaultUserAgent :: string where "defaultUserAgent = ''Combaine (github.com/combaine)''"

definition Header_Set :: "string \<Rightarrow> string \<Rightarrow> http_request \<Rightarrow> http_request" where
  "Header_Set k v req = req\<lparr>hq_Header := AList.update k [v] (hq_Header req)\<rparr>"

definition http_NewRequest :: "'e http_client \<Rightarrow> string \<Rightarrow> string \<Rightarrow> string \<Rightarrow> 'e http_error + http_request" where
  "http_NewRequest client method url body =
     (case hc_NewRequest client method url of
        Some err \<Rightarrow> Inl (RequestError err)
      | None \<Rightarrow> Inr \<lparr>hq_Method = method, hq_URL = url, hq_Header = [], hq_Body = body\<rparr>)"

definition user_agent :: "http_request \<Rightarrow> http_request" where
  "user_agent req =
     (if map_of (hq_Header req) ''User-Agent'' = None then Header_Set ''User-Agent'' defaultUserAgent req else req)"

definition chttp_Do :: "'e http_client \<Rightarrow> http_request \<Rightarrow> 'e http_error + int \<times> ('e + string)" where
  "chttp_Do client req =
     (let req = user_agent req in
      case hc_Do client req of
        Inl err \<Rightarrow> if hc_ended client req then Inl ContextErr else Inl (ClientError err)
      | Inr resp \<Rightarrow> Inr resp)"

definition chttp_Get :: "'e http_client \<Rightarrow> string \<Rightarrow> 'e http_error + int \<times> ('e + string)" where
  "chttp_Get client url =
     (case http_NewRequest client ''GET'' url [] of Inl err \<Rightarrow> Inl err | Inr req \<Rightarrow> chttp_Do client req)"

definition chttp_Post :: "'e http_client \<Rightarrow> string \<Rightarrow> string \<Rightarrow> string \<Rightarrow> 'e http_error + int \<times> ('e + string)" where
  "chttp_Post client url bodyType body =
     (case http_NewRequest client ''POST'' url body of
        Inl err \<Rightarrow> Inl err
      | Inr req \<Rightarrow> chttp_Do client (Header_Set ''Content-Type'' bodyType req))"

section \<open>The callers\<close>

text \<open>The outcome a caller with a \<open>switch err\<close> distinguishes.\<close>

definition as_outcome :: "'e http_error + int \<times> ('e + string) \<Rightarrow> 'e http_outcome" where
  "as_outcome r =
     (case r of
        Inl (RequestError err) \<Rightarrow> BadRequest err
      | Inl (ClientError err) \<Rightarrow> NetError err
      | Inl ContextErr \<Rightarrow> ContextDone
      | Inr (status, body) \<Rightarrow> Response status body)"

text \<open>The update of a check: \<open>updateCheck\<close> sets its own headers and has \<open>Do\<close> send the request.\<close>

definition update_request :: "JugglerConfig \<Rightarrow> http_request \<Rightarrow> http_request" where
  "update_request js req =
     (let req = Header_Set ''Content-Type'' ''application/json'' req;
          req = Header_Set ''User-Agent'' ''Juggler sender (github.com/combaine)'' req
      in if jc_Token js \<noteq> [] then Header_Set ''Authorization'' (''OAuth '' @ jc_Token js) req else req)"

definition post_check :: "'e http_client \<Rightarrow> JugglerConfig \<Rightarrow> string \<Rightarrow> string \<Rightarrow> 'e http_outcome" where
  "post_check client js cJSON host =
     as_outcome (case http_NewRequest client ''POST'' (''http://'' @ host @ ''/api/checks/add_or_update?do=1'') cJSON of
       Inl err \<Rightarrow> Inl err
     | Inr req \<Rightarrow> chttp_Do client (update_request js req))"

text \<open>The context of a data fetcher over this client.\<close>

definition client_context :: "'e http_client \<Rightarrow> bool \<Rightarrow> (string \<Rightarrow> 'e http_error + ('e http_error + string)) \<Rightarrow>
    'e http_error fetch_context" where
  "client_context client deadline dial =
     \<lparr>has_deadline = deadline,
      http_get = (\<lambda>url. map_sum (\<lambda>e. e) (map_prod (\<lambda>s. s) (map_sum ClientError (\<lambda>b. b))) (chttp_Get client url)),
      dial_read = dial\<rparr>"

section \<open>Lemmas\<close>

lemma user_agent_set:
  "map_of (hq_Header (user_agent req)) ''User-Agent'' =
     (case map_of (hq_Header req) ''User-Agent'' of None \<Rightarrow> Some [defaultUserAgent] | Some ua \<Rightarrow> Some ua)"
  by (simp add: user_agent_def Header_Set_def split: option.split)

text \<open>
  A caller sees the end of its context exactly when the client failed and the context was over, whatever error the client
  returned; every other failure of the client is a network error.
\<close>

lemma do_outcome:
  "as_outcome (chttp_Do client req) = ContextDone \<longleftrightarrow>
    isl (hc_Do client (user_agent req)) \<and> hc_ended client (user_agent req)"
  by (auto simp: as_outcome_def chttp_Do_def Let_def split: sum.split http_error.splits)

text \<open>The headers of an update of a check: the agent of the sender is kept, the token is sent when there is one.\<close>

lemma update_headers:
  "user_agent (update_request js req) = update_request js req"
  "map_of (hq_Header (update_request js req)) ''User-Agent'' = Some [''Juggler sender (github.com/combaine)'']"
  "map_of (hq_Header req) ''Authorization'' = None \<Longrightarrow>
    map_of (hq_Header (update_request js req)) ''Authorization'' =
      (if jc_Token js = [] then None else Some [''OAuth '' @ jc_Token js])"
  by (simp_all add: update_request_def user_agent_def Header_Set_def Let_def)

text \<open>\<open>updateCheck\<close> over the client: it gives up at the first host during which the context ends.\<close>

lemma update_check_timeout:
  assumes "hc_NewRequest client ''POST'' (''http://'' @ host @ ''/api/checks/add_or_update?do=1'') = None"
    and "\<And>req. isl (hc_Do client req) \<and> hc_ended client req"
  shows "post_update (post_check client js cJSON) errs (host # hosts) = Some Timeout"
proof -
  have "post_check client js cJSON host = ContextDone"
    using assms by (simp add: post_check_def http_NewRequest_def do_outcome)
  then show ?thesis by simp
qed

end
