(* ===== verification/Utils.thy ===== *)
theory Utils
  imports Repository
begin

text \<open>
  The rest of \<open>utils/utils.go\<close>: the type of a plugin section and the identifiers of sessions. The clock, the random
  numbers and \<open>md5\<close> are arguments.
\<close>

datatype type_error = MissingFieldType | TypeNotString

definition GetType :: "(string, val) gomap \<Rightarrow> type_error + string" where
  "GetType cfg =
     (case map_of cfg ''type'' of
        None \<Rightarrow> Inl MissingFieldType
      | Some value \<Rightarrow> (case value of VString Type \<Rightarrow> Inr Type | _ \<Rightarrow> Inl TypeNotString))"

text \<open>The format \<open>%x\<close> of a string: two lower-case digits per byte.\<close>

definition hex_digit :: "nat \<Rightarrow> char" where
  "hex_digit n = (if n < 10 then char_of (48 + n) else char_of (87 + n))"

fun hex :: "string \<Rightarrow> string" where
  "hex [] = []"
| "hex (c # cs) = hex_digit (of_char c div 16) # hex_digit (of_char c mod 16) # hex cs"

definition GenerateSessionID :: "(string \<Rightarrow> string) \<Rightarrow> int \<Rightarrow> int \<Rightarrow> string" where
  "GenerateSessionID md5 now random =
     (let buf = Itoa now @ Itoa random; val = md5 buf in hex val)"

section \<open>Lemmas\<close>

lemma length_hex: "length (hex s) = 2 * length s"
  by (induction s rule: hex.induct) simp_all

lemma hex_digits_distinct: "distinct (map hex_digit [0..<16])"
  by code_simp

lemma hex_digit_inject: "m < 16 \<Longrightarrow> n < 16 \<Longrightarrow> hex_digit m = hex_digit n \<longleftrightarrow> m = n"
  using hex_digits_distinct unfolding distinct_map inj_on_def by auto

lemma char_halves:
  assumes "of_char c div 16 = (of_char d div 16 :: nat)" and "of_char c mod 16 = (of_char d mod 16 :: nat)"
  shows "c = d"
proof -
  have "(of_char c :: nat) = of_char d" using assms by (metis div_mult_mod_eq)
  then show ?thesis by simp
qed

lemma hex_inject: "hex s = hex t \<Longrightarrow> s = t"
proof (induction s arbitrary: t)
  case (Cons c s)
  then obtain d t' where t: "t = d # t'" by (cases t) auto
  have b: "(of_char x :: nat) div 16 < 16" for x :: char using nat_of_char_less_256 [of x] by (simp add: less_mult_imp_div_less)
  have "of_char c div 16 = (of_char d div 16 :: nat)" "of_char c mod 16 = (of_char d mod 16 :: nat)"
    using Cons.prems b [of c] b [of d] by (simp_all add: t hex_digit_inject)
  then show ?case using Cons.IH [of t'] Cons.prems char_halves [of c d] by (simp add: t)
next
  case Nil
  then show ?case by (cases t) simp_all
qed

text \<open>Identifiers are 32 digits long, and equal only for equal digests.\<close>

lemma session_id:
  assumes "\<And>b. length (md5 b) = 16"
  shows "length (GenerateSessionID md5 now random) = 32"
    and "GenerateSessionID md5 now random = GenerateSessionID md5 now' random' \<Longrightarrow>
      md5 (Itoa now @ Itoa random) = md5 (Itoa now' @ Itoa random')"
  using assms by (auto simp: GenerateSessionID_def Let_def length_hex dest: hex_inject)

end
