(* ===== verification/Spec2Isabelle.thy ===== *)
theory Spec2Isabelle
  imports Replicas Programs Http Utils
begin

text \<open>
  A verification development of combaine, a distributed log and metrics aggregation system in Go.

  \<^bold>\<open>The program.\<close> Combainers form a cluster (serf for membership, raft for agreement). The leader spreads the
  parsing configs of the repository over the alive nodes; the assignment is the state of a replicated state
  machine, and every replica runs one task per config assigned to its own node. A task repeats iterations: it
  resolves the groups of its config to hosts, has workers fetch and aggregate the data of each host (parsing
  phase), then has workers aggregate over hosts, data centres and the whole group and hand the results to senders
  (aggregation phase). A sender turns results into Graphite lines, Solomon sensors, or Juggler events computed
  by a Lua plugin.

  \<^bold>\<open>How the code is modelled.\<close> A Go map is an association list with distinct keys, and every \<open>range\<close> over a
  map takes a code of the order in which it visits the keys, so a theorem for all codes is one for all orders
  (\<open>Prelude\<close>). A panic is a value of \<open>gopanic\<close>, a returned error a value of an error type next to the state. Goroutines are
  step relations, one step per piece of code that runs without another being able to interfere; timers and
  the answers of the network are events. Integers are words where their width matters (counters, durations, the time
  frame of an iteration, the failures of a batch), \<open>int\<close> else. Strings are lists of bytes. Code outside the repository
  is an argument: raft and serf (\<open>raft_api\<close>), the codecs for YAML, JSON and msgpack, HTTP, DNS, ZooKeeper and mongo, gRPC, the
  Lua interpreter, the formats of \<open>fmt\<close>, and floats, but for the one product the time frame is computed with.

  \<^bold>\<open>Theories.\<close>
  \<^item> \<open>Prelude\<close>, \<open>GoStrings\<close>, \<open>GoJson\<close>: maps, orders, panics, the contracts \<open>guarded_steps\<close>, \<open>ending_steps\<close> and \<open>panicking_steps\<close> of
    interleaved steps; the part of \<open>strings\<close> and \<open>strconv\<close> the code uses; JSON as values.
  \<^item> \<open>FSMStore\<close>, \<open>FSM\<close> (\<open>combainer/fsm.go\<close>): the table of assignments with the stop channels of the running tasks, its
    contract as the locale \<open>config_store\<close>; \<open>Apply\<close>, \<open>Snapshot\<close>, \<open>Persist\<close>, \<open>Restore\<close>. A replica never panics, runs exactly the tasks
    its table assigns to it, refines a set of assignments, and restores what a snapshot holds.
  \<^item> \<open>Scheduler\<close> (\<open>combainer/scheduler.go\<close>), over the operations of a cluster (locale \<open>cluster_ops\<close>), \<open>Cluster\<close>
    (\<open>combainer/cluster.go\<close>), \<open>Leader\<close>, \<open>LeaderLoop\<close> (\<open>combainer/leader.go\<close>): a tick of the leader, reconciliation,
    serf events, the leader loop and \<open>Run\<close>. No config is ever on two hosts; a tick without error leaves a
    partition with at most the remainder unassigned, a balanced cluster is left alone, leftovers are placed at the next tick.
  \<^item> \<open>Replicas\<close>: the nodes of the theories above around one raft log, with leaders that change and nodes that lag, restore snapshots and
    restart. A config runs on at most one node that has applied the log, and after a tick the cluster runs the repository.
  \<^item> \<open>Repository\<close> (\<open>repository/\<close>), \<open>Hosts\<close>, \<open>Utils\<close> (\<open>common/hosts\<close>, \<open>combainer/resolver.go\<close>, \<open>utils\<close>), \<open>Cache\<close>
    (\<open>common/cache\<close>), \<open>Discovery\<close> (\<open>common/discovery.go\<close>): reading and merging configs, hosts by data centre, the cache with
    its fetches in flight, the five host fetchers. The cache serves only what was fetched for the key and never hangs;
    when a fetch of hosts succeeds, fails or panics is stated for each fetcher.
  \<^item> \<open>Observer\<close> (\<open>combainer/stats.go\<close>, \<open>observer.go\<close>, \<open>handleTask\<close>), \<open>Client\<close>, \<open>Server\<close> (\<open>combainer/client.go\<close>, \<open>server.go\<close>, the
    handlers of \<open>observer.go\<close>, \<open>joinSerf\<close>): statistics, the parameters and the time frame of an iteration, its
    phases and \<open>Dispatch\<close>, the start of the server and the HTTP pages. An iteration ends and counts every task once.
  \<^item> \<open>Fetchers\<close> (\<open>fetchers/\<close>), \<open>Parsing\<close>, \<open>Aggregating\<close>, \<open>WorkerServices\<close> (\<open>worker/\<close>), \<open>Pipeline\<close>: a worker's
    fetching, its requests to the aggregators and the senders, the start of its services. \<open>Pipeline\<close> composes client and workers:
    the request for a group carries exactly what the workers of its hosts answered.
  \<^item> \<open>SenderData\<close> (\<open>senders/types.go\<close>), \<open>Solomon\<close>, \<open>ConnPool\<close>, \<open>Graphite\<close>: values and their leaves, the reference both senders
    are proved equal to; posting with retries; the pool of connections.
  \<^item> \<open>JugglerConfig\<close>, \<open>JugglerChecks\<close>, \<open>JugglerSend\<close>, \<open>JugglerStore\<close>, \<open>JugglerPlugin\<close> (\<open>senders/juggler/\<close>): settings, bringing checks in
    line with the configuration, sending in batches, the store of histories, and what goes into and comes out of a plugin.
  \<^item> \<open>SenderMains\<close> (\<open>cmd/graphite\<close>, \<open>cmd/solomon\<close>, \<open>cmd/juggler\<close>): \<open>DoSend\<close> of the three programs, composed of the theories
    above, and the way of the results of a worker to the lines on a Graphite connection.
  \<^item> \<open>Logging\<close> (\<open>common/logger\<close>), \<open>Http\<close> (\<open>common/chttp\<close>), \<open>Programs\<close> (\<open>cmd/\<close>): the lines of the log, its file and its level; the HTTP client
    and what its callers see of it; the flags of the five programs and \<open>main\<close> up to the point where they serve. The command line the worker
    builds for a sender program is read by that program as it was meant.

  \<^bold>\<open>Contracts.\<close> Each locale is interpreted on the definitions of the code: \<open>config_store\<close> on \<open>FSMStore\<close>, \<open>cluster_ops\<close> on the cluster
  through raft, \<open>guarded_steps\<close> and \<open>ending_steps\<close> on the parsing phase, the start of the services and the event store, \<open>panicking_steps\<close> on
  the cache and the connection pool.

  \<^bold>\<open>Termination and fuel.\<close> No fuel is used. Loops that may not end are partial functions (\<open>JugglerSend.batches\<close>,
  \<open>Server.joinSerf\<close>), with lemmas that say when they return; interleaved runs end by a measure that every step lowers.
  The time frame is exact for iterations below \<open>2 ^ 32\<close> seconds, the failures of a batch for counts below \<open>2 ^ 31\<close>.

  \<^bold>\<open>Not modelled.\<close> What is written to the log, apart from the form of its lines; signals; the serving of gRPC and HTTP; \<open>createRaftTransport\<close>,
  one call of raft; the case of a struct in \<open>toLuaValue\<close>, which no decoded value reaches; \<open>common/errors.go\<close>, names of errors that the models
  have as constructors; the code generated from \<open>rpc/\<close>; the Python aggregators and the Lua plugin. The memory model is sequentially consistent. White
  space and letter case are those of ASCII.
\<close>

end
